(* ===== verification/Prelude.thy ===== *)
theory Prelude
  imports Complex_Main "HOL-Library.Word"
begin

text \<open>
  Shared vocabulary of the development: the types that stand for the Qt value classes
  (a QString is a \<open>string\<close>, a QByteArray a list of bytes, a QList a list, a QVariant a
  \<open>variant\<close>), the structural operations of those containers that the code calls
  (\<open>startsWith\<close>, \<open>indexOf\<close>, \<open>contains\<close>, \<open>split\<close>, \<open>trimmed\<close>, \<open>removeAt\<close>), and the generic
  lemmas about them that several components use.

  Operations that depend on Unicode tables (what counts as white space, case folding), on
  number parsing or on the operating system are never defined here: the definitions that
  need them take them as arguments.
\<close>

type_synonym byte = "8 word"
type_synonym path = string

text \<open>The values that cross the model/view boundary (QVariant); \<open>VInvalid\<close> is the
  default-constructed \<open>QVariant{}\<close>.\<close>

datatype variant =
    VInvalid
  | VStr string
  | VInt int
  | VUInt "32 word"
  | VBool bool
  | VReal rat
  | VTime int
  | VIcon string
  | VUrl string
  | VStrs "string list"
  | VMap "(string \<times> variant) list"
  | VList "variant list"

named_theorems str_simps \<open>facts about the string operations\<close>
named_theorems list_ops \<open>facts about the list operations\<close>


subsection \<open>String operations\<close>

definition starts_with :: "'a list \<Rightarrow> 'a list \<Rightarrow> bool" where
  "starts_with s p \<longleftrightarrow> take (length p) s = p"

fun index_of :: "'a list \<Rightarrow> 'a list \<Rightarrow> nat option" where
  "index_of p [] = (if p = [] then Some 0 else None)"
| "index_of p (c # cs) =
     (if starts_with (c # cs) p then Some 0 else map_option Suc (index_of p cs))"

definition str_contains :: "'a list \<Rightarrow> 'a list \<Rightarrow> bool" where
  "str_contains s p \<longleftrightarrow> index_of p s \<noteq> None"

definition trim :: "('a \<Rightarrow> bool) \<Rightarrow> 'a list \<Rightarrow> 'a list" where
  "trim sp s = rev (dropWhile sp (rev (dropWhile sp s)))"

fun split_on :: "'a \<Rightarrow> 'a list \<Rightarrow> 'a list list" where
  "split_on c [] = [ [] ]"
| "split_on c (x # xs) =
     (if x = c then [] # split_on c xs
      else (case split_on c xs of [] \<Rightarrow> [ [x] ] | y # ys \<Rightarrow> (x # y) # ys))"

definition split_skip_empty :: "'a \<Rightarrow> 'a list \<Rightarrow> 'a list list" where
  "split_skip_empty c s = filter (\<lambda>p. p \<noteq> []) (split_on c s)"

lemma starts_with_append [simp, str_simps]: "starts_with (p @ s) p"
  by (simp add: starts_with_def)

lemma starts_with_Nil [simp, str_simps]: "starts_with s []"
  by (simp add: starts_with_def)

lemma starts_with_iff: "starts_with s p \<longleftrightarrow> (\<exists>r. s = p @ r)"
  by (metis append_eq_conv_conj append_take_drop_id starts_with_def)

lemma index_of_Some:
  "index_of p s = Some i \<Longrightarrow> i + length p \<le> length s \<and> take (length p) (drop i s) = p"
proof (induction s arbitrary: i)
  case Nil
  then show ?case by (simp split: if_splits)
next
  case (Cons c cs)
  show ?case
  proof (cases "starts_with (c # cs) p")
    case True
    with Cons.prems have "i = 0" by simp
    moreover from True have "take (length p) (c # cs) = p"
      by (simp add: starts_with_def)
    moreover from this have "length p \<le> length (c # cs)"
      by (metis length_take min.cobounded1)
    ultimately show ?thesis by simp
  next
    case False
    with Cons.prems obtain j where "index_of p cs = Some j" and "i = Suc j"
      by auto
    with Cons.IH show ?thesis by auto
  qed
qed

lemma index_of_append_sep: "c \<notin> set xs \<Longrightarrow> index_of [c] (xs @ c # ys) = Some (length xs)"
  by (induction xs) (auto simp: starts_with_def)

lemma index_of_single_None: "index_of [c] xs = None \<longleftrightarrow> c \<notin> set xs"
  by (induction xs) (auto simp: starts_with_def)

lemma trim_idem_if:
  assumes "s = [] \<or> (\<not> sp (hd s) \<and> \<not> sp (last s))"
  shows "trim sp s = s"
proof (cases "s = []")
  case True
  then show ?thesis by (simp add: trim_def)
next
  case False
  with assms have "dropWhile sp s = s" and "dropWhile sp (rev s) = rev s"
    by (simp_all add: dropWhile_eq_self_iff hd_rev)
  then show ?thesis by (simp add: trim_def)
qed

lemma trim_ends:
  "trim sp s \<noteq> [] \<Longrightarrow> \<not> sp (hd (trim sp s)) \<and> \<not> sp (last (trim sp s))"
proof -
  assume ne: "trim sp s \<noteq> []"
  let ?d = "dropWhile sp s"
  have last_ok: "\<not> sp (last (trim sp s))"
    using ne by (simp add: trim_def last_rev hd_dropWhile)
  have dne: "?d \<noteq> []"
    using ne unfolding trim_def by (metis dropWhile.simps(1) rev.simps(1))
  have pre: "\<exists>t. ?d = trim sp s @ t"
  proof -
    have "rev ?d = takeWhile sp (rev ?d) @ dropWhile sp (rev ?d)" by simp
    then have "?d = rev (dropWhile sp (rev ?d)) @ rev (takeWhile sp (rev ?d))"
      by (metis rev_append rev_rev_ident)
    then show ?thesis unfolding trim_def by blast
  qed
  then have "hd (trim sp s) = hd ?d" using ne by (metis hd_append2)
  with dne hd_dropWhile [of sp s] last_ok show ?thesis by simp
qed

lemma set_trim_subset: "set (trim sp s) \<subseteq> set s"
proof
  fix x
  assume "x \<in> set (trim sp s)"
  then have "x \<in> set (dropWhile sp (rev (dropWhile sp s)))" by (simp add: trim_def)
  then have "x \<in> set (rev (dropWhile sp s))" by (blast dest: set_dropWhileD)
  then show "x \<in> set s" by (auto dest: set_dropWhileD)
qed

lemma trim_trim [simp, str_simps]: "trim sp (trim sp s) = trim sp s"
  using trim_ends [of sp s] trim_idem_if [of "trim sp s" sp] by blast

lemma split_on_ne [simp, str_simps]: "split_on c s \<noteq> []"
  by (cases s) (auto split: list.splits)


lemma split_on_append:
  "c \<notin> set xs \<Longrightarrow> split_on c (xs @ c # ys) = xs # split_on c ys"
  by (induction xs) auto

lemma split_on_none: "c \<notin> set xs \<Longrightarrow> split_on c xs = [xs]"
  by (induction xs) auto

lemma hd_split_on: "hd (split_on c s) = takeWhile (\<lambda>x. x \<noteq> c) s"
  by (induction s) (auto split: list.splits)

text \<open>Fields joined by a separator that none of them contains.\<close>

fun join_with :: "'a \<Rightarrow> 'a list list \<Rightarrow> 'a list" where
  "join_with c [] = []"
| "join_with c [f] = f"
| "join_with c (f # g # fs) = f @ c # join_with c (g # fs)"

lemma split_join: "fs \<noteq> [] \<Longrightarrow> \<forall>f \<in> set fs. c \<notin> set f \<Longrightarrow> split_on c (join_with c fs) = fs"
  by (induction fs rule: join_with.induct) (simp_all add: split_on_append split_on_none)


subsection \<open>List operations\<close>

definition remove_at :: "nat \<Rightarrow> 'a list \<Rightarrow> 'a list" where
  "remove_at i xs = take i xs @ drop (Suc i) xs"

fun find_idx :: "('a \<Rightarrow> bool) \<Rightarrow> 'a list \<Rightarrow> nat option" where
  "find_idx P [] = None"
| "find_idx P (x # xs) = (if P x then Some 0 else map_option Suc (find_idx P xs))"

lemma find_idx_Some:
  "find_idx P xs = Some i \<Longrightarrow> i < length xs \<and> P (xs ! i) \<and> (\<forall>j<i. \<not> P (xs ! j))"
proof (induction xs arbitrary: i)
  case Nil
  then show ?case by simp
next
  case (Cons x xs)
  show ?case
  proof (cases "P x")
    case True
    with Cons.prems show ?thesis by simp
  next
    case False
    with Cons.prems obtain j where "find_idx P xs = Some j" and "i = Suc j" by auto
    with Cons.IH [of j] False show ?thesis by (auto simp: less_Suc_eq_0_disj)
  qed
qed

lemma find_idx_None: "find_idx P xs = None \<longleftrightarrow> (\<forall>x \<in> set xs. \<not> P x)"
  by (induction xs) auto

lemma length_remove_at [simp, list_ops]:
  "i < length xs \<Longrightarrow> length (remove_at i xs) = length xs - 1"
  by (simp add: remove_at_def)

lemma set_remove_at_subset: "set (remove_at i xs) \<subseteq> set xs"
  by (auto simp: remove_at_def dest: in_set_takeD in_set_dropD)

lemma remove_at_nths: "\<exists>ys. xs = take i xs @ ys @ drop (Suc i) xs"
  by (metis append_take_drop_id drop_drop plus_1_eq_Suc)

lemma distinct_map_remove_at: "distinct (map f xs) \<Longrightarrow> distinct (map f (remove_at i xs))"
proof -
  assume d: "distinct (map f xs)"
  obtain ys where "xs = take i xs @ ys @ drop (Suc i) xs"
    using remove_at_nths by blast
  then have "map f xs = map f (take i xs) @ map f ys @ map f (drop (Suc i) xs)"
    by (metis map_append)
  with d show ?thesis unfolding remove_at_def by auto
qed


text \<open>A list of keyed records as a map: lookup, update in place, append and removal.\<close>

definition keyed :: "('a \<Rightarrow> 'k) \<Rightarrow> ('a \<Rightarrow> 'v) \<Rightarrow> 'a list \<Rightarrow> 'k \<Rightarrow> 'v option" where
  "keyed f g ws = map_of (map (\<lambda>w. (f w, g w)) ws)"

lemma keyed_find_idx:
  "keyed f g ws k = (case find_idx (\<lambda>w. f w = k) ws of None \<Rightarrow> None | Some i \<Rightarrow> Some (g (ws ! i)))"
  unfolding keyed_def by (induction ws) (auto split: option.splits)

lemma keyed_update:
  assumes "find_idx (\<lambda>w. f w = k) ws = Some i" and "f w' = k"
  shows "keyed f g (ws[i := w']) = (keyed f g ws)(k \<mapsto> g w')"
  using assms unfolding keyed_def
  by (induction ws arbitrary: i) (auto split: if_splits)

lemma keyed_append:
  assumes "find_idx (\<lambda>w. f w = k) ws = None" and "f w' = k"
  shows "keyed f g (ws @ [w']) = (keyed f g ws)(k \<mapsto> g w')"
  using assms unfolding keyed_def
  by (induction ws) (auto split: if_splits)

lemma keyed_remove:
  assumes "find_idx (\<lambda>w. f w = k) ws = Some i" and "distinct (map f ws)"
  shows "keyed f g (remove_at i ws) = (keyed f g ws)(k := None)"
  using assms
proof (induction ws arbitrary: i)
  case Nil
  then show ?case by simp
next
  case (Cons w ws)
  show ?case
  proof (cases "f w = k")
    case True
    with Cons.prems have "i = 0" and "k \<notin> f ` set ws" by auto
    moreover from this have "map_of (map (\<lambda>w. (f w, g w)) ws) k = None"
      by (auto simp: map_of_eq_None_iff image_image)
    ultimately show ?thesis using True by (auto simp: keyed_def remove_at_def)
  next
    case False
    with Cons.prems obtain j where "find_idx (\<lambda>w. f w = k) ws = Some j" and "i = Suc j" by auto
    with Cons.IH [of j] Cons.prems(2) False show ?thesis
      by (auto simp: keyed_def remove_at_def)
  qed
qed

lemma distinct_keys_update:
  assumes "find_idx (\<lambda>w. f w = k) ws = Some i" and "f w' = k" and "distinct (map f ws)"
  shows "distinct (map f (ws[i := w']))"
proof -
  from find_idx_Some [OF assms(1)] assms(2) have "map f (ws[i := w']) = map f ws"
    by (metis list_update_id map_update nth_map)
  with assms(3) show ?thesis by simp
qed

end
