(* ===== verification/Greeter.thy ===== *)
theory Greeter
  imports Prelude
begin

text \<open>
  The login client of the greeter, desktop/greeter/src/GreeterIPC.{h,cpp}: the state machine
  that talks to greetd over a local socket in frames of a native-endian 32-bit length and a
  JSON payload.

  A handler takes the state of the object and gives the new state with what it did, in
  order: signals emitted, and calls on the socket. What Qt and the machine supply are
  fields of \<open>greetd_env\<close>: the byte order, the JSON printer and parser, and the test for
  white space. The state of the socket is read at most once by a handler before it acts on
  it, so it is an argument of the handler. QML reacts to the signals of a handler with
  later calls, each an event of its own.
\<close>

subsection \<open>JSON objects and the environment\<close>

datatype jval = JString string | JArray "jval list" | JOther

type_synonym jobj = "(string \<times> jval) list"

text \<open>\<open>message.value(k).toString()\<close>: the empty string when the key is missing or its
  value is no string.\<close>

definition jstr :: "jobj \<Rightarrow> string \<Rightarrow> string" where
  "jstr obj k = (case map_of obj k of Some (JString s) \<Rightarrow> s | _ \<Rightarrow> [])"

record greetd_env =
  bigEndian :: bool
  toJson :: "jobj \<Rightarrow> byte list"
  fromJson :: "byte list \<Rightarrow> jobj option"
  isSpace :: "char \<Rightarrow> bool"

datatype sock_state = UnconnectedState | ConnectingState | ConnectedState | ClosingState


subsection \<open>State and outputs\<close>

datatype phase = Idle | CreatingSession | Authenticating | Authenticated | StartingSession

record greeter =
  socketPath :: string
  currentUser :: string
  pendingPassword :: string
  statusMessage :: string
  authenticated :: bool
  awaitingResponse :: bool
  credentialSubmitted :: bool
  phase :: phase
  readBuffer :: "byte list"

text \<open>\<open>SockSend\<close> stands for the two writes and the flush of \<open>sendJson\<close>; it keeps the object
  beside the header and payload bytes.\<close>

datatype gout =
    StatusChanged
  | AuthSucceeded
  | AuthFailed string
  | SockAbort
  | SockConnect string
  | SockSend jobj "byte list" "byte list"

definition init_greeter :: "string \<Rightarrow> greeter" where
  "init_greeter env_sock =
     \<lparr>socketPath = (if env_sock = [] then ''/run/greetd.sock'' else env_sock),
      currentUser = [], pendingPassword = [], statusMessage = [],
      authenticated = False, awaitingResponse = False, credentialSubmitted = False,
      phase = Idle, readBuffer = []\<rparr>"

definition busy :: "greeter \<Rightarrow> bool" where
  "busy g \<longleftrightarrow> phase g = CreatingSession
     \<or> (phase g = Authenticating \<and> \<not> awaitingResponse g)
     \<or> phase g = StartingSession"


subsection \<open>Framing\<close>

definition digits256 :: "nat \<Rightarrow> byte list" where
  "digits256 n = [word_of_nat n, word_of_nat (n div 256), word_of_nat (n div 65536), word_of_nat (n div 16777216)]"

fun undigits256 :: "byte list \<Rightarrow> nat" where
  "undigits256 [] = 0"
| "undigits256 (b # bs) = unat b + 256 * undigits256 bs"

definition enc32 :: "bool \<Rightarrow> 32 word \<Rightarrow> byte list" where
  "enc32 big w = (let ds = digits256 (unat w) in if big then rev ds else ds)"

definition dec32 :: "bool \<Rightarrow> byte list \<Rightarrow> 32 word" where
  "dec32 big bs = word_of_nat (undigits256 (if big then rev bs else bs))"

definition MaxPayloadLength :: "32 word" where
  "MaxPayloadLength = 1024 * 1024"

datatype frame = NeedMore | BadLength | Frame "byte list" "byte list"

definition next_frame :: "bool \<Rightarrow> byte list \<Rightarrow> frame" where
  "next_frame big buf =
     (if length buf < 4 then NeedMore
      else
        let payloadLength = dec32 big (take 4 buf) in
        if payloadLength = 0 \<or> payloadLength > MaxPayloadLength then BadLength
        else
          let frameLength = 4 + unat payloadLength in
          if length buf < frameLength then NeedMore
          else Frame (take (unat payloadLength) (drop 4 buf)) (drop frameLength buf))"

definition sendJson :: "greetd_env \<Rightarrow> sock_state \<Rightarrow> jobj \<Rightarrow> gout list" where
  "sendJson E st obj =
     (if st \<noteq> ConnectedState then []
      else
        let payload = toJson E obj;
            payloadLength = word_of_nat (length payload) :: 32 word
        in [SockSend obj (enc32 (bigEndian E) payloadLength) payload])"


subsection \<open>Requests\<close>

definition startAuth :: "greetd_env \<Rightarrow> sock_state \<Rightarrow> string \<Rightarrow> string \<Rightarrow> greeter \<Rightarrow> greeter \<times> gout list" where
  "startAuth E st username password g =
     (let requestedUser = trim (isSpace E) username in
      if requestedUser = [] then
        (g\<lparr>statusMessage := ''Username cannot be empty.''\<rparr>,
         [StatusChanged, AuthFailed ''Username cannot be empty.''])
      else
        (g\<lparr>readBuffer := [], currentUser := requestedUser, pendingPassword := password,
           credentialSubmitted := False, awaitingResponse := False, authenticated := False,
           phase := CreatingSession, statusMessage := ''Connecting...''\<rparr>,
         (if st \<noteq> UnconnectedState then [SockAbort] else [])
         @ [StatusChanged, SockConnect (socketPath g)]))"

definition sendCreateSession :: "greetd_env \<Rightarrow> sock_state \<Rightarrow> greeter \<Rightarrow> greeter \<times> gout list" where
  "sendCreateSession E st g =
     (if phase g \<noteq> CreatingSession then (g, [])
      else
        (g\<lparr>statusMessage := ''Authenticating...''\<rparr>,
         sendJson E st [(''type'', JString ''create_session''), (''username'', JString (currentUser g))]
         @ [StatusChanged]))"

definition submitPassword :: "greetd_env \<Rightarrow> sock_state \<Rightarrow> string \<Rightarrow> greeter \<Rightarrow> greeter \<times> gout list" where
  "submitPassword E st password g =
     (if phase g \<noteq> CreatingSession \<and> phase g \<noteq> Authenticating then (g, [])
      else
        (g\<lparr>phase := Authenticating, credentialSubmitted := True, awaitingResponse := False\<rparr>,
         sendJson E st [(''type'', JString ''post_auth_message_response''), (''response'', JString password)]))"

definition startSession :: "greetd_env \<Rightarrow> sock_state \<Rightarrow> greeter \<Rightarrow> greeter \<times> gout list" where
  "startSession E st g =
     (if phase g \<noteq> Authenticated then (g, [])
      else
        (g\<lparr>phase := StartingSession, statusMessage := ''Starting session...''\<rparr>,
         StatusChanged #
         sendJson E st [(''type'', JString ''start_session''),
                        (''cmd'', JArray [JString ''/usr/bin/start-nira-session'']),
                        (''env'', JArray [])]))"


subsection \<open>Responses\<close>

definition handleAuthMessage :: "greetd_env \<Rightarrow> sock_state \<Rightarrow> jobj \<Rightarrow> greeter \<Rightarrow> greeter \<times> gout list" where
  "handleAuthMessage E st message g =
     (let text = jstr message ''auth_message'';
          g1 = g\<lparr>statusMessage := (if text = [] then ''Password:'' else text)\<rparr>;
          messageType = jstr message ''auth_message_type'';
          requestsCredential = (messageType = [] \<or> messageType = ''secret'' \<or> messageType = ''visible'')
      in
        if requestsCredential \<and> \<not> credentialSubmitted g1 then
          (let password = pendingPassword g1;
               (g2, out) = submitPassword E st password (g1\<lparr>pendingPassword := []\<rparr>)
           in (g2, StatusChanged # out))
        else if requestsCredential then
          (g1\<lparr>awaitingResponse := True\<rparr>, [StatusChanged, StatusChanged])
        else if messageType = ''info'' \<or> messageType = ''error'' then
          (g1, StatusChanged # sendJson E st [(''type'', JString ''post_auth_message_response'')])
        else (g1, [StatusChanged]))"

definition handleMessage :: "greetd_env \<Rightarrow> sock_state \<Rightarrow> jobj \<Rightarrow> greeter \<Rightarrow> greeter \<times> gout list" where
  "handleMessage E st message g =
     (let type = jstr message ''type'' in
      if type = ''auth_message'' then handleAuthMessage E st message g
      else if type = ''success'' then
        (if phase g = StartingSession then
           (g\<lparr>statusMessage := ''Session started''\<rparr>, [StatusChanged])
         else
           (g\<lparr>phase := Authenticated, authenticated := True, awaitingResponse := False,
              pendingPassword := [], statusMessage := ''Authentication successful''\<rparr>,
            [StatusChanged, AuthSucceeded]))
      else if type = ''error'' then
        (let d = jstr message ''description'';
             description = (if d = [] then ''Authentication failed.'' else d)
         in (g\<lparr>phase := Idle, authenticated := False, awaitingResponse := False,
               pendingPassword := [], statusMessage := description\<rparr>,
             [StatusChanged, AuthFailed description]))
      else (g, []))"

definition onError :: "string \<Rightarrow> greeter \<Rightarrow> greeter \<times> gout list" where
  "onError errorString g =
     (if phase g = StartingSession then (g, [])
      else
        let m = ''Connection error: '' @ errorString in
        (g\<lparr>statusMessage := m, phase := Idle, authenticated := False,
           awaitingResponse := False, pendingPassword := []\<rparr>,
         [StatusChanged, AuthFailed m]))"


subsection \<open>The read loop\<close>

lemma submitPassword_readBuffer [simp]:
  "readBuffer (fst (submitPassword E st p g)) = readBuffer g"
  by (simp add: submitPassword_def)

lemma handleAuthMessage_readBuffer [simp]:
  "readBuffer (fst (handleAuthMessage E st m g)) = readBuffer g"
  by (simp add: handleAuthMessage_def submitPassword_def Let_def)

lemma handleMessage_readBuffer [simp]:
  "readBuffer (fst (handleMessage E st m g)) = readBuffer g"
  by (simp add: handleMessage_def Let_def)

lemma next_frame_shrinks: "next_frame big buf = Frame p r \<Longrightarrow> length r < length buf"
  by (auto simp: next_frame_def Let_def split: if_splits)

function drain :: "greetd_env \<Rightarrow> sock_state \<Rightarrow> greeter \<Rightarrow> greeter \<times> gout list" where
  "drain E st g =
     (case next_frame (bigEndian E) (readBuffer g) of
        NeedMore \<Rightarrow> (g, [])
      | BadLength \<Rightarrow>
          (g\<lparr>statusMessage := ''Invalid response from the login service.'', phase := Idle,
             authenticated := False, awaitingResponse := False, readBuffer := []\<rparr>,
           [SockAbort, StatusChanged, AuthFailed ''Invalid response from the login service.''])
      | Frame payload rest \<Rightarrow>
          (case fromJson E payload of
             None \<Rightarrow> drain E st (g\<lparr>readBuffer := rest\<rparr>)
           | Some obj \<Rightarrow>
               (let r1 = handleMessage E st obj (g\<lparr>readBuffer := rest\<rparr>);
                    r2 = drain E st (fst r1)
                in (fst r2, snd r1 @ snd r2))))"
  by pat_completeness auto
termination
  by (relation "measure (\<lambda>(E, st, g). length (readBuffer g))")
    (auto dest: next_frame_shrinks)

declare drain.simps [simp del]

definition onReadyRead :: "greetd_env \<Rightarrow> sock_state \<Rightarrow> byte list \<Rightarrow> greeter \<Rightarrow> greeter \<times> gout list" where
  "onReadyRead E st bytes g = drain E st (g\<lparr>readBuffer := readBuffer g @ bytes\<rparr>)"


subsection \<open>Events and runs\<close>

datatype gevent =
    EvStartAuth string string
  | EvConnected
  | EvReadyRead "byte list"
  | EvError string
  | EvSubmitPassword string
  | EvStartSession

fun gstep :: "greetd_env \<Rightarrow> sock_state \<times> gevent \<Rightarrow> greeter \<Rightarrow> greeter \<times> gout list" where
  "gstep E (st, EvStartAuth u p) g = startAuth E st u p g"
| "gstep E (st, EvConnected) g = sendCreateSession E st g"
| "gstep E (st, EvReadyRead bs) g = onReadyRead E st bs g"
| "gstep E (st, EvError e) g = onError e g"
| "gstep E (st, EvSubmitPassword p) g = submitPassword E st p g"
| "gstep E (st, EvStartSession) g = startSession E st g"

fun grun :: "greetd_env \<Rightarrow> (sock_state \<times> gevent) list \<Rightarrow> greeter \<Rightarrow> greeter \<times> gout list" where
  "grun E [] g = (g, [])"
| "grun E (e # es) g =
     (let r1 = gstep E e g; r2 = grun E es (fst r1) in (fst r2, snd r1 @ snd r2))"


subsection \<open>Framing: encode and decode\<close>

lemma undigits256_digits256: "n < 4294967296 \<Longrightarrow> undigits256 (digits256 n) = n"
proof -
  assume n: "n < 4294967296"
  let ?a = "n div 256" and ?b = "n div 256 div 256" and ?c = "n div 256 div 256 div 256"
  have u: "unat (word_of_nat k :: 8 word) = k mod 256" for k
    by (simp add: unat_of_nat take_bit_eq_mod)
  have "?c < 256" using n by simp
  then have "?b = ?b mod 256 + 256 * (?c mod 256)" by simp
  then have "?a = ?a mod 256 + 256 * (?b mod 256 + 256 * (?c mod 256))" by simp
  then have "n = n mod 256 + 256 * (?a mod 256 + 256 * (?b mod 256 + 256 * (?c mod 256)))" by simp
  moreover have "n div 65536 = ?b" and "n div 16777216 = ?c" by (simp_all add: div_mult2_eq [symmetric])
  ultimately show ?thesis by (simp add: digits256_def u)
qed

lemma length_enc32 [simp]: "length (enc32 big w) = 4"
  by (simp add: enc32_def digits256_def Let_def)

lemma dec32_enc32 [simp]: "dec32 big (enc32 big w) = w"
proof -
  have "unat w < 4294967296" using unsigned_less [of w] by simp
  then show ?thesis by (simp add: dec32_def enc32_def Let_def undigits256_digits256)
qed

lemma next_frame_wire:
  assumes "length p = n" and "0 < n" and "n \<le> 1048576"
  shows "next_frame big (enc32 big (word_of_nat n) @ p @ rest) = Frame p rest"
proof -
  have u: "unat (word_of_nat n :: 32 word) = n"
    using assms(3) by (simp add: unat_of_nat take_bit_eq_mod)
  then have "(word_of_nat n :: 32 word) \<noteq> 0" using assms(2) by (metis unat_0 less_irrefl)
  moreover have "\<not> (word_of_nat n :: 32 word) > MaxPayloadLength"
    using assms(3) u by (simp add: MaxPayloadLength_def word_less_nat_alt)
  ultimately show ?thesis
    using assms(1) u by (simp add: next_frame_def Let_def)
qed

lemma next_frame_append:
  "next_frame big buf = Frame p r \<Longrightarrow> next_frame big (buf @ b) = Frame p (r @ b)"
  "next_frame big buf = BadLength \<Longrightarrow> next_frame big (buf @ b) = BadLength"
  by (auto simp: next_frame_def Let_def split: if_splits)

lemma next_frame_NeedMore_short:
  assumes "next_frame big buf = NeedMore"
  shows "length buf < 1048580"
proof (cases "length buf < 4")
  case False
  with assms have "\<not> dec32 big (take 4 buf) > MaxPayloadLength"
    and "length buf < 4 + unat (dec32 big (take 4 buf))"
    by (auto simp: next_frame_def Let_def split: if_splits)
  then show ?thesis by (simp add: MaxPayloadLength_def word_less_nat_alt)
qed simp

lemma handleMessage_buffer:
  "handleMessage E st m (g\<lparr>readBuffer := b\<rparr>) =
     (fst (handleMessage E st m g)\<lparr>readBuffer := b\<rparr>, snd (handleMessage E st m g))"
  by (simp add: handleMessage_def handleAuthMessage_def submitPassword_def Let_def)

lemma drain_NeedMore [simp]:
  "next_frame (bigEndian E) (readBuffer g) = NeedMore \<Longrightarrow> drain E st g = (g, [])"
  by (subst drain.simps) simp

lemma drain_Frame:
  assumes "next_frame (bigEndian E) (readBuffer g) = Frame p r" and "fromJson E p = Some m"
  shows "drain E st g =
     (let r1 = handleMessage E st m (g\<lparr>readBuffer := r\<rparr>); r2 = drain E st (fst r1)
      in (fst r2, snd r1 @ snd r2))"
  by (subst drain.simps) (simp add: assms)

lemma drain_Skip:
  assumes "next_frame (bigEndian E) (readBuffer g) = Frame p r" and "fromJson E p = None"
  shows "drain E st g = drain E st (g\<lparr>readBuffer := r\<rparr>)"
  by (subst drain.simps) (simp add: assms)

lemma drain_Bad:
  assumes "next_frame (bigEndian E) (readBuffer g) = BadLength"
  shows "SockAbort \<in> set (snd (drain E st g))"
  by (subst drain.simps) (simp add: assms)

text \<open>The loop over a buffer with more bytes behind it is the loop, then the loop over what
  it left with the new bytes: nothing depends on where a read ended.\<close>

lemma drain_append:
  "SockAbort \<notin> set (snd (drain E st g)) \<Longrightarrow>
   drain E st (g\<lparr>readBuffer := readBuffer g @ b\<rparr>) =
     (let r1 = drain E st g;
          r2 = drain E st ((fst r1)\<lparr>readBuffer := readBuffer (fst r1) @ b\<rparr>)
      in (fst r2, snd r1 @ snd r2))"
proof (induction E st g rule: drain.induct)
  case (1 E st g)
  show ?case
  proof (cases "next_frame (bigEndian E) (readBuffer g)")
    case NeedMore
    then show ?thesis by simp
  next
    case BadLength
    with "1.prems" drain_Bad show ?thesis by blast
  next
    case (Frame p r)
    let ?g1 = "g\<lparr>readBuffer := r\<rparr>"
    have app: "next_frame (bigEndian E) (readBuffer (g\<lparr>readBuffer := readBuffer g @ b\<rparr>)) = Frame p (r @ b)"
      using next_frame_append(1) [OF Frame] by simp
    show ?thesis
    proof (cases "fromJson E p")
      case None
      have "SockAbort \<notin> set (snd (drain E st ?g1))"
        using "1.prems" drain_Skip [OF Frame None] by simp
      from "1.IH"(1) [OF Frame None this] show ?thesis
        using drain_Skip [OF Frame None] drain_Skip [OF app None] by simp
    next
      case (Some m)
      let ?h = "handleMessage E st m ?g1"
      have "SockAbort \<notin> set (snd (drain E st (fst ?h)))"
        using "1.prems" drain_Frame [OF Frame Some] by (simp add: Let_def)
      from "1.IH"(2) [OF Frame Some refl this]
      show ?thesis
        using drain_Frame [OF Frame Some] drain_Frame [OF app Some]
          handleMessage_buffer [of E st m "r @ b" g] handleMessage_buffer [of E st m r g]
        by (simp add: Let_def)
    qed
  qed
qed

text \<open>
  C1. Chunking is irrelevant. However the bytes that greetd sends are split over reads, the
  greeter ends in the same state and does the same things in the same order as if they had
  arrived in one read, up to the first frame with a refused length (which aborts the
  connection).
\<close>

theorem onReadyRead_chunks:
  assumes "SockAbort \<notin> set (snd (onReadyRead E st a g))"
  shows "onReadyRead E st (a @ b) g =
     (let r1 = onReadyRead E st a g; r2 = onReadyRead E st b (fst r1)
      in (fst r2, snd r1 @ snd r2))"
  using drain_append [where E = E and st = st and g = "g\<lparr>readBuffer := readBuffer g @ a\<rparr>" and b = b] assms
  by (simp add: onReadyRead_def)

definition demo_env :: greetd_env where
  "demo_env = \<lparr>bigEndian = False,
     toJson = (\<lambda>obj. if obj = [(''type'', JString ''success'')] then [1] else [2]),
     fromJson = (\<lambda>bs. if bs = [1] then Some [(''type'', JString ''success'')]
                     else if bs = [2] then Some [(''type'', JString ''auth_message'')] else None),
     isSpace = (\<lambda>c. c = CHR '' '')\<rparr>"

theorem onReadyRead_chunks_witness:
  "onReadyRead demo_env ConnectedState ([1, 0] @ [0, 0, 1]) (init_greeter []) =
     (let r1 = onReadyRead demo_env ConnectedState [1, 0] (init_greeter []);
          r2 = onReadyRead demo_env ConnectedState [0, 0, 1] (fst r1)
      in (fst r2, snd r1 @ snd r2))"
proof (rule onReadyRead_chunks)
  show "SockAbort \<notin> set (snd (onReadyRead demo_env ConnectedState [1, 0] (init_greeter [])))"
    by (simp add: onReadyRead_def init_greeter_def next_frame_def)
qed


fun handle_all :: "greetd_env \<Rightarrow> sock_state \<Rightarrow> jobj list \<Rightarrow> greeter \<Rightarrow> greeter \<times> gout list" where
  "handle_all E st [] g = (g, [])"
| "handle_all E st (m # ms) g =
     (let r1 = handleMessage E st m g; r2 = handle_all E st ms (fst r1) in (fst r2, snd r1 @ snd r2))"

text \<open>The bytes \<open>sendJson\<close> writes for an object.\<close>

definition wire :: "greetd_env \<Rightarrow> jobj \<Rightarrow> byte list" where
  "wire E obj = enc32 (bigEndian E) (word_of_nat (length (toJson E obj))) @ toJson E obj"

definition frameable :: "greetd_env \<Rightarrow> jobj \<Rightarrow> bool" where
  "frameable E m \<longleftrightarrow> fromJson E (toJson E m) = Some m
     \<and> 0 < length (toJson E m) \<and> length (toJson E m) \<le> 1048576"

lemma drain_wire:
  assumes "\<forall>m \<in> set ms. frameable E m"
  shows "drain E st (g\<lparr>readBuffer := concat (map (wire E) ms)\<rparr>) =
     (let r = handle_all E st ms (g\<lparr>readBuffer := []\<rparr>) in r)"
  using assms
proof (induction ms arbitrary: g)
  case Nil
  then show ?case by (simp add: next_frame_def)
next
  case (Cons m ms)
  let ?rest = "concat (map (wire E) ms)"
  let ?g = "g\<lparr>readBuffer := concat (map (wire E) (m # ms))\<rparr>"
  from Cons.prems have m: "frameable E m" by simp
  then have "next_frame (bigEndian E) (readBuffer ?g) = Frame (toJson E m) ?rest"
    by (simp add: wire_def frameable_def next_frame_wire)
  from drain_Frame [OF this] m
  have "drain E st ?g =
     (let r1 = handleMessage E st m (g\<lparr>readBuffer := ?rest\<rparr>); r2 = drain E st (fst r1)
      in (fst r2, snd r1 @ snd r2))"
    by (simp add: frameable_def)
  moreover have "handleMessage E st m (g\<lparr>readBuffer := ?rest\<rparr>) =
     ((fst (handleMessage E st m (g\<lparr>readBuffer := []\<rparr>)))\<lparr>readBuffer := ?rest\<rparr>,
      snd (handleMessage E st m (g\<lparr>readBuffer := []\<rparr>)))"
    by (simp add: handleMessage_buffer)
  moreover have "(fst (handleMessage E st m (g\<lparr>readBuffer := []\<rparr>)))\<lparr>readBuffer := []\<rparr> =
      fst (handleMessage E st m (g\<lparr>readBuffer := []\<rparr>))"
    by (simp add: handleMessage_buffer)
  ultimately show ?case
    using Cons.IH [of "fst (handleMessage E st m (g\<lparr>readBuffer := []\<rparr>))"] Cons.prems
    by (simp add: Let_def)
qed

text \<open>
  C2. What the framing of \<open>sendJson\<close> writes, \<open>onReadyRead\<close> reads: any sequence of messages
  of at most 1 MiB each, framed one after the other, is delivered to \<open>handleMessage\<close>
  completely, in order and once each, and leaves the buffer empty, on machines of either
  byte order.
\<close>

theorem framing_roundtrip:
  assumes "\<forall>m \<in> set ms. frameable E m" and "readBuffer g = []"
  shows "onReadyRead E st (concat (map (wire E) ms)) g = handle_all E st ms g
     \<and> readBuffer (fst (handle_all E st ms g)) = []"
proof -
  have "readBuffer (fst (handle_all E st ms h)) = readBuffer h" for h
    by (induction ms arbitrary: h) (simp_all add: Let_def)
  moreover from assms(2) have g: "g\<lparr>readBuffer := []\<rparr> = g" by (cases g) simp
  ultimately show ?thesis
    using drain_wire [OF assms(1), of st g] assms(2) by (simp add: onReadyRead_def g)
qed

theorem framing_roundtrip_witness:
  "onReadyRead demo_env ConnectedState
     (concat (map (wire demo_env) [ [(''type'', JString ''auth_message'')], [(''type'', JString ''success'')] ]))
     (init_greeter [])
   = handle_all demo_env ConnectedState
       [ [(''type'', JString ''auth_message'')], [(''type'', JString ''success'')] ] (init_greeter [])"
proof -
  let ?ms = "[ [(''type'', JString ''auth_message'')], [(''type'', JString ''success'')] ]"
  have "\<forall>m \<in> set ?ms. frameable demo_env m"
    by (simp add: frameable_def demo_env_def)
  moreover have "readBuffer (init_greeter []) = []" by (simp add: init_greeter_def)
  ultimately show ?thesis using framing_roundtrip by blast
qed


subsection \<open>Invariant of the login state\<close>

definition greeter_inv :: "greeter \<Rightarrow> bool" where
  "greeter_inv g \<longleftrightarrow>
     (authenticated g \<longleftrightarrow> phase g \<in> {Authenticated, StartingSession}) \<and>
     (phase g = Authenticating \<longrightarrow> credentialSubmitted g) \<and>
     (phase g = CreatingSession \<longrightarrow> \<not> credentialSubmitted g \<and> \<not> awaitingResponse g) \<and>
     (phase g \<in> {Authenticated, StartingSession} \<longrightarrow> pendingPassword g = [])"

lemma greeter_inv_init [simp]: "greeter_inv (init_greeter s)"
  by (simp add: greeter_inv_def init_greeter_def)

lemma greeter_inv_buffer [simp]: "greeter_inv (g\<lparr>readBuffer := b\<rparr>) = greeter_inv g"
  by (simp add: greeter_inv_def)

lemma handleMessage_inv: "greeter_inv g \<Longrightarrow> greeter_inv (fst (handleMessage E st m g))"
  by (simp add: handleMessage_def handleAuthMessage_def submitPassword_def greeter_inv_def Let_def)

lemma drain_inv: "greeter_inv g \<Longrightarrow> greeter_inv (fst (drain E st g))"
proof (induction E st g rule: drain.induct)
  case (1 E st g)
  show ?case
  proof (cases "next_frame (bigEndian E) (readBuffer g)")
    case NeedMore
    with "1.prems" show ?thesis by simp
  next
    case BadLength
    then show ?thesis by (subst drain.simps) (simp add: greeter_inv_def)
  next
    case (Frame p r)
    show ?thesis
    proof (cases "fromJson E p")
      case None
      from "1.IH"(1) [OF Frame None] "1.prems" drain_Skip [OF Frame None] show ?thesis by simp
    next
      case (Some m)
      from "1.IH"(2) [OF Frame Some refl] "1.prems" drain_Frame [OF Frame Some]
      show ?thesis by (simp add: Let_def handleMessage_inv)
    qed
  qed
qed

lemma drain_buffer_bound: "length (readBuffer (fst (drain E st g))) < 1048580"
proof (induction E st g rule: drain.induct)
  case (1 E st g)
  show ?case
  proof (cases "next_frame (bigEndian E) (readBuffer g)")
    case NeedMore
    then show ?thesis by (simp add: next_frame_NeedMore_short)
  next
    case BadLength
    then show ?thesis by (subst drain.simps) simp
  next
    case (Frame p r)
    show ?thesis
    proof (cases "fromJson E p")
      case None
      from "1.IH"(1) [OF Frame None] drain_Skip [OF Frame None] show ?thesis by simp
    next
      case (Some m)
      from "1.IH"(2) [OF Frame Some refl] drain_Frame [OF Frame Some]
      show ?thesis by (simp add: Let_def)
    qed
  qed
qed

lemma onReadyRead_inv: "greeter_inv g \<Longrightarrow> greeter_inv (fst (onReadyRead E st bs g))"
  by (simp add: onReadyRead_def drain_inv)

lemma request_inv:
  "greeter_inv g \<Longrightarrow> greeter_inv (fst (startAuth E st u p g))"
  "greeter_inv g \<Longrightarrow> greeter_inv (fst (sendCreateSession E st g))"
  "greeter_inv g \<Longrightarrow> greeter_inv (fst (submitPassword E st p g))"
  "greeter_inv g \<Longrightarrow> greeter_inv (fst (startSession E st g))"
  "greeter_inv g \<Longrightarrow> greeter_inv (fst (onError er g))"
  by (auto simp: startAuth_def sendCreateSession_def submitPassword_def startSession_def
      onError_def greeter_inv_def Let_def)

lemma request_buffer:
  "readBuffer (fst (startAuth E st u p g)) \<in> {[], readBuffer g}"
  "readBuffer (fst (sendCreateSession E st g)) = readBuffer g"
  "readBuffer (fst (startSession E st g)) = readBuffer g"
  "readBuffer (fst (onError er g)) = readBuffer g"
  by (simp_all add: startAuth_def sendCreateSession_def startSession_def onError_def Let_def)

lemma gstep_inv: "greeter_inv g \<Longrightarrow> greeter_inv (fst (gstep E e g))"
  by (cases "(E, e, g)" rule: gstep.cases) (auto simp: onReadyRead_inv request_inv)

lemma gstep_buffer:
  "length (readBuffer g) < 1048580 \<Longrightarrow> length (readBuffer (fst (gstep E e g))) < 1048580"
proof (cases "(E, e, g)" rule: gstep.cases)
  case (1 E' st u p g')
  moreover assume "length (readBuffer g) < 1048580"
  ultimately show ?thesis using request_buffer(1) [of E' st u p g'] by auto
qed (auto simp: request_buffer onReadyRead_def drain_buffer_bound)

text \<open>
  C3. In every state the greeter reaches, whatever greetd, the user and the socket do and in
  whatever order: it counts as authenticated exactly in the phases after a success, a
  password answer is on its way in the authenticating phase, a fresh attempt has sent and
  awaits none, no password is kept once authenticated, and the receive buffer never grows to
  4 bytes plus 1 MiB.
\<close>

theorem greeter_reachable_inv:
  "greeter_inv (fst (grun E es (init_greeter s)))
   \<and> length (readBuffer (fst (grun E es (init_greeter s)))) < 4 + 1024 * 1024"
proof -
  have "greeter_inv (fst (grun E es g))" if "greeter_inv g" for g
    using that by (induction es arbitrary: g) (simp_all add: Let_def gstep_inv)
  moreover have "length (readBuffer (fst (grun E es g))) < 1048580"
    if "length (readBuffer g) < 1048580" for g
    using that by (induction es arbitrary: g) (simp_all add: Let_def gstep_buffer)
  moreover have "length (readBuffer (init_greeter s)) < 1048580" by (simp add: init_greeter_def)
  ultimately show ?thesis by simp
qed


subsection \<open>No session without a success\<close>

text \<open>The licence to start a session: given by \<open>authSucceeded\<close>, used up by a
  \<open>start_session\<close> request, withdrawn by a new attempt or a failure (the complaint about an
  empty user name is no failure of the attempt in progress).\<close>

definition is_request :: "string \<Rightarrow> gout \<Rightarrow> bool" where
  "is_request t x \<longleftrightarrow> (case x of SockSend obj _ _ \<Rightarrow> jstr obj ''type'' = t | _ \<Rightarrow> False)"

fun licence :: "bool \<Rightarrow> gout \<Rightarrow> bool" where
  "licence b AuthSucceeded = True"
| "licence b (AuthFailed r) = (b \<and> r = ''Username cannot be empty.'')"
| "licence b (SockConnect s) = False"
| "licence b (SockSend obj h p) = (b \<and> jstr obj ''type'' \<noteq> ''start_session'')"
| "licence b _ = b"

fun all_licensed :: "bool \<Rightarrow> gout list \<Rightarrow> bool" where
  "all_licensed b [] = True"
| "all_licensed b (x # xs) = ((is_request ''start_session'' x \<longrightarrow> b) \<and> all_licensed (licence b x) xs)"

definition licence_of :: "bool \<Rightarrow> gout list \<Rightarrow> bool" where
  "licence_of b xs = foldl licence b xs"

lemma licence_of_simps [simp]:
  "licence_of b [] = b"
  "licence_of b (x # xs) = licence_of (licence b x) xs"
  "licence_of b (xs @ ys) = licence_of (licence_of b xs) ys"
  by (simp_all add: licence_of_def)

lemma all_licensed_append [simp]:
  "all_licensed b (xs @ ys) \<longleftrightarrow> all_licensed b xs \<and> all_licensed (licence_of b xs) ys"
  by (induction xs arbitrary: b) auto

text \<open>One handler: its requests are licensed, and only a licensed greeter is left in phase
  \<open>Authenticated\<close>.\<close>

definition obeys :: "bool \<Rightarrow> greeter \<times> gout list \<Rightarrow> bool" where
  "obeys b r \<longleftrightarrow> all_licensed b (snd r) \<and> (phase (fst r) = Authenticated \<longrightarrow> licence_of b (snd r))"

lemmas obeys_simps = obeys_def sendJson_def is_request_def jstr_def Let_def

lemma request_obeys:
  "(phase g = Authenticated \<longrightarrow> b) \<Longrightarrow> obeys b (startAuth E st u p g)"
  "(phase g = Authenticated \<longrightarrow> b) \<Longrightarrow> obeys b (sendCreateSession E st g)"
  "(phase g = Authenticated \<longrightarrow> b) \<Longrightarrow> obeys b (submitPassword E st p g)"
  "(phase g = Authenticated \<longrightarrow> b) \<Longrightarrow> obeys b (startSession E st g)"
  "(phase g = Authenticated \<longrightarrow> b) \<Longrightarrow> obeys b (onError er g)"
  by (auto simp: obeys_simps startAuth_def sendCreateSession_def submitPassword_def
      startSession_def onError_def)

lemma handleMessage_obeys:
  "(phase g = Authenticated \<longrightarrow> b) \<Longrightarrow> obeys b (handleMessage E st m g)"
  by (auto simp: handleMessage_def handleAuthMessage_def submitPassword_def obeys_def
      sendJson_def is_request_def jstr_def [of "[_]"] jstr_def [of "[_, _]"] Let_def)

lemma obeys_seq:
  assumes "obeys b r1" and "obeys (licence_of b (snd r1)) r2"
  shows "obeys b (fst r2, snd r1 @ snd r2)"
  using assms by (simp add: obeys_def)

lemma drain_obeys: "(phase g = Authenticated \<longrightarrow> b) \<Longrightarrow> obeys b (drain E st g)"
proof (induction E st g arbitrary: b rule: drain.induct)
  case (1 E st g)
  show ?case
  proof (cases "next_frame (bigEndian E) (readBuffer g)")
    case NeedMore
    with "1.prems" show ?thesis by (simp add: obeys_def)
  next
    case BadLength
    then show ?thesis by (subst drain.simps) (simp add: obeys_def is_request_def)
  next
    case (Frame p r)
    show ?thesis
    proof (cases "fromJson E p")
      case None
      from "1.IH"(1) [OF Frame None] "1.prems" drain_Skip [OF Frame None] show ?thesis by simp
    next
      case (Some m)
      let ?h = "handleMessage E st m (g\<lparr>readBuffer := r\<rparr>)"
      have h: "obeys b ?h" by (rule handleMessage_obeys) (use "1.prems" in simp)
      then have "phase (fst ?h) = Authenticated \<longrightarrow> licence_of b (snd ?h)" by (simp add: obeys_def)
      from "1.IH"(2) [OF Frame Some refl this] h drain_Frame [OF Frame Some]
      show ?thesis by (simp add: Let_def obeys_seq)
    qed
  qed
qed

lemma gstep_obeys: "(phase g = Authenticated \<longrightarrow> b) \<Longrightarrow> obeys b (gstep E e g)"
  by (cases "(E, e, g)" rule: gstep.cases)
    (auto simp: request_obeys onReadyRead_def intro!: drain_obeys request_obeys)

lemma grun_obeys: "(phase g = Authenticated \<longrightarrow> b) \<Longrightarrow> obeys b (grun E es g)"
proof (induction es arbitrary: g b)
  case Nil
  then show ?case by (simp add: obeys_def)
next
  case (Cons e es)
  have h: "obeys b (gstep E e g)" using Cons.prems by (rule gstep_obeys)
  then have "phase (fst (gstep E e g)) = Authenticated \<longrightarrow> licence_of b (snd (gstep E e g))"
    by (simp add: obeys_def)
  from obeys_seq [OF h Cons.IH [OF this]] show ?case by (simp add: Let_def)
qed

text \<open>
  C4. No session without authentication. In every run, whatever the events, each
  \<open>start_session\<close> request goes out only after an \<open>authSucceeded\<close>, with no new attempt and no
  failure since, and each success is good for one such request.
\<close>

theorem start_session_licensed:
  "all_licensed False (snd (grun E es (init_greeter s)))"
  using grun_obeys [of "init_greeter s" False E es] by (simp add: obeys_def init_greeter_def)


subsection \<open>The typed password is answered once\<close>

definition is_credential :: "gout \<Rightarrow> bool" where
  "is_credential x \<longleftrightarrow> (case x of SockSend obj _ _ \<Rightarrow> map_of obj ''response'' \<noteq> None | _ \<Rightarrow> False)"

definition credential_text :: "gout \<Rightarrow> string" where
  "credential_text x = (case x of SockSend obj _ _ \<Rightarrow> jstr obj ''response'' | _ \<Rightarrow> [])"

definition credentials :: "gout list \<Rightarrow> string list" where
  "credentials out = map credential_text (filter is_credential out)"

lemma credentials_append [simp]: "credentials (xs @ ys) = credentials xs @ credentials ys"
  by (simp add: credentials_def)

text \<open>What is left to answer automatically in a state.\<close>

definition unanswered :: "greeter \<Rightarrow> string list" where
  "unanswered g = (if credentialSubmitted g \<or> phase g \<notin> {CreatingSession, Authenticating} then []
                   else [pendingPassword g])"

lemma unanswered_buffer [simp]: "unanswered (g\<lparr>readBuffer := b\<rparr>) = unanswered g"
  by (simp add: unanswered_def)

definition answers :: "greeter \<Rightarrow> greeter \<times> gout list \<Rightarrow> bool" where
  "answers g r \<longleftrightarrow> credentials (snd r) @ unanswered (fst r) \<in> {[], unanswered g}"

lemma credentials_simps [simp]:
  "credentials [] = []"
  "credentials (StatusChanged # xs) = credentials xs"
  "credentials (AuthSucceeded # xs) = credentials xs"
  "credentials (AuthFailed r # xs) = credentials xs"
  "credentials (SockAbort # xs) = credentials xs"
  "credentials (sendJson E st obj) =
     (if st \<noteq> ConnectedState \<or> map_of obj ''response'' = None then [] else [jstr obj ''response''])"
  by (simp_all add: credentials_def is_credential_def credential_text_def sendJson_def Let_def)

lemma request_answers:
  "answers g (sendCreateSession E st g)"
  "answers g (startSession E st g)"
  "answers g (onError er g)"
  by (auto simp: answers_def unanswered_def sendCreateSession_def startSession_def onError_def Let_def)

lemma submitPassword_answers:
  assumes "\<not> credentialSubmitted g"
  shows "answers g (case submitPassword E st (pendingPassword g) (g\<lparr>statusMessage := t, pendingPassword := []\<rparr>) of
    (g2, out) \<Rightarrow> (g2, StatusChanged # out))"
  using assms by (simp add: answers_def unanswered_def submitPassword_def jstr_def)

lemma handleAuthMessage_answers: "answers g (handleAuthMessage E st m g)"
proof -
  have "answers g
      (if a \<and> \<not> credentialSubmitted (g\<lparr>statusMessage := t\<rparr>)
       then (case submitPassword E st (pendingPassword (g\<lparr>statusMessage := t\<rparr>)) (g\<lparr>statusMessage := t, pendingPassword := []\<rparr>) of
          (g2, out) \<Rightarrow> (g2, StatusChanged # out))
       else if a then (g\<lparr>statusMessage := t, awaitingResponse := True\<rparr>, [StatusChanged, StatusChanged])
       else if b then (g\<lparr>statusMessage := t\<rparr>, StatusChanged # sendJson E st [(''type'', JString ''post_auth_message_response'')])
       else (g\<lparr>statusMessage := t\<rparr>, [StatusChanged]))" for a b t
    by (cases a; cases b) (simp_all add: submitPassword_answers, simp_all add: answers_def unanswered_def)
  then show ?thesis
    unfolding handleAuthMessage_def Let_def by blast
qed

lemma handleMessage_answers: "answers g (handleMessage E st m g)"
  unfolding handleMessage_def Let_def
  by (simp add: handleAuthMessage_answers) (simp add: answers_def unanswered_def)

lemma answers_seq:
  assumes "answers g r1" and "answers (fst r1) r2"
  shows "answers g (fst r2, snd r1 @ snd r2)"
  using assms by (auto simp: answers_def unanswered_def split: if_splits)

lemma drain_answers: "answers g (drain E st g)"
proof (induction E st g rule: drain.induct)
  case (1 E st g)
  show ?case
  proof (cases "next_frame (bigEndian E) (readBuffer g)")
    case NeedMore
    then show ?thesis by (simp add: answers_def)
  next
    case BadLength
    then show ?thesis by (subst drain.simps) (simp add: answers_def unanswered_def)
  next
    case (Frame p r)
    show ?thesis
    proof (cases "fromJson E p")
      case None
      from "1.IH"(1) [OF Frame None] drain_Skip [OF Frame None] show ?thesis
        by (simp add: answers_def)
    next
      case (Some m)
      let ?g = "g\<lparr>readBuffer := r\<rparr>"
      from answers_seq [OF handleMessage_answers [of ?g E st m] "1.IH"(2) [OF Frame Some refl]]
      show ?thesis using drain_Frame [OF Frame Some] by (simp add: Let_def answers_def)
    qed
  qed
qed

fun unattended :: "sock_state \<times> gevent \<Rightarrow> bool" where
  "unattended (st, EvStartAuth u p) = False"
| "unattended (st, EvSubmitPassword p) = False"
| "unattended (st, ev) = True"

lemma gstep_answers: "unattended e \<Longrightarrow> answers g (gstep E e g)"
proof (cases "(E, e, g)" rule: gstep.cases)
  case (3 E' st bs g')
  then show ?thesis
    using drain_answers [of "g\<lparr>readBuffer := readBuffer g @ bs\<rparr>" E st]
    by (simp add: onReadyRead_def answers_def)
qed (auto simp: request_answers)

text \<open>
  C5. The password typed at the start of an attempt leaves the greeter at most once. Until
  the user acts again, over any sequence of messages, errors and connection events, the
  answers to credential requests are none or exactly one, and that one is the password of
  this attempt; a second request waits for the user.
\<close>

theorem password_answered_once:
  assumes "\<forall>e \<in> set es. unattended e"
  shows "credentials (snd (grun E es g)) \<in> {[], [pendingPassword g]}"
proof -
  have "answers g (grun E es g)"
    using assms
  proof (induction es arbitrary: g)
    case Nil
    then show ?case by (simp add: answers_def)
  next
    case (Cons e es)
    from answers_seq [OF gstep_answers [of e g E] Cons.IH [of "fst (gstep E e g)"]] Cons.prems
    show ?case by (simp add: Let_def)
  qed
  then show ?thesis by (auto simp: answers_def unanswered_def split: if_splits)
qed


theorem password_answered_once_witness:
  "credentials (snd (grun demo_env
      [(ConnectedState, EvConnected), (ConnectedState, EvReadyRead [1, 0, 0, 0, 2]),
       (ConnectedState, EvReadyRead [1, 0, 0, 0, 2])]
      (fst (startAuth demo_env UnconnectedState ''nira'' ''pw'' (init_greeter [])))))
   \<in> {[], [pendingPassword (fst (startAuth demo_env UnconnectedState ''nira'' ''pw'' (init_greeter [])))]}"
  by (rule password_answered_once) simp


subsection \<open>The whole dialogue\<close>

definition sent_objects :: "gout list \<Rightarrow> jobj list" where
  "sent_objects out = concat (map (\<lambda>x. case x of SockSend obj _ _ \<Rightarrow> [obj] | _ \<Rightarrow> []) out)"

lemma sent_objects_simps [simp]:
  "sent_objects [] = []"
  "sent_objects (xs @ ys) = sent_objects xs @ sent_objects ys"
  "sent_objects (StatusChanged # xs) = sent_objects xs"
  "sent_objects (AuthSucceeded # xs) = sent_objects xs"
  "sent_objects (SockAbort # xs) = sent_objects xs"
  "sent_objects (SockConnect s # xs) = sent_objects xs"
  "sent_objects (sendJson E ConnectedState obj) = [obj]"
  by (simp_all add: sent_objects_def sendJson_def Let_def)

lemma onReadyRead_one:
  assumes "frameable E m" and "readBuffer g = []"
  shows "onReadyRead E st (wire E m) g = handleMessage E st m g"
proof -
  from assms(2) have g: "g\<lparr>readBuffer := []\<rparr> = g" by (cases g) simp
  show ?thesis
    using drain_wire [of "[m]" E st g] assms g by (simp add: onReadyRead_def Let_def)
qed

text \<open>
  C6. The login works. If greetd asks for one secret and then reports success, the greeter
  asks for a session of the trimmed user name, answers with the password typed, and starts
  exactly the desktop session: three requests, in this order, and it ends waiting for the
  session, authenticated and with no password left in memory.
\<close>

theorem login_dialogue:
  assumes "trim (isSpace E) user \<noteq> []"
    and "frameable E q" and "jstr q ''type'' = ''auth_message''" and "jstr q ''auth_message_type'' = ''secret''"
    and "frameable E a" and "jstr a ''type'' = ''success''"
  shows "(let r = grun E [(UnconnectedState, EvStartAuth user pw), (ConnectedState, EvConnected),
             (ConnectedState, EvReadyRead (wire E q)), (ConnectedState, EvReadyRead (wire E a)),
             (ConnectedState, EvStartSession)] g
     in sent_objects (snd r) =
          [ [(''type'', JString ''create_session''), (''username'', JString (trim (isSpace E) user))],
            [(''type'', JString ''post_auth_message_response''), (''response'', JString pw)],
            [(''type'', JString ''start_session''),
             (''cmd'', JArray [JString ''/usr/bin/start-nira-session'']), (''env'', JArray [])] ]
        \<and> phase (fst r) = StartingSession \<and> authenticated (fst r) \<and> pendingPassword (fst r) = [])"
proof -
  have q: "handleMessage E ConnectedState q h = handleAuthMessage E ConnectedState q h" for h
    using assms(3) by (simp add: handleMessage_def)
  show ?thesis
    using assms q
    by (simp add: startAuth_def sendCreateSession_def onReadyRead_one handleAuthMessage_def
        submitPassword_def startSession_def Let_def handleMessage_def [of _ _ a])
qed

definition demo_question :: jobj where
  "demo_question = [(''type'', JString ''auth_message''), (''auth_message_type'', JString ''secret'')]"

definition demo_accept :: jobj where
  "demo_accept = [(''type'', JString ''success'')]"

definition demo_dialogue_env :: greetd_env where
  "demo_dialogue_env = demo_env\<lparr>fromJson := (\<lambda>bs. if bs = [1] then Some demo_accept else Some demo_question)\<rparr>"

theorem login_dialogue_witness:
  "let r = grun demo_dialogue_env [(UnconnectedState, EvStartAuth '' nira '' ''secret''), (ConnectedState, EvConnected),
             (ConnectedState, EvReadyRead (wire demo_dialogue_env demo_question)),
             (ConnectedState, EvReadyRead (wire demo_dialogue_env demo_accept)),
             (ConnectedState, EvStartSession)] (init_greeter [])
     in sent_objects (snd r) =
          [ [(''type'', JString ''create_session''),
             (''username'', JString (trim (isSpace demo_dialogue_env) '' nira ''))],
            [(''type'', JString ''post_auth_message_response''), (''response'', JString ''secret'')],
            [(''type'', JString ''start_session''),
             (''cmd'', JArray [JString ''/usr/bin/start-nira-session'']), (''env'', JArray [])] ]
        \<and> phase (fst r) = StartingSession \<and> authenticated (fst r) \<and> pendingPassword (fst r) = []"
  by (rule login_dialogue)
    (simp_all add: demo_dialogue_env_def demo_env_def demo_question_def demo_accept_def frameable_def
      jstr_def trim_def)

text \<open>A refused frame length ends the attempt but, unlike every other failure, leaves the
  typed password in memory.\<close>

lemma bad_length_keeps_password:
  assumes "next_frame (bigEndian E) (readBuffer g @ bs) = BadLength"
  shows "phase (fst (onReadyRead E st bs g)) = Idle
    \<and> pendingPassword (fst (onReadyRead E st bs g)) = pendingPassword g"
  using assms unfolding onReadyRead_def by (subst (1 2) drain.simps) simp

end
