(* ===== verification/WindowManager.thy ===== *)
theory WindowManager
  imports Prelude
begin

text \<open>
  The compositor's window registry, desktop/compositor/src/WindowManagerDBus.{h,cpp}: a hash
  table from window ids to records, filled by the QML chrome of each window, and queried and
  commanded by the shell over D-Bus. Every operation gives the new registry and the signals
  it emits; the D-Bus export broadcasts them to the shell.

  The order of \<open>QHash::keys\<close> is unspecified: it is the argument \<open>keys\<close> of \<open>ListWindowIds\<close>.
\<close>

record window_record =
  wr_title :: string
  wr_appId :: string
  wr_minimized :: bool
  wr_focused :: bool

definition default_record :: window_record where
  "default_record = \<lparr>wr_title = [], wr_appId = [], wr_minimized = False, wr_focused = False\<rparr>"

record wm =
  registered :: bool
  wm_windows :: "string \<Rightarrow> window_record option"

datatype wm_signal =
    WindowRegistered string string string
  | WindowUnregistered string
  | WindowStateChanged string bool bool
  | WindowMetadataChanged string string string
  | ActivateRequested string
  | MinimizeRequested string
  | CloseRequested string

datatype bus_call = RegisterService string | RegisterObject string | UnregisterService string

text \<open>The constructor, from the answers of the two bus registrations.\<close>

definition init_wm :: "bool \<Rightarrow> bool \<Rightarrow> wm \<times> bus_call list" where
  "init_wm service_ok object_ok =
     (if \<not> service_ok then
        (\<lparr>registered = False, wm_windows = Map.empty\<rparr>, [RegisterService ''io.niraos.Compositor''])
      else if \<not> object_ok then
        (\<lparr>registered = False, wm_windows = Map.empty\<rparr>,
         [RegisterService ''io.niraos.Compositor'', RegisterObject ''/WindowManager'',
          UnregisterService ''io.niraos.Compositor''])
      else
        (\<lparr>registered = True, wm_windows = Map.empty\<rparr>,
         [RegisterService ''io.niraos.Compositor'', RegisterObject ''/WindowManager'']))"


subsection \<open>Called by the QML chrome\<close>

definition registerWindow :: "string \<Rightarrow> string \<Rightarrow> string \<Rightarrow> wm \<Rightarrow> wm \<times> wm_signal list" where
  "registerWindow wid title appId s =
     (s\<lparr>wm_windows := (wm_windows s)(wid \<mapsto>
          \<lparr>wr_title = title, wr_appId = appId, wr_minimized = False, wr_focused = False\<rparr>)\<rparr>,
      [WindowRegistered wid title appId])"

definition unregisterWindow :: "string \<Rightarrow> wm \<Rightarrow> wm \<times> wm_signal list" where
  "unregisterWindow wid s = (s\<lparr>wm_windows := (wm_windows s)(wid := None)\<rparr>, [WindowUnregistered wid])"

definition updateWindowState :: "string \<Rightarrow> bool \<Rightarrow> bool \<Rightarrow> wm \<Rightarrow> wm \<times> wm_signal list" where
  "updateWindowState wid minimized focused s =
     (case wm_windows s wid of
        Some r \<Rightarrow>
          (if wr_minimized r = minimized \<and> wr_focused r = focused then (s, [])
           else (s\<lparr>wm_windows := (wm_windows s)(wid \<mapsto> r\<lparr>wr_minimized := minimized, wr_focused := focused\<rparr>)\<rparr>,
                 [WindowStateChanged wid minimized focused]))
      | None \<Rightarrow> (s, [WindowStateChanged wid minimized focused]))"

definition updateWindowMetadata :: "string \<Rightarrow> string \<Rightarrow> string \<Rightarrow> wm \<Rightarrow> wm \<times> wm_signal list" where
  "updateWindowMetadata wid title appId s =
     ((case wm_windows s wid of
         Some r \<Rightarrow> s\<lparr>wm_windows := (wm_windows s)(wid \<mapsto> r\<lparr>wr_title := title, wr_appId := appId\<rparr>)\<rparr>
       | None \<Rightarrow> s),
      [WindowMetadataChanged wid title appId])"


subsection \<open>Called by the shell over D-Bus\<close>

definition ActivateWindow :: "string \<Rightarrow> wm \<Rightarrow> wm \<times> wm_signal list" where
  "ActivateWindow wid s = (s, [ActivateRequested wid])"

definition MinimizeWindow :: "string \<Rightarrow> wm \<Rightarrow> wm \<times> wm_signal list" where
  "MinimizeWindow wid s = (s, [MinimizeRequested wid])"

definition CloseWindow :: "string \<Rightarrow> wm \<Rightarrow> wm \<times> wm_signal list" where
  "CloseWindow wid s = (s, [CloseRequested wid])"

definition ListWindowIds :: "((string \<Rightarrow> window_record option) \<Rightarrow> string list) \<Rightarrow> wm \<Rightarrow> string list" where
  "ListWindowIds keys s = keys (wm_windows s)"

definition value_of :: "wm \<Rightarrow> string \<Rightarrow> window_record" where
  "value_of s wid = (case wm_windows s wid of Some r \<Rightarrow> r | None \<Rightarrow> default_record)"

definition WindowTitle :: "wm \<Rightarrow> string \<Rightarrow> string" where
  "WindowTitle s wid = wr_title (value_of s wid)"

definition WindowAppId :: "wm \<Rightarrow> string \<Rightarrow> string" where
  "WindowAppId s wid = wr_appId (value_of s wid)"

definition WindowMinimized :: "wm \<Rightarrow> string \<Rightarrow> bool" where
  "WindowMinimized s wid = wr_minimized (value_of s wid)"

definition WindowFocused :: "wm \<Rightarrow> string \<Rightarrow> bool" where
  "WindowFocused s wid = wr_focused (value_of s wid)"


subsection \<open>Operation sequences\<close>

datatype wm_op =
    OpRegister string string string
  | OpUnregister string
  | OpState string bool bool
  | OpMetadata string string string
  | OpActivate string
  | OpMinimize string
  | OpClose string

fun wm_step :: "wm_op \<Rightarrow> wm \<Rightarrow> wm \<times> wm_signal list" where
  "wm_step (OpRegister wid t a) s = registerWindow wid t a s"
| "wm_step (OpUnregister wid) s = unregisterWindow wid s"
| "wm_step (OpState wid m f) s = updateWindowState wid m f s"
| "wm_step (OpMetadata wid t a) s = updateWindowMetadata wid t a s"
| "wm_step (OpActivate wid) s = ActivateWindow wid s"
| "wm_step (OpMinimize wid) s = MinimizeWindow wid s"
| "wm_step (OpClose wid) s = CloseWindow wid s"

lemmas wm_defs = registerWindow_def unregisterWindow_def updateWindowState_def
  updateWindowMetadata_def ActivateWindow_def MinimizeWindow_def CloseWindow_def

text \<open>A lookup answers with what was last stored, and with the defaults for an id that is not
  there.\<close>

lemma queries_after_register:
  "WindowTitle (fst (registerWindow wid t a s)) wid = t"
  "WindowAppId (fst (registerWindow wid t a s)) wid = a"
  "WindowMinimized (fst (registerWindow wid t a s)) wid = False"
  "WindowFocused (fst (registerWindow wid t a s)) wid = False"
  by (simp_all add: registerWindow_def WindowTitle_def WindowAppId_def WindowMinimized_def
      WindowFocused_def value_of_def)

lemma queries_after_unregister:
  "value_of (fst (unregisterWindow wid s)) wid = default_record"
  by (simp add: unregisterWindow_def value_of_def)

lemma wm_step_finite: "finite (dom (wm_windows s)) \<Longrightarrow> finite (dom (wm_windows (fst (wm_step op s))))"
  by (cases op) (auto simp: wm_defs split: option.splits)

text \<open>Requests of the shell never change the registry; they only ask QML.\<close>

lemma requests_leave_registry:
  "fst (ActivateWindow wid s) = s" "fst (MinimizeWindow wid s) = s" "fst (CloseWindow wid s) = s"
  by (simp_all add: wm_defs)

end
