(* ===== verification/RowModel.thy ===== *)
theory RowModel
  imports Prelude
begin

text \<open>
  The contract between the C++ list models and the QML views. Every model of the shell, the
  greeter and the file manager derives from QAbstractListModel: it answers \<open>rowCount\<close> and
  \<open>data\<close> from a list of entries, and every change of that list is announced with
  \<open>beginInsertRows\<close>/\<open>beginRemoveRows\<close>/\<open>beginResetModel\<close>/\<open>dataChanged\<close>. A view keeps its own
  copy of the rows and follows the announcements only, so an announcement that does not
  match the change leaves the view showing rows that do not exist.

  \<open>apply_notif\<close> is what a view does with one announcement; locale \<open>row_model\<close> states that
  replaying the announcements of an operation on the old rows gives the new rows, and
  derives that a view that starts in step stays in step. Locale \<open>item_model\<close> is the
  contract of \<open>rowCount\<close> and \<open>data\<close>. The components interpret both on their own
  definitions.
\<close>

datatype row_notif =
    RowsInserted nat nat
  | RowsRemoved nat nat
  | ModelReset
  | DataChanged nat

fun apply_notif :: "'r list \<Rightarrow> row_notif \<Rightarrow> 'r list \<Rightarrow> 'r list" where
  "apply_notif new (RowsInserted a b) v = take a v @ take (Suc b - a) (drop a new) @ drop a v"
| "apply_notif new (RowsRemoved a b) v = take a v @ drop (Suc b) v"
| "apply_notif new ModelReset v = new"
| "apply_notif new (DataChanged i) v = (if i < length v \<and> i < length new then v[i := new ! i] else v)"

definition replay :: "'r list \<Rightarrow> row_notif list \<Rightarrow> 'r list \<Rightarrow> 'r list" where
  "replay new ns v = fold (apply_notif new) ns v"

lemma replay_Nil [simp]: "replay new [] v = v"
  by (simp add: replay_def)

lemma replay_one [simp]: "replay new [n] v = apply_notif new n v"
  by (simp add: replay_def)

lemma apply_insert_end [simp]:
  "apply_notif (xs @ [x]) (RowsInserted (length xs) (length xs)) xs = xs @ [x]"
  by simp

lemma apply_insert_front [simp]: "apply_notif (x # xs) (RowsInserted 0 0) xs = x # xs"
  by simp

lemma apply_remove_row [simp]: "apply_notif new (RowsRemoved i i) xs = remove_at i xs"
  by (simp add: remove_at_def)

lemma apply_changed [simp]:
  "i < length xs \<Longrightarrow> apply_notif (xs[i := x]) (DataChanged i) xs = xs[i := x]"
  by simp

locale row_model =
  fixes rows :: "'s \<Rightarrow> 'r list"
    and step :: "'op \<Rightarrow> 's \<Rightarrow> 's"
    and notifs :: "'op \<Rightarrow> 's \<Rightarrow> row_notif list"
  assumes step_replay: "replay (rows (step op s)) (notifs op s) (rows s) = rows (step op s)"
begin

fun run :: "'op list \<Rightarrow> 's \<Rightarrow> 's" where
  "run [] s = s"
| "run (op # ops) s = run ops (step op s)"

fun view_run :: "'op list \<Rightarrow> 's \<Rightarrow> 'r list \<Rightarrow> 'r list" where
  "view_run [] s v = v"
| "view_run (op # ops) s v = view_run ops (step op s) (replay (rows (step op s)) (notifs op s) v)"

lemma view_in_step: "v = rows s \<Longrightarrow> view_run ops s v = rows (run ops s)"
  by (induction ops arbitrary: s v) (auto simp: step_replay)

lemma quiet_same: "notifs op s = [] \<Longrightarrow> rows (step op s) = rows s"
  using step_replay [of op s] by simp

end

text \<open>A model index is invalid (\<open>None\<close>, the root) or a row number; \<open>cell\<close> is the model's
  \<open>switch\<close> over the role.\<close>

locale item_model =
  fixes rows :: "'s \<Rightarrow> 'r list"
    and row_count :: "'s \<Rightarrow> nat option \<Rightarrow> nat"
    and item_data :: "'s \<Rightarrow> nat option \<Rightarrow> 'role \<Rightarrow> variant"
    and cell :: "'r \<Rightarrow> 'role \<Rightarrow> variant"
    and role_names :: "('role \<times> string) list"
  assumes row_count_root: "row_count s None = length (rows s)"
    and row_count_row: "row_count s (Some i) = 0"
    and data_root: "item_data s None r = VInvalid"
    and data_row: "item_data s (Some i) r = (if i < length (rows s) then cell (rows s ! i) r else VInvalid)"
    and named_cells: "(r, n) \<in> set role_names \<Longrightarrow> cell e r \<noteq> VInvalid"
    and distinct_names: "distinct (map fst role_names) \<and> distinct (map snd role_names)"
begin

lemma data_in_range_iff:
  assumes "(r, n) \<in> set role_names"
  shows "item_data s (Some i) r \<noteq> VInvalid \<longleftrightarrow> i < row_count s None"
  using named_cells [OF assms] by (simp add: data_row row_count_root)

lemma data_rows_eq:
  assumes "rows s = rows t"
  shows "item_data s = item_data t"
proof (intro ext)
  fix i r
  show "item_data s i r = item_data t i r"
    using assms by (cases i) (simp_all add: data_root data_row)
qed

lemma role_name_inj:
  assumes "(r, n) \<in> set role_names" and "(r', n) \<in> set role_names"
  shows "r = r'"
proof -
  from distinct_names have "inj_on snd (set role_names)" by (simp add: distinct_map)
  from inj_onD [OF this _ assms] show ?thesis by simp
qed

end


subsection \<open>Roles and types\<close>

text \<open>The C++ side of a role is an int, the enumerators of the class counting on from
  \<open>Qt::UserRole + 1\<close>, and what QML gets for it is a \<open>QVariant\<close> of one C++ type. \<open>role_at\<close> decodes a
  role number; a schema lists number, QML name (empty for a role that \<open>roleNames\<close> leaves
  out) and type of every role a model answers (\<open>QIntT\<close> is an int or a qint64).\<close>

datatype qtype = QStringT | QIntT | QUIntT | QBoolT | QDoubleT | QDateTimeT | QIconT | QUrlT | QStringListT | QVariantMapT | QVariantListT

fun type_of :: "variant \<Rightarrow> qtype option" where
  "type_of VInvalid = None"
| "type_of (VStr _) = Some QStringT"
| "type_of (VInt _) = Some QIntT"
| "type_of (VUInt _) = Some QUIntT"
| "type_of (VBool _) = Some QBoolT"
| "type_of (VReal _) = Some QDoubleT"
| "type_of (VTime _) = Some QDateTimeT"
| "type_of (VIcon _) = Some QIconT"
| "type_of (VUrl _) = Some QUrlT"
| "type_of (VStrs _) = Some QStringListT"
| "type_of (VMap _) = Some QVariantMapT"
| "type_of (VList _) = Some QVariantListT"

fun role_at :: "int \<Rightarrow> 'role list \<Rightarrow> 'role \<Rightarrow> int \<Rightarrow> 'role" where
  "role_at b [] other n = other"
| "role_at b (r # rs) other n = (if n = b then r else role_at (b + 1) rs other n)"

type_synonym schema = "(int \<times> string \<times> qtype) list"

definition named_roles :: "(int \<Rightarrow> 'role) \<Rightarrow> schema \<Rightarrow> ('role \<times> string) list" where
  "named_roles role_of sch = map (\<lambda>(n, name, t). (role_of n, name)) (filter (\<lambda>(n, name, t). name \<noteq> []) sch)"

definition schema_type :: "schema \<Rightarrow> nat \<Rightarrow> nat option \<Rightarrow> int \<Rightarrow> qtype option" where
  "schema_type sch count index n =
     (case index of
        None \<Rightarrow> None
      | Some i \<Rightarrow> if i < count then map_option snd (map_of sch n) else None)"

lemma type_of_None [simp]: "type_of v = None \<longleftrightarrow> v = VInvalid"
  by (cases v) simp_all

locale typed_item_model = item_model rows row_count item_data cell role_names
  for rows :: "'s \<Rightarrow> 'r list"
    and row_count :: "'s \<Rightarrow> nat option \<Rightarrow> nat"
    and item_data :: "'s \<Rightarrow> nat option \<Rightarrow> 'role \<Rightarrow> variant"
    and cell :: "'r \<Rightarrow> 'role \<Rightarrow> variant"
    and role_names :: "('role \<times> string) list" +
  fixes role_of :: "int \<Rightarrow> 'role"
    and sch :: schema
  assumes typed_cell: "type_of (cell e (role_of n)) = map_option snd (map_of sch n)"
    and schema_names: "role_names = named_roles role_of sch"
begin

lemma typed_data: "type_of (item_data s index (role_of n)) = schema_type sch (row_count s None) index n"
  by (cases index) (simp_all add: schema_type_def data_root data_row row_count_root typed_cell)

lemma typed_rows_same:
  assumes "item_data s (Some i) (role_of n) \<noteq> VInvalid" and "item_data t (Some j) (role_of n) \<noteq> VInvalid"
  shows "type_of (item_data s (Some i) (role_of n)) = type_of (item_data t (Some j) (role_of n))"
  using assms unfolding type_of_None [symmetric] typed_data
  by (simp add: schema_type_def split: if_splits)

lemma schema_covers_names:
  assumes "(r, name) \<in> set role_names"
  shows "\<exists>n t. (n, name, t) \<in> set sch \<and> role_of n = r \<and> map_of sch n \<noteq> None"
proof -
  obtain n t where *: "(n, name, t) \<in> set sch" "role_of n = r"
    using assms unfolding schema_names named_roles_def by auto
  then have "n \<in> fst ` set sch" by force
  then have "map_of sch n \<noteq> None" by (simp add: map_of_eq_None_iff)
  with * show ?thesis by blast
qed

end

end
