(* ===== verification/Taskbar.thy ===== *)
theory Taskbar
  imports RowModel WindowManager "HOL-Library.Multiset"
begin

text \<open>
  The shell's task bar, desktop/shell/src/TaskbarModel.{h,cpp}: a list model that mirrors the
  compositor's registry in another process. It follows the registry's signals, and seeds
  itself at start from asynchronous D-Bus calls. Each receiver gives the new model and the
  row notifications it emits to the views; the actions give the D-Bus calls they make.

  The main result is the refinement \<open>taskbar_mirrors_registry\<close>: after the signals are
  delivered in order, the task bar holds exactly the registry.
\<close>

record window_entry =
  we_id :: string
  we_title :: string
  we_appId :: string
  we_minimized :: bool
  we_focused :: bool

record taskbar =
  tb_windows :: "window_entry list"
  lastFocusedWindowId :: string
  has_iface :: bool

definition tb_indexOf :: "taskbar \<Rightarrow> string \<Rightarrow> nat option" where
  "tb_indexOf s wid = find_idx (\<lambda>w. we_id w = wid) (tb_windows s)"


subsection \<open>Signal receivers\<close>

definition onWindowMetadataChanged ::
  "string \<Rightarrow> string \<Rightarrow> string \<Rightarrow> taskbar \<Rightarrow> taskbar \<times> row_notif list" where
  "onWindowMetadataChanged wid title appId s =
     (case tb_indexOf s wid of
        None \<Rightarrow> (s, [])
      | Some i \<Rightarrow>
          let window = tb_windows s ! i in
          if we_title window = title \<and> we_appId window = appId then (s, [])
          else (s\<lparr>tb_windows := (tb_windows s)[i := window\<lparr>we_title := title, we_appId := appId\<rparr>]\<rparr>,
                [DataChanged i]))"

definition onWindowRegistered ::
  "string \<Rightarrow> string \<Rightarrow> string \<Rightarrow> taskbar \<Rightarrow> taskbar \<times> row_notif list" where
  "onWindowRegistered wid title appId s =
     (case tb_indexOf s wid of
        Some i \<Rightarrow> onWindowMetadataChanged wid title appId s
      | None \<Rightarrow>
          (s\<lparr>tb_windows := tb_windows s @
              [\<lparr>we_id = wid, we_title = title, we_appId = appId, we_minimized = False, we_focused = False\<rparr>]\<rparr>,
           [RowsInserted (length (tb_windows s)) (length (tb_windows s))]))"

definition onWindowUnregistered :: "string \<Rightarrow> taskbar \<Rightarrow> taskbar \<times> row_notif list" where
  "onWindowUnregistered wid s =
     (case tb_indexOf s wid of
        None \<Rightarrow> (s, [])
      | Some i \<Rightarrow> (s\<lparr>tb_windows := remove_at i (tb_windows s)\<rparr>, [RowsRemoved i i]))"

definition onWindowStateChanged ::
  "string \<Rightarrow> bool \<Rightarrow> bool \<Rightarrow> taskbar \<Rightarrow> taskbar \<times> row_notif list" where
  "onWindowStateChanged wid minimized focused s =
     (case tb_indexOf s wid of
        None \<Rightarrow> (s, [])
      | Some i \<Rightarrow>
          let w = tb_windows s ! i in
          if we_minimized w = minimized \<and> we_focused w = focused then (s, [])
          else (s\<lparr>tb_windows := (tb_windows s)[i := w\<lparr>we_minimized := minimized, we_focused := focused\<rparr>],
                  lastFocusedWindowId := (if focused then wid else lastFocusedWindowId s)\<rparr>,
                [DataChanged i]))"

text \<open>The four signals the constructor connects; the three requests are for QML only.\<close>

fun tb_signal :: "wm_signal \<Rightarrow> taskbar \<Rightarrow> taskbar \<times> row_notif list" where
  "tb_signal (WindowRegistered wid t a) s = onWindowRegistered wid t a s"
| "tb_signal (WindowUnregistered wid) s = onWindowUnregistered wid s"
| "tb_signal (WindowStateChanged wid m f) s = onWindowStateChanged wid m f s"
| "tb_signal (WindowMetadataChanged wid t a) s = onWindowMetadataChanged wid t a s"
| "tb_signal _ s = (s, [])"


subsection \<open>Model API\<close>

datatype tb_role = TbWindowIdRole | TbTitleRole | TbAppIdRole | TbIsMinimizedRole | TbIsFocusedRole
  | TbOtherRole

definition tb_rowCount :: "taskbar \<Rightarrow> nat option \<Rightarrow> nat" where
  "tb_rowCount s parent = (if parent \<noteq> None then 0 else length (tb_windows s))"

fun tb_cell :: "window_entry \<Rightarrow> tb_role \<Rightarrow> variant" where
  "tb_cell w TbWindowIdRole = VStr (we_id w)"
| "tb_cell w TbTitleRole = VStr (we_title w)"
| "tb_cell w TbAppIdRole = VStr (we_appId w)"
| "tb_cell w TbIsMinimizedRole = VBool (we_minimized w)"
| "tb_cell w TbIsFocusedRole = VBool (we_focused w)"
| "tb_cell w TbOtherRole = VInvalid"

definition tb_data :: "taskbar \<Rightarrow> nat option \<Rightarrow> tb_role \<Rightarrow> variant" where
  "tb_data s index role =
     (case index of
        None \<Rightarrow> VInvalid
      | Some row \<Rightarrow> if row \<ge> length (tb_windows s) then VInvalid else tb_cell (tb_windows s ! row) role)"

definition tb_roleNames :: "(tb_role \<times> string) list" where
  "tb_roleNames =
     [(TbWindowIdRole, ''windowId''), (TbTitleRole, ''title''), (TbAppIdRole, ''appId''),
      (TbIsMinimizedRole, ''isMinimized''), (TbIsFocusedRole, ''isFocused'')]"


subsection \<open>Actions\<close>

datatype tb_call = CallActivate string | CallMinimize string | CallClose string

definition tb_in_range :: "int \<Rightarrow> taskbar \<Rightarrow> bool" where
  "tb_in_range row s \<longleftrightarrow> \<not> (row < 0 \<or> row \<ge> int (length (tb_windows s)))"

definition tb_activate :: "int \<Rightarrow> taskbar \<Rightarrow> tb_call list" where
  "tb_activate row s =
     (if \<not> tb_in_range row s then []
      else if has_iface s then [CallActivate (we_id (tb_windows s ! nat row))] else [])"

definition tb_minimize :: "int \<Rightarrow> taskbar \<Rightarrow> tb_call list" where
  "tb_minimize row s =
     (if \<not> tb_in_range row s then []
      else if has_iface s then [CallMinimize (we_id (tb_windows s ! nat row))] else [])"

definition tb_toggle :: "int \<Rightarrow> taskbar \<Rightarrow> tb_call list" where
  "tb_toggle row s =
     (if \<not> tb_in_range row s \<or> \<not> has_iface s then []
      else
        let window = tb_windows s ! nat row in
        if \<not> we_minimized window \<and> we_id window = lastFocusedWindowId s
        then [CallMinimize (we_id window)]
        else [CallActivate (we_id window)])"

definition tb_close :: "int \<Rightarrow> taskbar \<Rightarrow> tb_call list" where
  "tb_close row s =
     (if \<not> tb_in_range row s then []
      else if has_iface s then [CallClose (we_id (tb_windows s ! nat row))] else [])"


subsection \<open>Seeding from the registry\<close>

text \<open>Four calls per window are in flight at once; each reply (\<open>None\<close> is an error reply) is
  stored, and the one that brings \<open>remaining\<close> to zero registers the window.\<close>

record pending_data =
  remaining :: nat
  pd_title :: string
  pd_appId :: string
  pd_minimized :: bool
  pd_focused :: bool

definition init_pending :: pending_data where
  "init_pending = \<lparr>remaining = 4, pd_title = [], pd_appId = [], pd_minimized = False, pd_focused = False\<rparr>"

datatype reply =
    TitleReply "string option"
  | AppIdReply "string option"
  | MinimizedReply "bool option"
  | FocusedReply "bool option"

fun store_reply :: "reply \<Rightarrow> pending_data \<Rightarrow> pending_data" where
  "store_reply (TitleReply r) d = (case r of None \<Rightarrow> d | Some v \<Rightarrow> d\<lparr>pd_title := v\<rparr>)"
| "store_reply (AppIdReply r) d = (case r of None \<Rightarrow> d | Some v \<Rightarrow> d\<lparr>pd_appId := v\<rparr>)"
| "store_reply (MinimizedReply r) d = (case r of None \<Rightarrow> d | Some v \<Rightarrow> d\<lparr>pd_minimized := v\<rparr>)"
| "store_reply (FocusedReply r) d = (case r of None \<Rightarrow> d | Some v \<Rightarrow> d\<lparr>pd_focused := v\<rparr>)"

definition finish_seed :: "string \<Rightarrow> pending_data \<Rightarrow> taskbar \<Rightarrow> taskbar" where
  "finish_seed wid d s =
     fst (onWindowStateChanged wid (pd_minimized d) (pd_focused d)
            (fst (onWindowRegistered wid (pd_title d) (pd_appId d) s)))"

definition on_reply :: "string \<Rightarrow> reply \<Rightarrow> pending_data \<times> taskbar \<Rightarrow> pending_data \<times> taskbar" where
  "on_reply wid r = (\<lambda>(d, s).
     let d1 = store_reply r d; d2 = d1\<lparr>remaining := remaining d1 - 1\<rparr>
     in if remaining d2 = 0 then (d2, finish_seed wid d2 s) else (d2, s))"


subsection \<open>Views stay in step\<close>

lemmas tb_receivers = onWindowRegistered_def onWindowMetadataChanged_def
  onWindowUnregistered_def onWindowStateChanged_def tb_indexOf_def

lemma tb_signal_replay:
  "replay (tb_windows (fst (tb_signal sig s))) (snd (tb_signal sig s)) (tb_windows s)
   = tb_windows (fst (tb_signal sig s))"
  by (cases sig) (auto simp: tb_receivers Let_def remove_at_def dest: find_idx_Some split: option.splits)

interpretation taskbar_rows: row_model tb_windows "\<lambda>sig s. fst (tb_signal sig s)" "\<lambda>sig s. snd (tb_signal sig s)"
  by unfold_locales (rule tb_signal_replay)

interpretation taskbar_items: item_model tb_windows tb_rowCount tb_data tb_cell tb_roleNames
  by unfold_locales (auto simp: tb_rowCount_def tb_data_def tb_roleNames_def)


subsection \<open>The task bar mirrors the registry\<close>

definition record_of :: "window_entry \<Rightarrow> window_record" where
  "record_of w = \<lparr>wr_title = we_title w, wr_appId = we_appId w,
     wr_minimized = we_minimized w, wr_focused = we_focused w\<rparr>"

definition tb_view :: "taskbar \<Rightarrow> string \<Rightarrow> window_record option" where
  "tb_view s = keyed we_id record_of (tb_windows s)"

definition tb_wf :: "taskbar \<Rightarrow> bool" where
  "tb_wf s \<longleftrightarrow> distinct (map we_id (tb_windows s))"

lemma tb_view_idx:
  "tb_view s wid = map_option (\<lambda>i. record_of (tb_windows s ! i)) (tb_indexOf s wid)"
  by (simp add: tb_view_def keyed_find_idx tb_indexOf_def split: option.splits)

lemma tb_signal_wf: "tb_wf s \<Longrightarrow> tb_wf (fst (tb_signal sig s))"
  by (cases sig)
    (auto simp: tb_wf_def tb_receivers Let_def find_idx_None distinct_map_remove_at
      intro!: distinct_keys_update dest: find_idx_Some split: option.splits)

lemma view_set:
  assumes "tb_indexOf s wid = Some i" and "we_id w' = wid"
  shows "keyed we_id record_of ((tb_windows s)[i := w']) = (tb_view s)(wid \<mapsto> record_of w')"
  using assms by (simp add: tb_indexOf_def tb_view_def keyed_update)

lemma indexed_entry:
  assumes "tb_indexOf s wid = Some i"
  shows "we_id (tb_windows s ! i) = wid" and "tb_view s wid = Some (record_of (tb_windows s ! i))"
  using assms find_idx_Some [of "\<lambda>w. we_id w = wid" "tb_windows s" i] by (simp_all add: tb_view_idx tb_indexOf_def)

lemma view_metadata:
  "tb_view (fst (onWindowMetadataChanged wid t a s)) =
     (case tb_view s wid of None \<Rightarrow> tb_view s
      | Some r \<Rightarrow> (tb_view s)(wid \<mapsto> r\<lparr>wr_title := t, wr_appId := a\<rparr>))"
proof (cases "tb_indexOf s wid")
  case None
  then show ?thesis by (simp add: onWindowMetadataChanged_def tb_view_idx)
next
  case (Some i)
  let ?w = "tb_windows s ! i"
  have e: "(record_of ?w)\<lparr>wr_title := t, wr_appId := a\<rparr> = record_of (?w\<lparr>we_title := t, we_appId := a\<rparr>)"
    by (simp add: record_of_def)
  show ?thesis
  proof (cases "we_title ?w = t \<and> we_appId ?w = a")
    case True
    then have "(record_of ?w)\<lparr>wr_title := t, wr_appId := a\<rparr> = record_of ?w"
      by (simp add: record_of_def)
    with True Some indexed_entry [OF Some] show ?thesis
      by (simp add: onWindowMetadataChanged_def Let_def fun_upd_idem)
  next
    case False
    with Some indexed_entry [OF Some] e show ?thesis
      by (auto simp: onWindowMetadataChanged_def Let_def tb_view_def [of "tb_windows_update _ _"] view_set)
  qed
qed

lemma view_state:
  "tb_view (fst (onWindowStateChanged wid m f s)) =
     (case tb_view s wid of None \<Rightarrow> tb_view s
      | Some r \<Rightarrow> (tb_view s)(wid \<mapsto> r\<lparr>wr_minimized := m, wr_focused := f\<rparr>))"
proof (cases "tb_indexOf s wid")
  case None
  then show ?thesis by (simp add: onWindowStateChanged_def tb_view_idx)
next
  case (Some i)
  let ?w = "tb_windows s ! i"
  have e: "(record_of ?w)\<lparr>wr_minimized := m, wr_focused := f\<rparr> = record_of (?w\<lparr>we_minimized := m, we_focused := f\<rparr>)"
    by (simp add: record_of_def)
  show ?thesis
  proof (cases "we_minimized ?w = m \<and> we_focused ?w = f")
    case True
    then have "(record_of ?w)\<lparr>wr_minimized := m, wr_focused := f\<rparr> = record_of ?w"
      by (simp add: record_of_def)
    with True Some indexed_entry [OF Some] show ?thesis
      by (simp add: onWindowStateChanged_def Let_def fun_upd_idem)
  next
    case False
    with Some indexed_entry [OF Some] e show ?thesis
      by (auto simp: onWindowStateChanged_def Let_def tb_view_def [of "lastFocusedWindowId_update _ _"]
          view_set)
  qed
qed

lemma view_registered:
  assumes "tb_view s wid = None"
  shows "tb_view (fst (onWindowRegistered wid t a s)) =
     (tb_view s)(wid \<mapsto> \<lparr>wr_title = t, wr_appId = a, wr_minimized = False, wr_focused = False\<rparr>)"
proof -
  from assms have "tb_indexOf s wid = None" by (simp add: tb_view_idx)
  then show ?thesis
    by (simp add: onWindowRegistered_def tb_view_def tb_indexOf_def keyed_append record_of_def)
qed

lemma view_unregistered:
  assumes "tb_wf s"
  shows "tb_view (fst (onWindowUnregistered wid s)) = (tb_view s)(wid := None)"
proof (cases "tb_indexOf s wid")
  case None
  then have "tb_view s wid = None" by (simp add: tb_view_idx)
  with None show ?thesis by (simp add: onWindowUnregistered_def fun_upd_idem)
next
  case (Some i)
  with assms show ?thesis
    by (simp add: onWindowUnregistered_def tb_view_def tb_indexOf_def tb_wf_def keyed_remove)
qed

lemmas view_receivers = view_metadata view_state view_registered view_unregistered

definition deliver :: "wm_signal list \<Rightarrow> taskbar \<Rightarrow> taskbar" where
  "deliver sigs s = fold (\<lambda>sig s. fst (tb_signal sig s)) sigs s"

lemma deliver_simps [simp]:
  "deliver [] s = s"
  "deliver (x # xs) s = deliver xs (fst (tb_signal x s))"
  "deliver (xs @ ys) s = deliver ys (deliver xs s)"
  by (simp_all add: deliver_def)

fun fresh_registrations :: "wm_op list \<Rightarrow> wm \<Rightarrow> bool" where
  "fresh_registrations [] s = True"
| "fresh_registrations (op # ops) s =
     ((case op of OpRegister wid t a \<Rightarrow> wm_windows s wid = None | _ \<Rightarrow> True)
      \<and> fresh_registrations ops (fst (wm_step op s)))"

fun wm_run :: "wm_op list \<Rightarrow> wm \<Rightarrow> wm \<times> wm_signal list" where
  "wm_run [] s = (s, [])"
| "wm_run (op # ops) s =
     (let r1 = wm_step op s; r2 = wm_run ops (fst r1) in (fst r2, snd r1 @ snd r2))"

lemma deliver_wf: "tb_wf s \<Longrightarrow> tb_wf (deliver sigs s)"
  by (induction sigs arbitrary: s) (simp_all add: tb_signal_wf)

lemma step_mirrors:
  assumes "tb_view tb = wm_windows s" and "tb_wf tb"
    and "case op of OpRegister wid t a \<Rightarrow> wm_windows s wid = None | _ \<Rightarrow> True"
  shows "tb_view (deliver (snd (wm_step op s)) tb) = wm_windows (fst (wm_step op s))"
  using assms
  by (cases op) (auto simp: wm_defs view_receivers fun_eq_iff split: option.splits)

text \<open>
  The task bar mirrors the registry. Starting in step, after any sequence of operations
  on the compositor's registry in which no id is registered twice, and after the emitted
  signals are delivered in order, the shell's task bar holds exactly the windows of the
  registry with their titles, application ids and states, and no window twice.
\<close>

theorem taskbar_mirrors_registry:
  assumes "tb_view tb = wm_windows s" and "tb_wf tb" and "fresh_registrations ops s"
  shows "tb_view (deliver (snd (wm_run ops s)) tb) = wm_windows (fst (wm_run ops s))
     \<and> tb_wf (deliver (snd (wm_run ops s)) tb)"
  using assms
proof (induction ops arbitrary: s tb)
  case Nil
  then show ?case by simp
next
  case (Cons op ops)
  let ?tb = "deliver (snd (wm_step op s)) tb"
  from Cons.prems have "tb_view ?tb = wm_windows (fst (wm_step op s))"
    by (auto intro!: step_mirrors)
  moreover from Cons.prems have "tb_wf ?tb" by (simp add: deliver_wf)
  moreover from Cons.prems have "fresh_registrations ops (fst (wm_step op s))" by simp
  ultimately show ?case using Cons.IH by (simp add: Let_def)
qed

definition empty_taskbar :: taskbar where
  "empty_taskbar = \<lparr>tb_windows = [], lastFocusedWindowId = [], has_iface = True\<rparr>"

theorem taskbar_mirrors_registry_witness:
  "(let ops = [OpRegister ''w1'' ''Files'' ''nira-files'', OpState ''w1'' False True,
               OpRegister ''w2'' ''Notes'' ''nira-notepad'', OpUnregister ''w1''];
        s = fst (init_wm True True)
    in tb_view (deliver (snd (wm_run ops s)) empty_taskbar) = wm_windows (fst (wm_run ops s))
       \<and> tb_wf (deliver (snd (wm_run ops s)) empty_taskbar))"
  unfolding Let_def
  by (rule taskbar_mirrors_registry)
    (simp_all add: init_wm_def tb_view_def keyed_def empty_taskbar_def tb_wf_def wm_defs)

text \<open>The hypothesis on registrations is needed: a second registration of a known id resets
  the registry's record but not the mirror's flags.\<close>

lemma second_registration_diverges:
  "let ops = [OpRegister ''w'' ''T'' ''A'', OpState ''w'' True False, OpRegister ''w'' ''T'' ''A''];
       s = fst (init_wm True True)
   in tb_view (deliver (snd (wm_run ops s)) empty_taskbar) \<noteq> wm_windows (fst (wm_run ops s))"
proof -
  let ?ops = "[OpRegister ''w'' ''T'' ''A'', OpState ''w'' True False, OpRegister ''w'' ''T'' ''A'']"
  let ?s = "fst (init_wm True True)"
  have "tb_view (deliver (snd (wm_run ?ops ?s)) empty_taskbar) ''w'' \<noteq> wm_windows (fst (wm_run ?ops ?s)) ''w''"
    by (simp add: init_wm_def empty_taskbar_def wm_defs tb_view_def keyed_def tb_receivers record_of_def)
  then show ?thesis unfolding Let_def by metis
qed


subsection \<open>Seeding\<close>

lemma store_reply_remaining [simp]: "remaining (store_reply r d) = remaining d"
  by (cases r) (auto split: option.splits)

lemma store_reply_frame: "store_reply r (d\<lparr>remaining := n\<rparr>) = (store_reply r d)\<lparr>remaining := n\<rparr>"
  by (cases r) (auto split: option.splits)

lemma store_replies_frame: "fold store_reply rs (d\<lparr>remaining := n\<rparr>) = (fold store_reply rs d)\<lparr>remaining := n\<rparr>"
  by (induction rs arbitrary: d) (simp_all add: store_reply_frame)

lemma finish_seed_frame [simp]: "finish_seed wid (d\<lparr>remaining := n\<rparr>) s = finish_seed wid d s"
  by (simp add: finish_seed_def)

lemma replies_then_finish:
  assumes "rs \<noteq> []" and "remaining d = length rs"
  shows "snd (fold (on_reply wid) rs (d, s)) = finish_seed wid (fold store_reply rs d) s"
  using assms
proof (induction rs arbitrary: d)
  case Nil
  then show ?case by simp
next
  case (Cons r rs)
  show ?case
  proof (cases "rs = []")
    case True
    with Cons.prems show ?thesis by (simp add: on_reply_def Let_def)
  next
    case False
    let ?d = "(store_reply r d)\<lparr>remaining := length rs\<rparr>"
    from False Cons.prems have "on_reply wid r (d, s) = (?d, s)"
      by (simp add: on_reply_def Let_def)
    with False Cons.IH [of ?d] show ?thesis by (simp add: store_replies_frame)
  qed
qed

fun reply_kind :: "reply \<Rightarrow> nat" where
  "reply_kind (TitleReply r) = 0"
| "reply_kind (AppIdReply r) = 1"
| "reply_kind (MinimizedReply r) = 2"
| "reply_kind (FocusedReply r) = 3"

lemma store_reply_commute:
  "reply_kind r \<noteq> reply_kind q \<Longrightarrow> store_reply r (store_reply q d) = store_reply q (store_reply r d)"
  by (cases r; cases q) (auto split: option.splits)

text \<open>
  Seeding does not depend on timing. In whatever order the four replies about a window
  arrive, and whichever of them are errors, the window is registered once, with exactly the
  title, application id and flags that the successful replies carried and the defaults for
  the others.
\<close>

theorem seed_order_irrelevant:
  assumes "mset rs = {#TitleReply t, AppIdReply a, MinimizedReply m, FocusedReply f#}"
  shows "snd (fold (on_reply wid) rs (init_pending, s)) =
     fst (onWindowStateChanged wid (case m of None \<Rightarrow> False | Some b \<Rightarrow> b) (case f of None \<Rightarrow> False | Some b \<Rightarrow> b)
       (fst (onWindowRegistered wid (case t of None \<Rightarrow> [] | Some x \<Rightarrow> x) (case a of None \<Rightarrow> [] | Some x \<Rightarrow> x) s)))"
proof -
  let ?qs = "[TitleReply t, AppIdReply a, MinimizedReply m, FocusedReply f]"
  have eq: "mset rs = mset ?qs" using assms by simp
  then have "length rs = length ?qs" by (rule mset_eq_length)
  then have len: "length rs = 4" by simp
  have st: "set rs = set ?qs" using eq by (rule mset_eq_setD)
  have "fold store_reply rs = fold store_reply ?qs"
  proof (rule fold_multiset_equiv [OF _ eq])
    fix x y
    assume xy: "x \<in> set rs" "y \<in> set rs"
    show "store_reply x \<circ> store_reply y = store_reply y \<circ> store_reply x"
    proof (cases "x = y")
      case False
      with xy st have "reply_kind x \<noteq> reply_kind y" by auto
      then show ?thesis by (simp add: fun_eq_iff store_reply_commute)
    qed simp
  qed
  moreover have "rs \<noteq> []" and "remaining init_pending = length rs"
    using len by (auto simp: init_pending_def)
  ultimately show ?thesis
    by (simp add: replies_then_finish finish_seed_def init_pending_def split: option.splits)
qed

theorem seed_order_irrelevant_witness:
  "snd (fold (on_reply ''w'') [FocusedReply (Some True), AppIdReply None, TitleReply (Some ''T''), MinimizedReply (Some False)]
        (init_pending, empty_taskbar)) =
     fst (onWindowStateChanged ''w'' (case Some False of None \<Rightarrow> False | Some b \<Rightarrow> b)
            (case Some True of None \<Rightarrow> False | Some b \<Rightarrow> b)
       (fst (onWindowRegistered ''w'' (case Some ''T'' of None \<Rightarrow> [] | Some x \<Rightarrow> x)
            (case None of None \<Rightarrow> [] | Some x \<Rightarrow> x) empty_taskbar)))"
  by (rule seed_order_irrelevant) simp

text \<open>A window that closes while its four calls are in flight comes back as a ghost: the
  registry answers for the unknown id with defaults, and the last reply registers it.\<close>

lemma seeding_race_leaves_ghost:
  "let s0 = fst (registerWindow ''w'' ''T'' ''A'' (fst (init_wm True True)));
       listed = ListWindowIds (\<lambda>m. if m = Map.empty then [] else [''w'']) s0;
       s1 = fst (unregisterWindow ''w'' s0);
       tb = deliver (snd (unregisterWindow ''w'' s0)) empty_taskbar;
       tb' = snd (fold (on_reply ''w'')
               [TitleReply (Some (WindowTitle s1 ''w'')), AppIdReply (Some (WindowAppId s1 ''w'')),
                MinimizedReply (Some (WindowMinimized s1 ''w'')), FocusedReply (Some (WindowFocused s1 ''w''))]
               (init_pending, tb))
   in listed = [''w''] \<and> wm_windows s1 ''w'' = None \<and> tb_view tb' ''w'' \<noteq> None"
  by (simp add: registerWindow_def unregisterWindow_def ListWindowIds_def init_wm_def fun_eq_iff
      WindowTitle_def WindowAppId_def WindowMinimized_def WindowFocused_def value_of_def default_record_def
      empty_taskbar_def on_reply_def init_pending_def finish_seed_def tb_receivers tb_view_def keyed_def
      Let_def)


subsection \<open>Clicking the button of the active window\<close>

fun focuses_other :: "string \<Rightarrow> wm_signal \<Rightarrow> bool" where
  "focuses_other wid (WindowStateChanged j m f) = (f \<and> j \<noteq> wid)"
| "focuses_other wid _ = False"

lemma lastFocused_kept:
  assumes "lastFocusedWindowId s = wid" and "\<not> focuses_other wid sig"
  shows "lastFocusedWindowId (fst (tb_signal sig s)) = wid"
  using assms by (cases sig) (auto simp: tb_receivers Let_def split: option.splits)

lemma deliver_lastFocused:
  assumes "lastFocusedWindowId s = wid" and "\<forall>sig \<in> set sigs. \<not> focuses_other wid sig"
  shows "lastFocusedWindowId (deliver sigs s) = wid"
  using assms by (induction sigs arbitrary: s) (simp_all add: lastFocused_kept)

lemma has_iface_kept [simp]: "has_iface (fst (tb_signal sig s)) = has_iface s"
  by (cases sig) (auto simp: tb_receivers Let_def split: option.splits)

lemma deliver_has_iface [simp]: "has_iface (deliver sigs s) = has_iface s"
  by (induction sigs arbitrary: s) simp_all

text \<open>
  Clicking the button of the active window minimizes it. Once a window has gained the
  focus, and as long as no other window gains it (the desktop shell taking the keyboard
  focus for the click does not count), a click on the window's button asks the compositor to
  minimize that window unless it is minimized already, and a click on any other button
  activates that other window.
\<close>

theorem toggle_active_window:
  assumes "tb_indexOf s wid = Some i" and "\<not> we_focused (tb_windows s ! i)"
    and "\<forall>sig \<in> set sigs. \<not> focuses_other wid sig"
    and "tb = deliver (WindowStateChanged wid False True # sigs) s"
    and "row < length (tb_windows tb)" and "has_iface s"
  shows "tb_toggle (int row) tb =
     (let w = tb_windows tb ! row in
      if we_id w = wid \<and> \<not> we_minimized w then [CallMinimize wid] else [CallActivate (we_id w)])"
proof -
  let ?s1 = "fst (tb_signal (WindowStateChanged wid False True) s)"
  have "lastFocusedWindowId ?s1 = wid"
    using assms(1,2) by (simp add: onWindowStateChanged_def Let_def)
  then have "lastFocusedWindowId tb = wid"
    using assms(3,4) deliver_lastFocused by simp
  moreover have "has_iface tb" using assms(4,6) by (simp del: tb_signal.simps)
  ultimately show ?thesis
    using assms(5) by (auto simp: tb_toggle_def tb_in_range_def Let_def)
qed

definition demo_taskbar :: taskbar where
  "demo_taskbar = deliver [WindowRegistered ''w1'' ''A'' ''a'', WindowRegistered ''w2'' ''B'' ''b''] empty_taskbar"

definition demo_taskbar_clicked :: taskbar where
  "demo_taskbar_clicked =
     deliver (WindowStateChanged ''w1'' False True # [WindowStateChanged ''w1'' False False]) demo_taskbar"

theorem toggle_active_window_witness:
  "tb_toggle (int 0) demo_taskbar_clicked =
     (let w = tb_windows demo_taskbar_clicked ! 0 in
      if we_id w = ''w1'' \<and> \<not> we_minimized w then [CallMinimize ''w1''] else [CallActivate (we_id w)])"
proof (rule toggle_active_window)
  show "tb_indexOf demo_taskbar ''w1'' = Some 0" and "\<not> we_focused (tb_windows demo_taskbar ! 0)"
    and "has_iface demo_taskbar"
    by (simp_all add: demo_taskbar_def empty_taskbar_def tb_receivers)
  show "demo_taskbar_clicked =
     deliver (WindowStateChanged ''w1'' False True # [WindowStateChanged ''w1'' False False]) demo_taskbar"
    by (rule demo_taskbar_clicked_def)
  show "0 < length (tb_windows demo_taskbar_clicked)"
    by (simp add: demo_taskbar_clicked_def demo_taskbar_def empty_taskbar_def tb_receivers)
qed simp

end
