(* ===== verification/Qfs.thy ===== *)
theory Qfs
  imports Prelude
begin

text \<open>
  What the programs use of the file system, of Qt's file classes and of the \<open>gio\<close> tool. None
  of it is code of the repository, so it is a parameter: a record of operations over an
  arbitrary state type, which the definitions of the components take as an argument. The
  properties that rely on the documented behaviour of these operations say so with the
  hypotheses \<open>qfs_laws\<close> (over an abstraction \<open>node_at\<close> of the state to a tree of files and
  directories). \<open>mem_fs\<close> is a small in-memory instance that satisfies them; it serves as the
  concrete parameter of the witnesses and of the examples.

  The loop that looks for an unused file name occurs four times in the sources; locale
  \<open>fresh_name\<close> is its contract.
\<close>

datatype gio_result = GioNotStarted | GioTimedOut | GioExited int

record 'fs qfs =
  fExists :: "'fs \<Rightarrow> path \<Rightarrow> bool"             \<comment> \<open>QFileInfo(p).exists()\<close>
  fIsDir :: "'fs \<Rightarrow> path \<Rightarrow> bool"              \<comment> \<open>QFileInfo(p).isDir()\<close>
  dExists :: "'fs \<Rightarrow> path \<Rightarrow> bool"             \<comment> \<open>QDir(p).exists()\<close>
  dEntries :: "'fs \<Rightarrow> path \<Rightarrow> string list"     \<comment> \<open>file names of QDir(p).entryInfoList(AllEntries | NoDotAndDotDot)\<close>
  fCopy :: "'fs \<Rightarrow> path \<Rightarrow> path \<Rightarrow> bool \<times> 'fs"   \<comment> \<open>QFile::copy\<close>
  fRename :: "'fs \<Rightarrow> path \<Rightarrow> path \<Rightarrow> bool \<times> 'fs" \<comment> \<open>QFile::rename\<close>
  fRemove :: "'fs \<Rightarrow> path \<Rightarrow> bool \<times> 'fs"       \<comment> \<open>QFile::remove\<close>
  dRmdir :: "'fs \<Rightarrow> path \<Rightarrow> bool \<times> 'fs"        \<comment> \<open>QDir::rmdir\<close>
  dMkpath :: "'fs \<Rightarrow> path \<Rightarrow> bool \<times> 'fs"       \<comment> \<open>QDir::mkpath\<close>
  fCreate :: "'fs \<Rightarrow> path \<Rightarrow> string option \<times> 'fs" \<comment> \<open>QFile::open(WriteOnly) and close; Some e is the error string\<close>
  pJoin :: "path \<Rightarrow> string \<Rightarrow> path"             \<comment> \<open>QDir(d).absoluteFilePath(name)\<close>
  pFileName :: "path \<Rightarrow> string"
  pCompleteBase :: "path \<Rightarrow> string"
  pSuffix :: "path \<Rightarrow> string"
  pDir :: "path \<Rightarrow> path"                       \<comment> \<open>QFileInfo(p).dir().absolutePath()\<close>
  pAbs :: "path \<Rightarrow> path"                       \<comment> \<open>QFileInfo(p).absoluteFilePath()\<close>
  argChain :: "string \<Rightarrow> string list \<Rightarrow> string"  \<comment> \<open>template.arg(a).arg(b)...\<close>
  argMulti :: "string \<Rightarrow> string list \<Rightarrow> string"  \<comment> \<open>template.arg(a, b, ...)\<close>
  numStr :: "nat \<Rightarrow> string"
  gioTrash :: "'fs \<Rightarrow> path \<Rightarrow> gio_result \<times> 'fs" \<comment> \<open>gio trash p, killed when it times out\<close>
  dataHome :: path                            \<comment> \<open>writableLocation(GenericDataLocation)\<close>


subsection \<open>Looking for an unused name\<close>

primrec probe :: "(string \<Rightarrow> bool) \<Rightarrow> (nat \<Rightarrow> string) \<Rightarrow> nat \<Rightarrow> nat \<Rightarrow> string \<Rightarrow> string" where
  "probe taken cand i 0 last_target = last_target"
| "probe taken cand i (Suc n) last_target =
     (if \<not> taken (cand i) then cand i else probe taken cand (Suc i) n (cand i))"

lemma probe_first:
  "k < n \<Longrightarrow> \<not> taken (cand (i + k)) \<Longrightarrow> \<forall>j<k. taken (cand (i + j)) \<Longrightarrow> probe taken cand i n l = cand (i + k)"
proof (induction n arbitrary: i k l)
  case 0
  then show ?case by simp
next
  case (Suc n)
  show ?case
  proof (cases k)
    case 0
    with Suc.prems show ?thesis by simp
  next
    case (Suc m)
    with Suc.prems(3) have "taken (cand i)" by (metis add_0_right zero_less_Suc)
    moreover have "probe taken cand (Suc i) n (cand i) = cand (Suc i + m)"
    proof (rule Suc.IH)
      show "m < n" using Suc Suc.prems(1) by simp
      show "\<not> taken (cand (Suc i + m))" using Suc Suc.prems(2) by simp
      show "\<forall>j<m. taken (cand (Suc i + j))"
      proof (intro allI impI)
        fix j
        assume "j < m"
        with Suc have "Suc j < k" by simp
        with Suc.prems(3) show "taken (cand (Suc i + j))" by (metis add_Suc add_Suc_right)
      qed
    qed
    ultimately show ?thesis using Suc by simp
  qed
qed

locale fresh_name =
  fixes search :: "(string \<Rightarrow> bool) \<Rightarrow> string"
    and cand :: "nat \<Rightarrow> string"
    and bound :: nat
  assumes search_first:
    "k < bound \<Longrightarrow> \<not> taken (cand k) \<Longrightarrow> \<forall>j<k. taken (cand j) \<Longrightarrow> search taken = cand k"
begin

lemma search_free:
  assumes "k < bound" and "\<not> taken (cand k)"
  shows "\<not> taken (search taken)"
proof -
  let ?m = "LEAST j. \<not> taken (cand j)"
  have "\<not> taken (cand ?m)" using assms(2) by (rule LeastI)
  moreover have "?m \<le> k" using assms(2) by (rule Least_le)
  moreover have "\<forall>j < ?m. taken (cand j)" by (auto dest: not_less_Least)
  ultimately show ?thesis using search_first [of ?m taken] assms(1) by (metis le_less_trans)
qed

lemma search_cand:
  assumes "k < bound" and "\<not> taken (cand k)"
  shows "\<exists>i<bound. search taken = cand i \<and> \<not> taken (cand i)"
proof -
  let ?m = "LEAST j. \<not> taken (cand j)"
  have "\<not> taken (cand ?m)" using assms(2) by (rule LeastI)
  moreover have "?m < bound" using Least_le [of "\<lambda>j. \<not> taken (cand j)", OF assms(2)] assms(1) by simp
  moreover have "\<forall>j < ?m. taken (cand j)" by (auto dest: not_less_Least)
  ultimately show ?thesis using search_first [of ?m taken] by blast
qed

text \<open>Fewer names taken than candidates: the search cannot fail.\<close>

lemma search_free_few:
  assumes "inj_on cand {..<bound}" and "finite T" and "card T < bound"
  shows "search (\<lambda>n. n \<in> T) \<notin> T"
proof -
  have "\<not> cand ` {..<bound} \<subseteq> T"
  proof
    assume "cand ` {..<bound} \<subseteq> T"
    then have "card (cand ` {..<bound}) \<le> card T" using assms(2) by (rule card_mono [rotated])
    with assms(1,3) show False by (simp add: card_image)
  qed
  then obtain k where "k < bound" and "cand k \<notin> T" by auto
  then show ?thesis using search_free [of k "\<lambda>n. n \<in> T"] by simp
qed

lemma search_base: "0 < bound \<Longrightarrow> \<not> taken (cand 0) \<Longrightarrow> search taken = cand 0"
  by (simp add: search_first)

end


subsection \<open>Documented behaviour\<close>

text \<open>The part of a file system without links: a path holds nothing, a file with contents, or
  a directory.\<close>

datatype node = Dir | File string

fun joins :: "'fs qfs \<Rightarrow> path \<Rightarrow> string list \<Rightarrow> path" where
  "joins Q p [] = p"
| "joins Q p (n # ns) = joins Q (pJoin Q p n) ns"

lemma joins_append: "joins Q p (xs @ ys) = joins Q (joins Q p xs) ys"
  by (induction xs arbitrary: p) auto

text \<open>A single component of a path, and the paths below a path.\<close>

definition plain_name :: "string \<Rightarrow> bool" where
  "plain_name n \<longleftrightarrow> n \<noteq> [] \<and> CHR ''/'' \<notin> set n"

definition below :: "'fs qfs \<Rightarrow> path \<Rightarrow> path \<Rightarrow> bool" where
  "below Q p q \<longleftrightarrow> (\<exists>ns. list_all plain_name ns \<and> q = joins Q p ns)"

lemma below_refl [simp]: "below Q p p"
  unfolding below_def by (rule exI [of _ "[]"]) simp

lemma below_trans: "below Q p q \<Longrightarrow> below Q q r \<Longrightarrow> below Q p r"
  unfolding below_def by (metis joins_append list_all_append)

lemma below_join: "plain_name n \<Longrightarrow> below Q p (pJoin Q p n)"
  unfolding below_def by (rule exI [of _ "[n]"]) simp

lemma below_joins: "list_all plain_name ns \<Longrightarrow> below Q p (joins Q p ns)"
  unfolding below_def by blast

definition apart :: "'fs qfs \<Rightarrow> path \<Rightarrow> path \<Rightarrow> bool" where
  "apart Q a b \<longleftrightarrow> \<not> (\<exists>q. below Q a q \<and> below Q b q)"

lemma apart_join: "apart Q a b \<Longrightarrow> plain_name n \<Longrightarrow> apart Q (pJoin Q a n) (pJoin Q b n)"
  unfolding apart_def by (meson below_join below_trans)

text \<open>The laws are about paths in canonical form (absolute, no \<open>.\<close>, \<open>..\<close>, doubled or trailing
  separators, no links), the set \<open>canon\<close>: only there do two names of one node coincide.
  \<open>node_at\<close> is the content of a canonical path.\<close>

definition queries_ok ::
  "'fs qfs \<Rightarrow> (path \<Rightarrow> bool) \<Rightarrow> ('fs \<Rightarrow> path \<Rightarrow> node option) \<Rightarrow> (string \<Rightarrow> bool) \<Rightarrow> bool" where
  "queries_ok Q canon node_at hidden \<longleftrightarrow>
     (\<forall>p n. canon p \<longrightarrow> plain_name n \<longrightarrow> canon (pJoin Q p n)) \<and>
     (\<forall>p ns ms. canon p \<longrightarrow> list_all plain_name ns \<longrightarrow> list_all plain_name ms \<longrightarrow>
        joins Q p ns = joins Q p ms \<longrightarrow> ns = ms) \<and>
     (\<forall>s p. canon p \<longrightarrow> (fExists Q s p \<longleftrightarrow> node_at s p \<noteq> None)) \<and>
     (\<forall>s p. canon p \<longrightarrow> (fIsDir Q s p \<longleftrightarrow> node_at s p = Some Dir)) \<and>
     (\<forall>s p. canon p \<longrightarrow> (dExists Q s p \<longleftrightarrow> node_at s p = Some Dir)) \<and>
     (\<forall>s p n. canon p \<longrightarrow>
        (n \<in> set (dEntries Q s p) \<longleftrightarrow> plain_name n \<and> node_at s (pJoin Q p n) \<noteq> None \<and> \<not> hidden n))"

definition copy_ok :: "'fs qfs \<Rightarrow> (path \<Rightarrow> bool) \<Rightarrow> ('fs \<Rightarrow> path \<Rightarrow> node option) \<Rightarrow> bool" where
  "copy_ok Q canon node_at \<longleftrightarrow>
     (\<forall>s a b s'. canon a \<longrightarrow> canon b \<longrightarrow> fCopy Q s a b = (True, s') \<longrightarrow>
        (\<exists>c. node_at s a = Some (File c) \<and> node_at s b = None \<and> node_at s' = (node_at s)(b \<mapsto> File c))) \<and>
     (\<forall>s a b s'. canon a \<longrightarrow> canon b \<longrightarrow> fCopy Q s a b = (False, s') \<longrightarrow> node_at s' = node_at s)"

definition mkpath_ok :: "'fs qfs \<Rightarrow> (path \<Rightarrow> bool) \<Rightarrow> ('fs \<Rightarrow> path \<Rightarrow> node option) \<Rightarrow> bool" where
  "mkpath_ok Q canon node_at \<longleftrightarrow>
     (\<forall>s d b s'. canon d \<longrightarrow> dMkpath Q s d = (b, s') \<longrightarrow>
        (b \<longrightarrow> node_at s' d = Some Dir) \<and>
        (\<forall>p. node_at s' p \<noteq> node_at s p \<longrightarrow>
           node_at s p = None \<and> node_at s' p = Some Dir \<and> below Q p d))"

definition remove_ok :: "'fs qfs \<Rightarrow> (path \<Rightarrow> bool) \<Rightarrow> ('fs \<Rightarrow> path \<Rightarrow> node option) \<Rightarrow> bool" where
  "remove_ok Q canon node_at \<longleftrightarrow>
     (\<forall>s p s'. canon p \<longrightarrow> fRemove Q s p = (True, s') \<longrightarrow> node_at s' = (node_at s)(p := None)) \<and>
     (\<forall>s p s'. canon p \<longrightarrow> fRemove Q s p = (False, s') \<longrightarrow> node_at s' = node_at s) \<and>
     (\<forall>s p s'. canon p \<longrightarrow> dRmdir Q s p = (True, s') \<longrightarrow>
        node_at s' = (node_at s)(p := None) \<and> (\<forall>n. plain_name n \<longrightarrow> node_at s (pJoin Q p n) = None)) \<and>
     (\<forall>s p s'. canon p \<longrightarrow> dRmdir Q s p = (False, s') \<longrightarrow> node_at s' = node_at s)"

text \<open>Renaming: a target that exists makes it fail. The law covers files; where a renamed
  directory's contents go is not needed.\<close>

definition rename_ok :: "'fs qfs \<Rightarrow> (path \<Rightarrow> bool) \<Rightarrow> ('fs \<Rightarrow> path \<Rightarrow> node option) \<Rightarrow> bool" where
  "rename_ok Q canon node_at \<longleftrightarrow>
     (\<forall>s a b s'. canon a \<longrightarrow> canon b \<longrightarrow> fRename Q s a b = (True, s') \<longrightarrow>
        node_at s b = None \<and> node_at s a \<noteq> None \<and>
        (\<forall>c. node_at s a = Some (File c) \<longrightarrow> node_at s' = (node_at s)(a := None, b \<mapsto> File c))) \<and>
     (\<forall>s a b s'. canon a \<longrightarrow> canon b \<longrightarrow> fRename Q s a b = (False, s') \<longrightarrow> node_at s' = node_at s)"

definition create_ok :: "'fs qfs \<Rightarrow> (path \<Rightarrow> bool) \<Rightarrow> ('fs \<Rightarrow> path \<Rightarrow> node option) \<Rightarrow> bool" where
  "create_ok Q canon node_at \<longleftrightarrow>
     (\<forall>s p s'. canon p \<longrightarrow> fCreate Q s p = (None, s') \<longrightarrow>
        node_at s p \<noteq> Some Dir \<and> node_at s' = (node_at s)(p \<mapsto> File [])) \<and>
     (\<forall>s p e s'. canon p \<longrightarrow> fCreate Q s p = (Some e, s') \<longrightarrow> node_at s' = node_at s)"

text \<open>Whatever \<open>gio trash\<close> does or fails to do, it moves the node it is given into a trash can.\<close>

definition gio_ok ::
  "'fs qfs \<Rightarrow> (path \<Rightarrow> bool) \<Rightarrow> ('fs \<Rightarrow> path \<Rightarrow> node option) \<Rightarrow> (path \<Rightarrow> bool) \<Rightarrow> bool" where
  "gio_ok Q canon node_at trash \<longleftrightarrow>
     (\<forall>s p r s'. canon p \<longrightarrow> gioTrash Q s p = (r, s') \<longrightarrow>
        (node_at s' p = node_at s p \<or> node_at s' p = None) \<and>
        (\<forall>q. node_at s' q \<noteq> node_at s q \<longrightarrow> below Q p q \<or> trash q))"

definition qfs_laws ::
  "'fs qfs \<Rightarrow> (path \<Rightarrow> bool) \<Rightarrow> ('fs \<Rightarrow> path \<Rightarrow> node option) \<Rightarrow> (string \<Rightarrow> bool) \<Rightarrow> bool" where
  "qfs_laws Q canon node_at hidden \<longleftrightarrow>
     queries_ok Q canon node_at hidden \<and> copy_ok Q canon node_at \<and> mkpath_ok Q canon node_at
     \<and> remove_ok Q canon node_at \<and> rename_ok Q canon node_at \<and> create_ok Q canon node_at"

lemma qfs_canon:
  "qfs_laws Q canon node_at hidden \<Longrightarrow> canon p \<Longrightarrow> plain_name n \<Longrightarrow> canon (pJoin Q p n)"
  by (simp add: qfs_laws_def queries_ok_def)

lemma qfs_inj:
  "qfs_laws Q canon node_at hidden \<Longrightarrow> canon p \<Longrightarrow> list_all plain_name ns \<Longrightarrow> list_all plain_name ms
    \<Longrightarrow> joins Q p ns = joins Q p ms \<longleftrightarrow> ns = ms"
  by (auto simp: qfs_laws_def queries_ok_def)

lemma qfs_canon_joins:
  "qfs_laws Q canon node_at hidden \<Longrightarrow> canon p \<Longrightarrow> list_all plain_name ns \<Longrightarrow> canon (joins Q p ns)"
  by (induction ns arbitrary: p) (auto intro: qfs_canon)

lemma qfs_queries:
  assumes "qfs_laws Q canon node_at hidden" and "canon p"
  shows "fExists Q s p \<longleftrightarrow> node_at s p \<noteq> None"
    and "fIsDir Q s p \<longleftrightarrow> node_at s p = Some Dir"
    and "dExists Q s p \<longleftrightarrow> node_at s p = Some Dir"
    and "n \<in> set (dEntries Q s p) \<longleftrightarrow> plain_name n \<and> node_at s (pJoin Q p n) \<noteq> None \<and> \<not> hidden n"
  using assms by (simp_all add: qfs_laws_def queries_ok_def)

lemma qfs_copy:
  assumes "qfs_laws Q canon node_at hidden" and "canon a" and "canon b"
  shows "fCopy Q s a b = (True, s') \<Longrightarrow>
      \<exists>c. node_at s a = Some (File c) \<and> node_at s b = None \<and> node_at s' = (node_at s)(b \<mapsto> File c)"
    and "fCopy Q s a b = (False, s') \<Longrightarrow> node_at s' = node_at s"
  using assms unfolding qfs_laws_def copy_ok_def by blast+

lemma qfs_mkpath:
  assumes "qfs_laws Q canon node_at hidden" and "canon d" and "dMkpath Q s d = (b, s')"
  shows "b \<Longrightarrow> node_at s' d = Some Dir"
    and "node_at s' p \<noteq> node_at s p \<Longrightarrow> node_at s p = None \<and> node_at s' p = Some Dir \<and> below Q p d"
  using assms unfolding qfs_laws_def mkpath_ok_def by blast+

lemma qfs_remove:
  assumes "qfs_laws Q canon node_at hidden" and "canon p"
  shows "fRemove Q s p = (True, s') \<Longrightarrow> node_at s' = (node_at s)(p := None)"
    and "fRemove Q s p = (False, s') \<Longrightarrow> node_at s' = node_at s"
    and "dRmdir Q s p = (True, s') \<Longrightarrow> node_at s' = (node_at s)(p := None)"
    and "dRmdir Q s p = (True, s') \<Longrightarrow> plain_name n \<Longrightarrow> node_at s (pJoin Q p n) = None"
    and "dRmdir Q s p = (False, s') \<Longrightarrow> node_at s' = node_at s"
  using assms unfolding qfs_laws_def remove_ok_def by blast+

lemma qfs_rename:
  assumes "qfs_laws Q canon node_at hidden" and "canon a" and "canon b"
  shows "fRename Q s a b = (True, s') \<Longrightarrow> node_at s b = None \<and> node_at s a \<noteq> None"
    and "fRename Q s a b = (True, s') \<Longrightarrow> node_at s a = Some (File c) \<Longrightarrow>
      node_at s' = (node_at s)(a := None, b \<mapsto> File c)"
    and "fRename Q s a b = (False, s') \<Longrightarrow> node_at s' = node_at s"
  using assms unfolding qfs_laws_def rename_ok_def by blast+

lemma qfs_create:
  assumes "qfs_laws Q canon node_at hidden" and "canon p"
  shows "fCreate Q s p = (None, s') \<Longrightarrow> node_at s' = (node_at s)(p \<mapsto> File [])"
    and "fCreate Q s p = (Some e, s') \<Longrightarrow> node_at s' = node_at s"
  using assms unfolding qfs_laws_def create_ok_def by blast+


subsection \<open>An in-memory instance\<close>

type_synonym mem = "(path \<times> node) list"

definition mem_join :: "path \<Rightarrow> string \<Rightarrow> path" where
  "mem_join d n = d @ ''/'' @ n"

definition mem_names :: "mem \<Rightarrow> path \<Rightarrow> string list" where
  "mem_names s p =
     filter plain_name
       (map (\<lambda>q. drop (Suc (length p)) q) (filter (\<lambda>q. starts_with q (p @ ''/'')) (remdups (map fst s))))"

definition mem_hidden :: "string \<Rightarrow> bool" where
  "mem_hidden n \<longleftrightarrow> starts_with n ''.''"

definition mem_del :: "mem \<Rightarrow> path \<Rightarrow> mem" where
  "mem_del s p = filter (\<lambda>e. fst e \<noteq> p) s"

definition mem_fs :: "mem qfs" where
  "mem_fs = \<lparr>fExists = (\<lambda>s p. map_of s p \<noteq> None),
     fIsDir = (\<lambda>s p. map_of s p = Some Dir),
     dExists = (\<lambda>s p. map_of s p = Some Dir),
     dEntries = (\<lambda>s p. filter (\<lambda>n. \<not> mem_hidden n) (mem_names s p)),
     fCopy = (\<lambda>s a b. case map_of s a of
        Some (File c) \<Rightarrow> if map_of s b = None then (True, (b, File c) # s) else (False, s)
      | _ \<Rightarrow> (False, s)),
     fRename = (\<lambda>s a b. case map_of s a of
        Some n \<Rightarrow> if map_of s b = None then (True, (b, n) # mem_del s a) else (False, s)
      | None \<Rightarrow> (False, s)),
     fRemove = (\<lambda>s p. case map_of s p of Some (File c) \<Rightarrow> (True, mem_del s p) | _ \<Rightarrow> (False, s)),
     dRmdir = (\<lambda>s p. if map_of s p = Some Dir \<and> mem_names s p = [] then (True, mem_del s p) else (False, s)),
     dMkpath = (\<lambda>s p. case map_of s p of None \<Rightarrow> (True, (p, Dir) # s) | Some Dir \<Rightarrow> (True, s) | _ \<Rightarrow> (False, s)),
     fCreate = (\<lambda>s p. case map_of s p of Some Dir \<Rightarrow> (Some ''Is a directory'', s)
                     | _ \<Rightarrow> (None, (p, File []) # mem_del s p)),
     pJoin = mem_join, pFileName = (\<lambda>p. last (split_on CHR ''/'' p)),
     pCompleteBase = (\<lambda>p. last (split_on CHR ''/'' p)), pSuffix = (\<lambda>p. []),
     pDir = (\<lambda>p. take (length p - Suc (length (last (split_on CHR ''/'' p)))) p), pAbs = (\<lambda>p. p),
     argChain = (\<lambda>t as. t @ concat as), argMulti = (\<lambda>t as. t @ concat as),
     numStr = (\<lambda>i. replicate i CHR ''i''),
     gioTrash = (\<lambda>s p. (GioNotStarted, s)), dataHome = ''/h''\<rparr>"

lemma map_of_mem_del [simp]: "map_of (mem_del s p) = (map_of s)(p := None)"
  unfolding mem_del_def by (induction s) auto

lemma mem_names_iff: "n \<in> set (mem_names s p) \<longleftrightarrow> plain_name n \<and> map_of s (mem_join p n) \<noteq> None"
proof -
  have "n \<in> set (mem_names s p) \<longleftrightarrow> plain_name n \<and> mem_join p n \<in> fst ` set s"
    by (force simp: mem_names_def mem_join_def starts_with_iff image_iff)
  then show ?thesis by (simp add: map_of_eq_None_iff)
qed

lemma mem_names_empty: "mem_names s p = [] \<Longrightarrow> plain_name n \<Longrightarrow> map_of s (mem_join p n) = None"
  using mem_names_iff [of n s p] by simp

definition mem_canon :: "path \<Rightarrow> bool" where
  "mem_canon p \<longleftrightarrow> p \<noteq> [] \<and> hd p = CHR ''/''"

lemma joins_mem: "joins mem_fs p ns = p @ concat (map (\<lambda>n. ''/'' @ n) ns)"
  by (induction ns arbitrary: p) (simp_all add: mem_fs_def mem_join_def)

lemma plain_split:
  assumes "CHR ''/'' \<notin> set n" and "CHR ''/'' \<notin> set m"
    and "n @ concat (map (\<lambda>n. ''/'' @ n) ns) = m @ concat (map (\<lambda>n. ''/'' @ n) ms)"
  shows "n = m"
proof -
  have "takeWhile (\<lambda>c. c \<noteq> CHR ''/'') (k @ concat (map (\<lambda>n. ''/'' @ n) ks)) = k"
    if "CHR ''/'' \<notin> set k" for k and ks :: "string list"
  proof -
    have "takeWhile (\<lambda>c. c \<noteq> CHR ''/'') (k @ concat (map (\<lambda>n. ''/'' @ n) ks)) =
        k @ takeWhile (\<lambda>c. c \<noteq> CHR ''/'') (concat (map (\<lambda>n. ''/'' @ n) ks))"
      using that by (intro takeWhile_append2) auto
    then show ?thesis by (cases ks) simp_all
  qed
  with assms show ?thesis by metis
qed

lemma joins_mem_inj:
  "list_all plain_name ns \<Longrightarrow> list_all plain_name ms \<Longrightarrow> joins mem_fs p ns = joins mem_fs p ms \<Longrightarrow> ns = ms"
proof (induction ns arbitrary: ms p)
  case Nil
  then have "concat (map (\<lambda>n. ''/'' @ n) ms) = []" by (simp only: joins_mem) simp
  then show ?case by simp
next
  case (Cons n ns)
  show ?case
  proof (cases ms)
    case Nil
    with Cons.prems(3) have "concat (map (\<lambda>n. ''/'' @ n) (n # ns)) = []"
      by (simp only: joins_mem) simp
    then show ?thesis by simp
  next
    case (Cons m ms')
    have "n = m"
    proof (rule plain_split)
      show "CHR ''/'' \<notin> set n" and "CHR ''/'' \<notin> set m"
        using Cons.prems(1,2) Cons by (auto simp: plain_name_def)
      show "n @ concat (map (\<lambda>n. ''/'' @ n) ns) = m @ concat (map (\<lambda>n. ''/'' @ n) ms')"
        using Cons.prems(3) unfolding Cons by (simp only: joins_mem) simp
    qed
    with Cons Cons.prems Cons.IH [of ms' "pJoin mem_fs p n"] show ?thesis by simp
  qed
qed

lemma mem_fs_laws: "qfs_laws mem_fs mem_canon map_of mem_hidden"
proof -
  have "queries_ok mem_fs mem_canon map_of mem_hidden"
    unfolding queries_ok_def using joins_mem_inj
    by (auto simp: mem_fs_def mem_names_iff mem_canon_def mem_join_def)
  moreover have "copy_ok mem_fs mem_canon map_of"
    by (auto simp: copy_ok_def mem_fs_def split: option.splits node.splits if_splits)
  moreover have "mkpath_ok mem_fs mem_canon map_of"
    by (auto simp: mkpath_ok_def mem_fs_def split: option.splits node.splits if_splits)
  moreover have "remove_ok mem_fs mem_canon map_of"
    by (auto simp: remove_ok_def mem_fs_def mem_names_empty split: option.splits node.splits if_splits)
  moreover have "rename_ok mem_fs mem_canon map_of"
    by (auto simp: rename_ok_def mem_fs_def split: option.splits node.splits if_splits)
  moreover have "create_ok mem_fs mem_canon map_of"
    by (auto simp: create_ok_def mem_fs_def split: option.splits node.splits if_splits)
  ultimately show ?thesis by (simp add: qfs_laws_def)
qed

end
