(* ===== verification/FileInfo.thy ===== *)
theory FileInfo
  imports Prelude
begin

text \<open>
  What a QFileInfo, the MIME database and a QStorageInfo answer about a path: plain data,
  supplied by Qt, of which the components copy parts into their own structures. Also the
  conversion of a 64-bit integer to a C++ \<open>double\<close> and the size formatting that
  apps/files/src/FileOperations.cpp and apps/files/src/SearchIndexer.cpp each implement.
\<close>

record qfileinfo =
  qi_exists :: bool
  qi_fileName :: string
  qi_absoluteFilePath :: path
  qi_size :: int
  qi_isDir :: bool
  qi_isFile :: bool
  qi_isSymLink :: bool
  qi_isHidden :: bool
  qi_isReadable :: bool
  qi_isWritable :: bool
  qi_isExecutable :: bool
  qi_lastModified :: int
  qi_lastRead :: int
  qi_birthTime :: int
  qi_owner :: string
  qi_group :: string
  qi_permissions :: int
  qi_suffix :: string
  qi_completeBaseName :: string
  qi_mimeName :: string
  qi_mimeIcon :: string

record qstorage =
  st_valid :: bool
  st_ready :: bool
  st_readOnly :: bool
  st_name :: string
  st_device :: "string option"
  st_rootPath :: path
  st_fileSystemType :: string
  st_bytesTotal :: int
  st_bytesAvailable :: int

definition plain_info :: qfileinfo where
  "plain_info = \<lparr>qi_exists = True, qi_fileName = [], qi_absoluteFilePath = [], qi_size = 0,
     qi_isDir = False, qi_isFile = True, qi_isSymLink = False, qi_isHidden = False,
     qi_isReadable = True, qi_isWritable = True, qi_isExecutable = False,
     qi_lastModified = 0, qi_lastRead = 0, qi_birthTime = 0, qi_owner = [], qi_group = [],
     qi_permissions = 0, qi_suffix = [], qi_completeBaseName = [],
     qi_mimeName = ''text/plain'', qi_mimeIcon = ''text-plain''\<rparr>"


subsection \<open>Conversion to double\<close>

text \<open>Round to nearest, ties to even, with a 53-bit significand: what C++ does with an
  integer operand of a floating-point operation.\<close>

definition double_shift :: "int \<Rightarrow> nat" where
  "double_shift m = length (filter (\<lambda>k. 2 ^ (53 + k) \<le> m) [0..<11])"

definition to_double :: "int \<Rightarrow> rat" where
  "to_double n =
     (if \<bar>n\<bar> \<le> 9007199254740992 then of_int n
      else
        let m = \<bar>n\<bar>; k = double_shift m; q = m div 2 ^ k; r = m mod 2 ^ k;
            q' = (if 2 * r > 2 ^ k \<or> (2 * r = 2 ^ k \<and> odd q) then q + 1 else q)
        in of_int (sgn n * q' * 2 ^ k))"

lemma to_double_exact [simp]: "\<bar>n\<bar> \<le> 9007199254740992 \<Longrightarrow> to_double n = of_int n"
  by (simp add: to_double_def)

lemma double_shift_pow: "double_shift m = 0 \<or> 2 ^ (52 + double_shift m) \<le> m"
proof -
  have "length (filter (\<lambda>k. 2 ^ (53 + k) \<le> m) [0..<n]) = j \<Longrightarrow> j = 0 \<or> 2 ^ (52 + j) \<le> m" for n j
  proof (induction n arbitrary: j)
    case 0
    then show ?case by simp
  next
    case (Suc n)
    show ?case
    proof (cases "2 ^ (53 + n) \<le> m")
      case True
      have "j \<le> Suc n" using Suc.prems length_filter_le [of _ "[0..<Suc n]"] by (metis length_upt minus_nat.diff_0)
      then have "(2::int) ^ (52 + j) \<le> 2 ^ (53 + n)" by (intro power_increasing) simp_all
      with True show ?thesis by linarith
    next
      case False
      with Suc.IH [of j] Suc.prems show ?thesis by auto
    qed
  qed
  then show ?thesis by (simp add: double_shift_def)
qed

lemma to_double_large: "9007199254740992 < n \<Longrightarrow> 4503599627370496 \<le> to_double n"
proof -
  assume n: "9007199254740992 < n"
  let ?k = "double_shift n"
  let ?q = "n div 2 ^ ?k"
  have "?k = 0 \<or> 2 ^ (52 + ?k) \<le> n" by (rule double_shift_pow)
  then have "2 ^ 52 * 2 ^ ?k \<le> n" using n by (auto simp: power_add)
  then have "(2 ^ 52 * 2 ^ ?k) div 2 ^ ?k \<le> ?q" by (intro zdiv_mono1) simp_all
  then have q: "2 ^ 52 \<le> ?q" by simp
  obtain q' where q': "to_double n = of_int (q' * 2 ^ ?k)" and "?q \<le> q'"
    using n by (auto simp: to_double_def Let_def)
  have "(2::int) ^ 52 * 1 \<le> q' * 2 ^ ?k"
    using q \<open>?q \<le> q'\<close> by (intro mult_mono) simp_all
  then have "(4503599627370496::int) \<le> q' * 2 ^ ?k" by simp
  then have "(of_int 4503599627370496 :: rat) \<le> of_int (q' * 2 ^ ?k)" by (simp only: of_int_le_iff)
  then show ?thesis unfolding q' by simp
qed

lemma to_double_less_iff:
  assumes "0 \<le> n" and "t \<le> 4503599627370496"
  shows "to_double n < of_int t \<longleftrightarrow> n < t"
proof (cases "n \<le> 9007199254740992")
  case True
  with assms show ?thesis by simp
next
  case False
  then have "4503599627370496 \<le> to_double n" by (simp add: to_double_large)
  moreover have "of_int t \<le> (4503599627370496 :: rat)"
    using assms(2) by (metis of_int_le_iff of_int_numeral)
  ultimately show ?thesis using False assms(2) by simp
qed


subsection \<open>Human-readable sizes\<close>

text \<open>\<open>fmt v d\<close> stands for \<open>QString::number(v, 'f', d)\<close> and \<open>num\<close> for
  \<open>QString::number\<close> of an integer. Dividing a double by 1024 is exact in this range.\<close>

definition FileOperations_humanSize :: "(rat \<Rightarrow> nat \<Rightarrow> string) \<Rightarrow> (int \<Rightarrow> string) \<Rightarrow> int \<Rightarrow> string" where
  "FileOperations_humanSize fmt num bytes =
     (if bytes < 1024 then num bytes @ '' B''
      else
        let kb = to_double bytes / 1024 in
        if kb < 1024 then fmt kb 1 @ '' KB''
        else
          let mb = kb / 1024 in
          if mb < 1024 then fmt mb 1 @ '' MB''
          else
            let gb = mb / 1024 in
            if gb < 1024 then fmt gb 2 @ '' GB''
            else let tb = gb / 1024 in fmt tb 2 @ '' TB'')"

definition SearchIndexer_humanSize :: "(rat \<Rightarrow> nat \<Rightarrow> string) \<Rightarrow> (int \<Rightarrow> string) \<Rightarrow> int \<Rightarrow> string" where
  "SearchIndexer_humanSize fmt num bytes =
     (if bytes < 1024 then num bytes @ '' B''
      else
        let kb = to_double bytes / 1024 in
        if kb < 1024 then fmt kb 1 @ '' KB''
        else
          let mb = kb / 1024 in
          if mb < 1024 then fmt mb 1 @ '' MB''
          else let gb = mb / 1024 in fmt gb 2 @ '' GB'')"

lemma double_threshold:
  assumes "0 \<le> n"
  shows "to_double n < 1048576 \<longleftrightarrow> n < 1048576"
    and "to_double n < 1073741824 \<longleftrightarrow> n < 1073741824"
    and "to_double n < 1099511627776 \<longleftrightarrow> n < 1099511627776"
  using to_double_less_iff [OF assms, of 1048576] to_double_less_iff [OF assms, of 1073741824]
    to_double_less_iff [OF assms, of 1099511627776] by simp_all

lemma humanSize_units:
  assumes "0 \<le> bytes"
  shows "FileOperations_humanSize fmt num bytes =
     (if bytes < 2 ^ 10 then num bytes @ '' B''
      else if bytes < 2 ^ 20 then fmt (of_int bytes / 2 ^ 10) 1 @ '' KB''
      else if bytes < 2 ^ 30 then fmt (of_int bytes / 2 ^ 20) 1 @ '' MB''
      else if bytes < 2 ^ 40 then fmt (of_int bytes / 2 ^ 30) 2 @ '' GB''
      else fmt (to_double bytes / 2 ^ 40) 2 @ '' TB'')"
  using assms by (simp add: FileOperations_humanSize_def Let_def double_threshold)

lemma humanSize_copies_agree:
  assumes "0 \<le> bytes" and "bytes < 2 ^ 40"
  shows "SearchIndexer_humanSize fmt num bytes = FileOperations_humanSize fmt num bytes"
  using assms by (simp add: SearchIndexer_humanSize_def FileOperations_humanSize_def Let_def double_threshold)

end
