(* ===== verification/FileOps.thy ===== *)
theory FileOps
  imports Qfs FileInfo
begin

text \<open>
  The file operations of the file manager, apps/files/src/FileOperations.{h,cpp}. An
  operation takes the file-system parameter of \<^theory_text>\<open>Qfs\<close> and a state and gives the new state
  with the signal it finally emits. The operations that run on a worker thread report
  through one queued signal; the model is the worker's body.

  The recursive copy and delete need not end on every file system (a directory copied into
  itself), so they and what calls them take fuel, one unit per directory level, and give
  \<open>None\<close> when it runs out.
\<close>

datatype fo_signal =
    CopyFinished bool string
  | MoveFinished bool string
  | RenameFinished bool string
  | DeleteFinished bool string
  | CreateFolderFinished bool string
  | CreateFileFinished bool string
  | DuplicateFinished bool string
  | OperationProgress string


subsection \<open>Helpers\<close>

definition resolveDestination :: "'fs qfs \<Rightarrow> 'fs \<Rightarrow> path \<Rightarrow> path \<Rightarrow> path" where
  "resolveDestination Q s source dest =
     (if fIsDir Q s dest then pJoin Q dest (pFileName Q source) else dest)"

definition isSafeName :: "string \<Rightarrow> bool" where
  "isSafeName name =
     (if name = [] \<or> name = ''.'' \<or> name = ''..'' then False
      else if str_contains name ''/'' \<or> str_contains name [CHR 0x5C] then False
      else True)"

definition dot_ext :: "string \<Rightarrow> string" where
  "dot_ext ext = (if ext = [] then [] else CHR ''.'' # ext)"


subsection \<open>Recursive copy and delete\<close>

fun performRecursiveCopy :: "nat \<Rightarrow> 'fs qfs \<Rightarrow> path \<Rightarrow> path \<Rightarrow> 'fs \<Rightarrow> (bool \<times> 'fs) option"
  and copy_entries :: "nat \<Rightarrow> 'fs qfs \<Rightarrow> path \<Rightarrow> path \<Rightarrow> string list \<Rightarrow> 'fs \<Rightarrow> (bool \<times> 'fs) option"
where
  "performRecursiveCopy 0 Q sourceDir destDir s = None"
| "performRecursiveCopy (Suc n) Q sourceDir destDir s =
     (if \<not> dExists Q s sourceDir then Some (False, s)
      else
        (case (if \<not> dExists Q s destDir then dMkpath Q s destDir else (True, s)) of
           (False, s1) \<Rightarrow> Some (False, s1)
         | (True, s1) \<Rightarrow> copy_entries n Q sourceDir destDir (dEntries Q s1 sourceDir) s1))"
| "copy_entries n Q sourceDir destDir [] s = Some (True, s)"
| "copy_entries n Q sourceDir destDir (e # es) s =
     (let srcPath = pJoin Q sourceDir e; dstPath = pJoin Q destDir e in
      if fIsDir Q s srcPath then
        (case performRecursiveCopy n Q srcPath dstPath s of
           None \<Rightarrow> None
         | Some (False, s1) \<Rightarrow> Some (False, s1)
         | Some (True, s1) \<Rightarrow> copy_entries n Q sourceDir destDir es s1)
      else
        (case fCopy Q s srcPath dstPath of
           (False, s1) \<Rightarrow> Some (False, s1)
         | (True, s1) \<Rightarrow> copy_entries n Q sourceDir destDir es s1))"

fun performRecursiveDelete :: "nat \<Rightarrow> 'fs qfs \<Rightarrow> path \<Rightarrow> 'fs \<Rightarrow> (bool \<times> 'fs) option"
  and delete_entries :: "nat \<Rightarrow> 'fs qfs \<Rightarrow> path \<Rightarrow> string list \<Rightarrow> 'fs \<Rightarrow> (bool \<times> 'fs) option"
where
  "performRecursiveDelete 0 Q p s = None"
| "performRecursiveDelete (Suc n) Q p s =
     (if \<not> dExists Q s p then Some (True, s)
      else
        (case delete_entries n Q p (dEntries Q s p) s of
           None \<Rightarrow> None
         | Some (False, s1) \<Rightarrow> Some (False, s1)
         | Some (True, s1) \<Rightarrow> Some (dRmdir Q s1 p)))"
| "delete_entries n Q p [] s = Some (True, s)"
| "delete_entries n Q p (e # es) s =
     (if fIsDir Q s (pJoin Q p e) then
        (case performRecursiveDelete n Q (pJoin Q p e) s of
           None \<Rightarrow> None
         | Some (False, s1) \<Rightarrow> Some (False, s1)
         | Some (True, s1) \<Rightarrow> delete_entries n Q p es s1)
      else
        (case fRemove Q s (pJoin Q p e) of
           (False, s1) \<Rightarrow> Some (False, s1)
         | (True, s1) \<Rightarrow> delete_entries n Q p es s1))"


subsection \<open>Trash, delete, move\<close>

definition trash_candidate :: "'fs qfs \<Rightarrow> path \<Rightarrow> nat \<Rightarrow> string" where
  "trash_candidate Q p i =
     (if i = 0 then pFileName Q p
      else argChain Q ''%1 (%2)%3'' [pCompleteBase Q p, numStr Q i, dot_ext (pSuffix Q p)])"

definition trash_target :: "'fs qfs \<Rightarrow> path \<Rightarrow> 'fs \<Rightarrow> path" where
  "trash_target Q p s =
     probe (fExists Q s) (\<lambda>i. (dataHome Q @ ''/Trash/files'') @ ''/'' @ trash_candidate Q p i) 0 10000 []"

definition moveToTrash :: "nat \<Rightarrow> 'fs qfs \<Rightarrow> path \<Rightarrow> 'fs \<Rightarrow> (bool \<times> 'fs) option" where
  "moveToTrash fuel Q p s =
     (case gioTrash Q s p of (result, s1) \<Rightarrow>
      if result = GioExited 0 then Some (True, s1)
      else
        let s2 = snd (dMkpath Q s1 (dataHome Q @ ''/Trash/files''));
            target = trash_target Q p s2
        in
          (case fRename Q s2 p target of
             (True, s3) \<Rightarrow> Some (True, s3)
           | (False, s3) \<Rightarrow>
               (case (if fIsDir Q s3 p then performRecursiveCopy fuel Q p target s3
                      else Some (fCopy Q s3 p target)) of
                  None \<Rightarrow> None
                | Some (False, s4) \<Rightarrow> Some (False, s4)
                | Some (True, s4) \<Rightarrow> performRecursiveDelete fuel Q p s4)))"

definition performCopy :: "'fs qfs \<Rightarrow> path \<Rightarrow> path \<Rightarrow> 'fs \<Rightarrow> bool \<times> 'fs" where
  "performCopy Q source dest s = fCopy Q s source dest"

definition performDelete :: "nat \<Rightarrow> 'fs qfs \<Rightarrow> path \<Rightarrow> bool \<Rightarrow> 'fs \<Rightarrow> (bool \<times> 'fs) option" where
  "performDelete fuel Q p permanent s =
     (if \<not> fExists Q s p then Some (True, s)
      else if \<not> permanent then moveToTrash fuel Q p s
      else if fIsDir Q s p then performRecursiveDelete fuel Q p s
      else Some (fRemove Q s p))"

definition performMove :: "nat \<Rightarrow> 'fs qfs \<Rightarrow> path \<Rightarrow> path \<Rightarrow> 'fs \<Rightarrow> (bool \<times> 'fs) option" where
  "performMove fuel Q source dest s =
     (case fRename Q s source dest of
        (True, s1) \<Rightarrow> Some (True, s1)
      | (False, s1) \<Rightarrow>
          (case (if fIsDir Q s1 source then performRecursiveCopy fuel Q source dest s1
                 else Some (fCopy Q s1 source dest)) of
             None \<Rightarrow> None
           | Some (False, s2) \<Rightarrow> Some (False, s2)
           | Some (True, s2) \<Rightarrow> performDelete fuel Q source False s2))"


subsection \<open>Operations\<close>

definition copy_op :: "nat \<Rightarrow> 'fs qfs \<Rightarrow> path \<Rightarrow> path \<Rightarrow> 'fs \<Rightarrow> ('fs \<times> fo_signal) option" where
  "copy_op fuel Q source dest s =
     (if \<not> fExists Q s source then Some (s, CopyFinished False (''Source does not exist: '' @ source))
      else
        let target = resolveDestination Q s source dest in
        (case (if fIsDir Q s source then performRecursiveCopy fuel Q source target s
               else Some (performCopy Q source target s)) of
           None \<Rightarrow> None
         | Some (success, s1) \<Rightarrow>
             Some (s1, CopyFinished success
               (if \<not> success then ''Failed to copy '' @ pFileName Q source else []))))"

definition move_op :: "nat \<Rightarrow> 'fs qfs \<Rightarrow> path \<Rightarrow> path \<Rightarrow> 'fs \<Rightarrow> ('fs \<times> fo_signal) option" where
  "move_op fuel Q source dest s =
     (let target = resolveDestination Q s source dest in
      (case performMove fuel Q source target s of
         None \<Rightarrow> None
       | Some (success, s1) \<Rightarrow>
           Some (s1, MoveFinished success
             (if \<not> success then ''Failed to move '' @ pFileName Q source else []))))"

definition rename_op :: "'fs qfs \<Rightarrow> path \<Rightarrow> string \<Rightarrow> 'fs \<Rightarrow> 'fs \<times> fo_signal" where
  "rename_op Q p newName s =
     (if \<not> isSafeName newName then (s, RenameFinished False (''Invalid name: '' @ newName))
      else
        let destPath = pJoin Q (pDir Q p) newName in
        if fExists Q s destPath \<and> destPath \<noteq> pAbs Q p then
          (s, RenameFinished False (''A file named '' @ newName @ '' already exists.''))
        else
          (case fRename Q s p destPath of (success, s1) \<Rightarrow>
             (s1, RenameFinished success
               (if \<not> success then ''Failed to rename to '' @ newName else []))))"

definition delete_op :: "nat \<Rightarrow> 'fs qfs \<Rightarrow> path \<Rightarrow> bool \<Rightarrow> 'fs \<Rightarrow> ('fs \<times> fo_signal) option" where
  "delete_op fuel Q p permanent s =
     (case performDelete fuel Q p permanent s of
        None \<Rightarrow> None
      | Some (success, s1) \<Rightarrow>
          Some (s1, DeleteFinished success
            (if \<not> success then ''Failed to delete '' @ pFileName Q p else [])))"

definition createFolder_op :: "'fs qfs \<Rightarrow> path \<Rightarrow> string \<Rightarrow> 'fs \<Rightarrow> 'fs \<times> fo_signal" where
  "createFolder_op Q parentDir name s =
     (if \<not> isSafeName name then (s, CreateFolderFinished False (''Invalid folder name: '' @ name))
      else
        (case dMkpath Q s (pJoin Q parentDir name) of (success, s1) \<Rightarrow>
           (s1, CreateFolderFinished success
             (if \<not> success then ''Failed to create folder '' @ name else []))))"

definition createFile_op :: "'fs qfs \<Rightarrow> path \<Rightarrow> string \<Rightarrow> 'fs \<Rightarrow> 'fs \<times> fo_signal" where
  "createFile_op Q parentDir name s =
     (if \<not> isSafeName name then (s, CreateFileFinished False (''Invalid file name: '' @ name))
      else
        (case fCreate Q s (pJoin Q parentDir name) of
           (None, s1) \<Rightarrow> (s1, CreateFileFinished True [])
         | (Some e, s1) \<Rightarrow>
             (s1, CreateFileFinished False (''Failed to create file '' @ name @ '': '' @ e))))"

definition duplicate_name :: "'fs qfs \<Rightarrow> path \<Rightarrow> nat \<Rightarrow> string" where
  "duplicate_name Q p i =
     (if i = 1 then argMulti Q ''%1 (copy)%2'' [pCompleteBase Q p, dot_ext (pSuffix Q p)]
      else argChain Q ''%1 (copy %2)%3'' [pCompleteBase Q p, numStr Q i, dot_ext (pSuffix Q p)])"

definition duplicate_target :: "'fs qfs \<Rightarrow> path \<Rightarrow> 'fs \<Rightarrow> path" where
  "duplicate_target Q p s =
     probe (fExists Q s) (\<lambda>i. pDir Q p @ ''/'' @ duplicate_name Q p i) 1 999 []"

definition duplicate_op :: "nat \<Rightarrow> 'fs qfs \<Rightarrow> path \<Rightarrow> 'fs \<Rightarrow> ('fs \<times> fo_signal) option" where
  "duplicate_op fuel Q p s =
     (let newPath = duplicate_target Q p s in
      (case (if fIsDir Q s p then performRecursiveCopy fuel Q p newPath s
             else Some (fCopy Q s p newPath)) of
         None \<Rightarrow> None
       | Some (success, s1) \<Rightarrow>
           Some (s1, DuplicateFinished success
             (if \<not> success then ''Failed to duplicate '' @ pFileName Q p else []))))"

definition getFileInfo ::
  "(rat \<Rightarrow> nat \<Rightarrow> string) \<Rightarrow> (int \<Rightarrow> string) \<Rightarrow> (path \<Rightarrow> qfileinfo) \<Rightarrow> (path \<Rightarrow> qstorage) \<Rightarrow> path
   \<Rightarrow> (string \<times> variant) list" where
  "getFileInfo fmt num stat storage p =
     (let fi = stat p; st = storage p in
      if \<not> qi_exists fi then []
      else
        [(''name'', VStr (qi_fileName fi)),
         (''path'', VStr (qi_absoluteFilePath fi)),
         (''size'', VInt (qi_size fi)),
         (''sizeHuman'', VStr (FileOperations_humanSize fmt num (qi_size fi))),
         (''isDir'', VBool (qi_isDir fi)),
         (''isFile'', VBool (qi_isFile fi)),
         (''isSymlink'', VBool (qi_isSymLink fi)),
         (''isHidden'', VBool (qi_isHidden fi)),
         (''isReadable'', VBool (qi_isReadable fi)),
         (''isWritable'', VBool (qi_isWritable fi)),
         (''isExecutable'', VBool (qi_isExecutable fi)),
         (''lastModified'', VTime (qi_lastModified fi)),
         (''lastAccessed'', VTime (qi_lastRead fi)),
         (''created'', VTime (qi_birthTime fi)),
         (''owner'', VStr (qi_owner fi)),
         (''group'', VStr (qi_group fi)),
         (''filesystem'', VStr (st_fileSystemType st)),
         (''fsTotal'', VInt (st_bytesTotal st)),
         (''fsUsed'', VInt (st_bytesTotal st - st_bytesAvailable st)),
         (''fsFree'', VInt (st_bytesAvailable st))])"

text \<open>The two launchers, for Linux: \<open>start\<close> stands for \<open>QProcess::startDetached\<close>. Each gives
  the commands started and the signals emitted.\<close>

definition openFile_op ::
  "'fs qfs \<Rightarrow> (string \<Rightarrow> string list \<Rightarrow> bool) \<Rightarrow> path \<Rightarrow> 'fs \<Rightarrow> (string \<times> string list) list \<times> fo_signal list" where
  "openFile_op Q start p s =
     (if \<not> fExists Q s p then ([], [OperationProgress (''File does not exist: '' @ p)])
      else
        ([(''xdg-open'', [p])],
         if \<not> start ''xdg-open'' [p] then [OperationProgress (''Could not open '' @ p)] else []))"

definition openInTerminal_op ::
  "'fs qfs \<Rightarrow> (string \<Rightarrow> string list \<Rightarrow> bool) \<Rightarrow> (path \<Rightarrow> path) \<Rightarrow> path \<Rightarrow> 'fs
   \<Rightarrow> (string \<times> string list) list \<times> fo_signal list" where
  "openInTerminal_op Q start absolutePath p s =
     (let dir = (if fIsDir Q s p then p else absolutePath p) in
      ([(''qterminal'', [''--workdir'', dir])],
       if \<not> start ''qterminal'' [''--workdir'', dir]
       then [OperationProgress (''Could not open terminal at '' @ dir)] else []))"

end
