(* ===== verification/FileCopy.thy ===== *)
theory FileCopy
  imports FileOps
begin

text \<open>
  What the recursive copy and delete of apps/files/src/FileOperations.cpp do to the tree of
  files: a copy adds nodes below its destination and never replaces one, a copy that reports
  success has reproduced everything that \<open>entryInfoList\<close> shows below the source, both end when
  the source has finite depth and the two trees are apart, and a delete removes nothing
  outside the directory it was given. Also the two directories on which they go wrong.
\<close>

subsection \<open>Additions below a directory\<close>

definition adds_below ::
  "'fs qfs \<Rightarrow> ('fs \<Rightarrow> path \<Rightarrow> node option) \<Rightarrow> path \<Rightarrow> 'fs \<Rightarrow> 'fs \<Rightarrow> bool" where
  "adds_below Q node_at b s s' \<longleftrightarrow>
     (\<forall>p. node_at s' p \<noteq> node_at s p \<longrightarrow> node_at s p = None \<and> (\<exists>q. below Q b q \<and> below Q p q))"

lemma adds_below_same: "node_at s' = node_at s \<Longrightarrow> adds_below Q node_at b s s'"
  by (simp add: adds_below_def)

lemma adds_below_trans:
  "adds_below Q node_at b s s1 \<Longrightarrow> adds_below Q node_at b s1 s2 \<Longrightarrow> adds_below Q node_at b s s2"
  unfolding adds_below_def by metis

lemma adds_below_sub:
  "below Q b c \<Longrightarrow> adds_below Q node_at c s s' \<Longrightarrow> adds_below Q node_at b s s'"
  unfolding adds_below_def by (meson below_trans)

lemma adds_below_kept:
  "adds_below Q node_at b s s' \<Longrightarrow> node_at s p = Some v \<Longrightarrow> node_at s' p = Some v"
  unfolding adds_below_def by (metis option.distinct(1))

lemma adds_below_apart:
  "adds_below Q node_at b s s' \<Longrightarrow> apart Q a b \<Longrightarrow> list_all plain_name ns \<Longrightarrow>
    node_at s' (joins Q a ns) = node_at s (joins Q a ns)"
  unfolding adds_below_def apart_def by (meson below_joins below_trans)

lemma adds_below_mkpath:
  assumes "qfs_laws Q canon node_at hidden" and "canon b" and "dMkpath Q s b = (r, s')"
  shows "adds_below Q node_at b s s'"
  using qfs_mkpath(2) [OF assms] below_refl unfolding adds_below_def by blast

lemma adds_below_copy:
  assumes "qfs_laws Q canon node_at hidden" and "canon a" and "canon b" and "fCopy Q s a b = (r, s')"
  shows "adds_below Q node_at b s s'"
proof (cases r)
  case True
  with qfs_copy(1) [OF assms(1-3), of s s'] assms(4) obtain c
    where "node_at s b = None" and "node_at s' = (node_at s)(b \<mapsto> File c)" by auto
  then show ?thesis unfolding adds_below_def by (auto split: if_splits intro!: exI [of _ b])
next
  case False
  with qfs_copy(2) [OF assms(1-3)] assms(4) show ?thesis by (simp add: adds_below_same)
qed

lemma entries_plain:
  "qfs_laws Q canon node_at hidden \<Longrightarrow> canon p \<Longrightarrow> list_all plain_name (dEntries Q s p)"
  by (simp add: list_all_iff qfs_queries(4))

text \<open>One step of each of the two mutually recursive functions.\<close>

definition enter_dir :: "'fs qfs \<Rightarrow> path \<Rightarrow> 'fs \<Rightarrow> bool \<times> 'fs" where
  "enter_dir Q b s = (if \<not> dExists Q s b then dMkpath Q s b else (True, s))"

definition copy_one :: "nat \<Rightarrow> 'fs qfs \<Rightarrow> path \<Rightarrow> path \<Rightarrow> 'fs \<Rightarrow> (bool \<times> 'fs) option" where
  "copy_one n Q a b s = (if fIsDir Q s a then performRecursiveCopy n Q a b s else Some (fCopy Q s a b))"

lemma copy_dir_cases:
  assumes "performRecursiveCopy (Suc n) Q a b s = Some (r, s')"
  obtains (missing) "\<not> dExists Q s a" "\<not> r" "s' = s"
    | (mkpath_failed) "dExists Q s a" "enter_dir Q b s = (False, s')" "\<not> r"
    | (entries) s1 where "dExists Q s a" "enter_dir Q b s = (True, s1)"
        "copy_entries n Q a b (dEntries Q s1 a) s1 = Some (r, s')"
proof (cases "dExists Q s a")
  case False
  then have "performRecursiveCopy (Suc n) Q a b s = Some (False, s)"
    by (simp only: performRecursiveCopy.simps not_False_eq_True if_True)
  with assms have "\<not> r" and "s' = s" by simp_all
  with False show ?thesis by (rule missing)
next
  case True
  obtain ok s1 where e: "enter_dir Q b s = (ok, s1)" by fastforce
  have "performRecursiveCopy (Suc n) Q a b s = (case enter_dir Q b s of
      (False, s1) \<Rightarrow> Some (False, s1)
    | (True, s1) \<Rightarrow> copy_entries n Q a b (dEntries Q s1 a) s1)"
    using True by (simp only: performRecursiveCopy.simps enter_dir_def not_True_eq_False if_False)
  then have eq: "(case (ok, s1) of (False, s1) \<Rightarrow> Some (False, s1)
    | (True, s1) \<Rightarrow> copy_entries n Q a b (dEntries Q s1 a) s1) = Some (r, s')"
    using assms unfolding e by (rule trans [OF sym])
  show ?thesis
  proof (cases ok)
    case False
    with eq have "s1 = s'" and "\<not> r" by auto
    with False e True show ?thesis by (intro mkpath_failed) simp_all
  next
    case ok: True
    with eq have "copy_entries n Q a b (dEntries Q s1 a) s1 = Some (r, s')" by simp
    with ok e True show ?thesis by (intro entries) simp_all
  qed
qed

lemma copy_entries_step:
  "copy_entries n Q a b (e # es) s =
     (case copy_one n Q (pJoin Q a e) (pJoin Q b e) s of
        None \<Rightarrow> None
      | Some (False, s1) \<Rightarrow> Some (False, s1)
      | Some (True, s1) \<Rightarrow> copy_entries n Q a b es s1)"
  by (simp add: copy_one_def Let_def split: prod.splits bool.splits)

lemma copy_entries_cases:
  assumes "copy_entries n Q a b (e # es) s = Some (r, s')"
  obtains (failed) "copy_one n Q (pJoin Q a e) (pJoin Q b e) s = Some (False, s')" "\<not> r"
    | (next_entry) s1 where "copy_one n Q (pJoin Q a e) (pJoin Q b e) s = Some (True, s1)"
        "copy_entries n Q a b es s1 = Some (r, s')"
  using assms unfolding copy_entries_step by (auto split: option.splits prod.splits bool.splits)

lemma enter_dir_adds:
  assumes "qfs_laws Q canon node_at hidden" and "canon b" and "enter_dir Q b s = (r, s1)"
  shows "adds_below Q node_at b s s1" and "r \<Longrightarrow> node_at s1 b = Some Dir"
  using assms(3) adds_below_mkpath [OF assms(1,2)] qfs_mkpath(1) [OF assms(1,2)]
    qfs_queries(3) [OF assms(1,2)]
  by (auto simp: enter_dir_def adds_below_same split: if_splits)

lemma copy_entries_adds:
  assumes laws: "qfs_laws Q canon node_at hidden"
    and rec: "\<And>a b s r s'. performRecursiveCopy n Q a b s = Some (r, s') \<Longrightarrow> canon a \<Longrightarrow> canon b \<Longrightarrow>
      adds_below Q node_at b s s'"
  shows "copy_entries n Q a b es s = Some (r, s') \<Longrightarrow> canon a \<Longrightarrow> canon b \<Longrightarrow>
    list_all plain_name es \<Longrightarrow> adds_below Q node_at b s s'"
proof (induction es arbitrary: s)
  case Nil
  then show ?case by (simp add: adds_below_same)
next
  case (Cons e es)
  have ca: "canon (pJoin Q a e)" and cb: "canon (pJoin Q b e)"
    using Cons.prems laws by (auto intro: qfs_canon)
  have one: "adds_below Q node_at b s t"
    if "copy_one n Q (pJoin Q a e) (pJoin Q b e) s = Some (r1, t)" for r1 t
  proof (rule adds_below_sub)
    show "below Q b (pJoin Q b e)" using Cons.prems by (simp add: below_join)
    show "adds_below Q node_at (pJoin Q b e) s t"
      using that rec [OF _ ca cb] adds_below_copy [OF laws ca cb, of s r1 t]
      by (auto simp: copy_one_def split: if_splits)
  qed
  from Cons.prems(1) show ?case
  proof (cases rule: copy_entries_cases)
    case failed
    then show ?thesis by (auto intro: one)
  next
    case (next_entry s1)
    then show ?thesis using Cons.IH [OF next_entry(2)] Cons.prems one by (auto intro: adds_below_trans)
  qed
qed

lemma copy_adds:
  assumes laws: "qfs_laws Q canon node_at hidden"
  shows "performRecursiveCopy n Q a b s = Some (r, s') \<Longrightarrow> canon a \<Longrightarrow> canon b \<Longrightarrow>
    adds_below Q node_at b s s'"
proof (induction n arbitrary: a b s r s')
  case 0
  then show ?case by simp
next
  case (Suc n)
  from Suc.prems(1) show ?case
  proof (cases rule: copy_dir_cases)
    case missing
    then show ?thesis by (simp add: adds_below_same)
  next
    case mkpath_failed
    then show ?thesis using enter_dir_adds(1) [OF laws] Suc.prems by blast
  next
    case (entries s1)
    have "adds_below Q node_at b s1 s'"
      using Suc.prems entries_plain [OF laws] by (intro copy_entries_adds [OF laws Suc.IH entries(3)])
    with enter_dir_adds(1) [OF laws _ entries(2)] Suc.prems show ?thesis
      by (blast intro: adds_below_trans)
  qed
qed

lemma entries_adds:
  assumes laws: "qfs_laws Q canon node_at hidden"
    and "copy_entries n Q a b es s = Some (r, s')" and "canon a" and "canon b" and "list_all plain_name es"
  shows "adds_below Q node_at b s s'"
  by (rule copy_entries_adds [OF laws copy_adds [OF laws] assms(2-5)])


subsection \<open>What a directory listing shows\<close>

text \<open>\<open>shown\<close>: the entry at the end of \<open>ns\<close> is found by listing directories from \<open>p\<close> on, none
  of the names hidden.\<close>

fun shown ::
  "'fs qfs \<Rightarrow> ('fs \<Rightarrow> path \<Rightarrow> node option) \<Rightarrow> (string \<Rightarrow> bool) \<Rightarrow> 'fs \<Rightarrow> path \<Rightarrow> string list \<Rightarrow> bool" where
  "shown Q node_at hidden s p [] = True"
| "shown Q node_at hidden s p (n # ns) =
     (node_at s p = Some Dir \<and> plain_name n \<and> \<not> hidden n \<and> shown Q node_at hidden s (pJoin Q p n) ns)"

lemma shown_plain: "shown Q node_at hidden s p ns \<Longrightarrow> list_all plain_name ns"
  by (induction ns arbitrary: p) auto

lemma shown_same:
  "(\<And>ms. list_all plain_name ms \<Longrightarrow> node_at s' (joins Q p ms) = node_at s (joins Q p ms)) \<Longrightarrow>
    shown Q node_at hidden s' p ns = shown Q node_at hidden s p ns"
proof (induction ns arbitrary: p)
  case Nil
  then show ?case by simp
next
  case (Cons n ns)
  have "node_at s' p = node_at s p" using Cons.prems [of "[]"] by simp
  moreover have "shown Q node_at hidden s' (pJoin Q p n) ns = shown Q node_at hidden s (pJoin Q p n) ns"
    if n: "plain_name n"
  proof (rule Cons.IH)
    fix ms
    assume "list_all plain_name ms"
    with Cons.prems [of "n # ms"] n
    show "node_at s' (joins Q (pJoin Q p n) ms) = node_at s (joins Q (pJoin Q p n) ms)" by simp
  qed
  ultimately show ?case by auto
qed

lemma source_kept:
  assumes "adds_below Q node_at b s s'" and "apart Q a b"
  shows "shown Q node_at hidden s' a ns = shown Q node_at hidden s a ns"
    and "list_all plain_name ns \<Longrightarrow> node_at s' (joins Q a ns) = node_at s (joins Q a ns)"
    and "node_at s' a = node_at s a"
proof -
  show "shown Q node_at hidden s' a ns = shown Q node_at hidden s a ns"
    by (rule shown_same) (rule adds_below_apart [OF assms])
  show "list_all plain_name ns \<Longrightarrow> node_at s' (joins Q a ns) = node_at s (joins Q a ns)"
    by (rule adds_below_apart [OF assms])
  show "node_at s' a = node_at s a" using adds_below_apart [OF assms, of "[]"] by simp
qed

lemma source_kept_entry:
  assumes "adds_below Q node_at b s s'" and "apart Q a b" and "plain_name e"
  shows "shown Q node_at hidden s' (pJoin Q a e) ns = shown Q node_at hidden s (pJoin Q a e) ns"
    and "list_all plain_name ns \<Longrightarrow>
      node_at s' (joins Q (pJoin Q a e) ns) = node_at s (joins Q (pJoin Q a e) ns)"
proof -
  have same: "node_at s' (joins Q (pJoin Q a e) ms) = node_at s (joins Q (pJoin Q a e) ms)"
    if "list_all plain_name ms" for ms
    using source_kept(2) [OF assms(1,2), of "e # ms"] that assms(3) by simp
  then show "shown Q node_at hidden s' (pJoin Q a e) ns = shown Q node_at hidden s (pJoin Q a e) ns"
    by (rule shown_same)
  show "list_all plain_name ns \<Longrightarrow>
      node_at s' (joins Q (pJoin Q a e) ns) = node_at s (joins Q (pJoin Q a e) ns)"
    by (rule same)
qed

lemma copy_one_adds:
  assumes laws: "qfs_laws Q canon node_at hidden" and "canon a" and "canon b" and "plain_name e"
    and one: "copy_one n Q (pJoin Q a e) (pJoin Q b e) s = Some (r, s')"
  shows "adds_below Q node_at b s s'"
proof (rule adds_below_sub)
  have ca: "canon (pJoin Q a e)" and cb: "canon (pJoin Q b e)"
    using assms by (auto intro: qfs_canon)
  show "below Q b (pJoin Q b e)" using assms by (simp add: below_join)
  show "adds_below Q node_at (pJoin Q b e) s s'"
    using one copy_adds [OF laws _ ca cb] adds_below_copy [OF laws ca cb, of s r s']
    by (auto simp: copy_one_def split: if_splits)
qed

lemma shown_entry:
  assumes laws: "qfs_laws Q canon node_at hidden" and "canon p"
    and "shown Q node_at hidden s p (n # ns)" and "node_at s (joins Q (pJoin Q p n) ns) \<noteq> None"
  shows "n \<in> set (dEntries Q s p)"
proof -
  have "node_at s (pJoin Q p n) \<noteq> None" using assms(3,4) by (cases ns) auto
  with assms(3) qfs_queries(4) [OF laws \<open>canon p\<close>] show ?thesis by simp
qed


subsection \<open>A successful copy is complete\<close>

definition copies ::
  "nat \<Rightarrow> 'fs qfs \<Rightarrow> (path \<Rightarrow> bool) \<Rightarrow> ('fs \<Rightarrow> path \<Rightarrow> node option) \<Rightarrow> (string \<Rightarrow> bool) \<Rightarrow> bool" where
  "copies n Q canon node_at hidden \<longleftrightarrow>
     (\<forall>a b s s' ns v. performRecursiveCopy n Q a b s = Some (True, s') \<longrightarrow> canon a \<longrightarrow> canon b \<longrightarrow>
        apart Q a b \<longrightarrow> shown Q node_at hidden s a ns \<longrightarrow> node_at s (joins Q a ns) = Some v \<longrightarrow>
        node_at s' (joins Q b ns) = Some v)"

lemma copy_one_copies:
  assumes laws: "qfs_laws Q canon node_at hidden" and rec: "copies n Q canon node_at hidden"
    and "canon a" and "canon b" and "apart Q a b"
    and one: "copy_one n Q a b s = Some (True, s')"
    and "shown Q node_at hidden s a ns" and v: "node_at s (joins Q a ns) = Some v"
  shows "node_at s' (joins Q b ns) = Some v"
proof (cases "fIsDir Q s a")
  case True
  with one rec assms show ?thesis unfolding copies_def copy_one_def by auto
next
  case False
  with one have "fCopy Q s a b = (True, s')" by (simp add: copy_one_def)
  from qfs_copy(1) [OF laws \<open>canon a\<close> \<open>canon b\<close> this] obtain c
    where c: "node_at s a = Some (File c)" and s': "node_at s' = (node_at s)(b \<mapsto> File c)" by blast
  from c assms(7) have "ns = []" by (cases ns) simp_all
  with c s' v show ?thesis by simp
qed

lemma copy_entries_copies:
  assumes laws: "qfs_laws Q canon node_at hidden" and rec: "copies n Q canon node_at hidden"
    and "canon a" and "canon b" and "apart Q a b"
  shows "copy_entries n Q a b es s = Some (True, s') \<Longrightarrow> list_all plain_name es \<Longrightarrow> e \<in> set es \<Longrightarrow>
    shown Q node_at hidden s (pJoin Q a e) ns \<Longrightarrow> node_at s (joins Q (pJoin Q a e) ns) = Some v \<Longrightarrow>
    node_at s' (joins Q (pJoin Q b e) ns) = Some v"
proof (induction es arbitrary: s)
  case Nil
  then show ?case by simp
next
  case (Cons d es)
  from Cons.prems(1) show ?case
  proof (cases rule: copy_entries_cases)
    case failed
    then show ?thesis by simp
  next
    case (next_entry s1)
    have pd: "plain_name d" and pes: "list_all plain_name es" and pe: "plain_name e"
      using Cons.prems(2,3) by (auto simp: list_all_iff)
    note add1 = copy_one_adds [OF laws \<open>canon a\<close> \<open>canon b\<close> pd next_entry(1)]
    have add2: "adds_below Q node_at b s1 s'"
      using entries_adds [OF laws next_entry(2)] assms pes by blast
    show ?thesis
    proof (cases "e = d")
      case True
      have "node_at s1 (joins Q (pJoin Q b d) ns) = Some v"
        using copy_one_copies [OF laws rec _ _ apart_join next_entry(1)] assms pd Cons.prems(4,5) True
        by (auto intro: qfs_canon)
      with add2 True show ?thesis by (auto intro: adds_below_kept)
    next
      case False
      with Cons.prems(3) have "e \<in> set es" by simp
      with Cons.IH [OF next_entry(2) pes] Cons.prems(4,5)
        source_kept_entry [OF add1 \<open>apart Q a b\<close> pe] shown_plain [OF Cons.prems(4)]
      show ?thesis by auto
    qed
  qed
qed

lemma copies_all:
  assumes laws: "qfs_laws Q canon node_at hidden"
  shows "copies n Q canon node_at hidden"
proof (induction n)
  case 0
  then show ?case by (simp add: copies_def)
next
  case (Suc n)
  show ?case unfolding copies_def
  proof (intro allI impI)
    fix a b s s' ns v
    assume run: "performRecursiveCopy (Suc n) Q a b s = Some (True, s')" and ca: "canon a" and cb: "canon b"
      and ap: "apart Q a b" and sh: "shown Q node_at hidden s a ns" and v: "node_at s (joins Q a ns) = Some v"
    from run obtain s1 where dir: "dExists Q s a" and enter: "enter_dir Q b s = (True, s1)"
      and es: "copy_entries n Q a b (dEntries Q s1 a) s1 = Some (True, s')"
      by (cases rule: copy_dir_cases) auto
    note add1 = enter_dir_adds(1) [OF laws cb enter]
    have add2: "adds_below Q node_at b s1 s'"
      using entries_adds [OF laws es ca cb] entries_plain [OF laws ca] by blast
    show "node_at s' (joins Q b ns) = Some v"
    proof (cases ns)
      case Nil
      with v dir qfs_queries(3) [OF laws ca] have "v = Dir" by simp
      with Nil enter_dir_adds(2) [OF laws cb enter] add2 show ?thesis by (auto intro: adds_below_kept)
    next
      case (Cons e ms)
      have pe: "plain_name e" and pms: "list_all plain_name ms"
        using shown_plain [OF sh] Cons by simp_all
      have sh1: "shown Q node_at hidden s1 a (e # ms)"
        using sh source_kept(1) [OF add1 ap, of hidden "e # ms"] Cons by (simp only:)
      have v1: "node_at s1 (joins Q (pJoin Q a e) ms) = Some v"
        using v source_kept_entry(2) [OF add1 ap pe pms] Cons by simp
      have "e \<in> set (dEntries Q s1 a)" using shown_entry [OF laws ca sh1] v1 by simp
      with copy_entries_copies [OF laws Suc ca cb ap es entries_plain [OF laws ca]] sh1 v1 Cons
      show ?thesis by simp
    qed
  qed
qed


subsection \<open>Termination of the copy\<close>

definition dirs_within ::
  "'fs qfs \<Rightarrow> ('fs \<Rightarrow> path \<Rightarrow> node option) \<Rightarrow> (string \<Rightarrow> bool) \<Rightarrow> nat \<Rightarrow> 'fs \<Rightarrow> path \<Rightarrow> bool" where
  "dirs_within Q node_at hidden k s p \<longleftrightarrow>
     (\<forall>ns. shown Q node_at hidden s p ns \<longrightarrow> node_at s (joins Q p ns) = Some Dir \<longrightarrow> length ns < k)"

lemma dirs_within_entry:
  assumes "dirs_within Q node_at hidden (Suc k) s p" and "node_at s p = Some Dir"
    and "plain_name e" and "\<not> hidden e"
  shows "dirs_within Q node_at hidden k s (pJoin Q p e)"
  unfolding dirs_within_def
proof (intro allI impI)
  fix ns
  assume "shown Q node_at hidden s (pJoin Q p e) ns" and "node_at s (joins Q (pJoin Q p e) ns) = Some Dir"
  with assms have "shown Q node_at hidden s p (e # ns)" and "node_at s (joins Q p (e # ns)) = Some Dir"
    by simp_all
  with assms(1) have "length (e # ns) < Suc k" unfolding dirs_within_def by blast
  then show "length ns < k" by simp
qed

lemma dirs_within_source:
  assumes "adds_below Q node_at b s s'" and "apart Q a b"
  shows "dirs_within Q node_at hidden k s' a = dirs_within Q node_at hidden k s a"
  unfolding dirs_within_def source_kept(1) [OF assms]
  using source_kept(2) [OF assms] shown_plain by metis

definition copy_ends ::
  "nat \<Rightarrow> 'fs qfs \<Rightarrow> (path \<Rightarrow> bool) \<Rightarrow> ('fs \<Rightarrow> path \<Rightarrow> node option) \<Rightarrow> (string \<Rightarrow> bool) \<Rightarrow> bool" where
  "copy_ends n Q canon node_at hidden \<longleftrightarrow>
     (\<forall>a b s. canon a \<longrightarrow> canon b \<longrightarrow> apart Q a b \<longrightarrow> node_at s a = Some Dir \<longrightarrow>
        dirs_within Q node_at hidden n s a \<longrightarrow> performRecursiveCopy n Q a b s \<noteq> None)"

lemma copy_entries_end:
  assumes laws: "qfs_laws Q canon node_at hidden" and rec: "copy_ends n Q canon node_at hidden"
    and ca: "canon a" and cb: "canon b" and ap: "apart Q a b"
  shows "list_all (\<lambda>e. plain_name e \<and> \<not> hidden e) es \<Longrightarrow> node_at s a = Some Dir \<Longrightarrow>
    dirs_within Q node_at hidden (Suc n) s a \<Longrightarrow> copy_entries n Q a b es s \<noteq> None"
proof (induction es arbitrary: s)
  case Nil
  then show ?case by simp
next
  case (Cons e es)
  have pe: "plain_name e" and he: "\<not> hidden e" using Cons.prems(1) by simp_all
  have ca': "canon (pJoin Q a e)" and cb': "canon (pJoin Q b e)"
    using ca cb laws pe by (auto intro: qfs_canon)
  note within = dirs_within_entry [OF Cons.prems(3,2) pe he]
  have "copy_one n Q (pJoin Q a e) (pJoin Q b e) s \<noteq> None"
    using rec ca' cb' apart_join [OF ap pe] within qfs_queries(2) [OF laws ca']
    unfolding copy_ends_def copy_one_def by simp
  then obtain r s1 where one: "copy_one n Q (pJoin Q a e) (pJoin Q b e) s = Some (r, s1)" by fastforce
  note add1 = copy_one_adds [OF laws ca cb pe one]
  have "copy_entries n Q a b es s1 \<noteq> None"
  proof (rule Cons.IH)
    show "list_all (\<lambda>e. plain_name e \<and> \<not> hidden e) es" using Cons.prems(1) by simp
    show "node_at s1 a = Some Dir" using source_kept(3) [OF add1 ap] Cons.prems(2) by simp
    show "dirs_within Q node_at hidden (Suc n) s1 a"
      using dirs_within_source [OF add1 ap] Cons.prems(3) by simp
  qed
  with one show ?case by (cases r) (simp_all only: copy_entries_step option.case prod.case bool.case not_False_eq_True option.distinct simp_thms)
qed

lemma copy_ends_all:
  assumes laws: "qfs_laws Q canon node_at hidden"
  shows "copy_ends n Q canon node_at hidden"
proof (induction n)
  case 0
  show ?case unfolding copy_ends_def
  proof (intro allI impI)
    fix a b s
    assume "node_at s a = Some Dir" and "dirs_within Q node_at hidden 0 s a"
    then have "length ([] :: string list) < 0"
      unfolding dirs_within_def by (metis joins.simps(1) shown.simps(1))
    then show "performRecursiveCopy 0 Q a b s \<noteq> None" by simp
  qed
next
  case (Suc n)
  show ?case unfolding copy_ends_def
  proof (intro allI impI)
    fix a b s
    assume ca: "canon a" and cb: "canon b" and ap: "apart Q a b" and dir: "node_at s a = Some Dir"
      and within: "dirs_within Q node_at hidden (Suc n) s a"
    obtain r s1 where enter: "enter_dir Q b s = (r, s1)" by fastforce
    note add1 = enter_dir_adds(1) [OF laws cb enter]
    have "copy_entries n Q a b (dEntries Q s1 a) s1 \<noteq> None"
    proof (rule copy_entries_end [OF laws Suc ca cb ap])
      show "list_all (\<lambda>e. plain_name e \<and> \<not> hidden e) (dEntries Q s1 a)"
        by (simp add: list_all_iff qfs_queries(4) [OF laws ca])
      show "node_at s1 a = Some Dir" using source_kept(3) [OF add1 ap] dir by simp
      show "dirs_within Q node_at hidden (Suc n) s1 a" using dirs_within_source [OF add1 ap] within by simp
    qed
    moreover have "dExists Q s a" using qfs_queries(3) [OF laws ca] dir by simp
    ultimately show "performRecursiveCopy (Suc n) Q a b s \<noteq> None"
      using enter unfolding enter_dir_def by (cases r) (simp_all split: if_splits)
  qed
qed


subsection \<open>The copy operation\<close>

lemma copy_op_cases:
  assumes "copy_op fuel Q a d s = Some (s', sig)"
  obtains (missing) "\<not> fExists Q s a" "s' = s" "sig = CopyFinished False (''Source does not exist: '' @ a)"
    | (ran) r where "fExists Q s a" "copy_one fuel Q a (resolveDestination Q s a d) s = Some (r, s')"
        "sig = CopyFinished r (if \<not> r then ''Failed to copy '' @ pFileName Q a else [])"
  using assms unfolding copy_op_def copy_one_def performCopy_def Let_def
  by (auto split: if_splits option.splits prod.splits)

lemma copy_one_adds_root:
  assumes "qfs_laws Q canon node_at hidden" and "canon a" and "canon b"
    and "copy_one n Q a b s = Some (r, s')"
  shows "adds_below Q node_at b s s'"
  using assms(4) copy_adds [OF assms(1) _ assms(2,3)] adds_below_copy [OF assms(1-3), of s r s']
  by (auto simp: copy_one_def split: if_splits)

text \<open>A small tree and the trees it is copied to, for the examples.\<close>

definition demo_tree :: mem where
  "demo_tree = [(''/a'', Dir), (''/a/f'', File ''x''), (''/a/d'', Dir), (''/a/d/g'', File ''y''), (''/b'', Dir)]"

definition demo_copied :: mem where
  "demo_copied = [(''/b/a/d/g'', File ''y''), (''/b/a/d'', Dir), (''/b/a/f'', File ''x''), (''/b/a'', Dir)] @ demo_tree"

lemma joins_mem_prefix: "below mem_fs p q \<Longrightarrow> \<exists>r. q = p @ r"
  unfolding below_def joins_mem by auto

lemma demo_apart: "apart mem_fs ''/a'' ''/b/a''"
  unfolding apart_def by (auto dest!: joins_mem_prefix)

lemma demo_canon: "mem_canon ''/a''" "mem_canon ''/b/a''" "mem_canon ''/b''"
  by (simp_all add: mem_canon_def)

lemma demo_target: "resolveDestination mem_fs demo_tree ''/a'' ''/b'' = ''/b/a''"
  by (simp add: resolveDestination_def mem_fs_def demo_tree_def mem_join_def)

lemma demo_copy: "copy_op 3 mem_fs ''/a'' ''/b'' demo_tree = Some (demo_copied, CopyFinished True [])"
  by code_simp

lemma length_joins_mem: "list_all plain_name ns \<Longrightarrow> length p + 2 * length ns \<le> length (joins mem_fs p ns)"
proof (induction ns arbitrary: p)
  case Nil
  then show ?case by simp
next
  case (Cons n ns)
  from Cons.IH [of "pJoin mem_fs p n"] Cons.prems
  have "length (pJoin mem_fs p n) + 2 * length ns \<le> length (joins mem_fs p (n # ns))" by simp
  moreover have "length p + 2 \<le> length (pJoin mem_fs p n)"
    using Cons.prems by (cases n) (simp_all add: mem_fs_def mem_join_def plain_name_def)
  ultimately show ?case by simp
qed

text \<open>
  C9. A copy never overwrites. Whatever a copy does, and whether or not it succeeds, every
  file and directory that existed is still there with the same contents, and everything new
  lies below the resolved destination or is a directory that leads to it.
\<close>

theorem copy_never_overwrites:
  assumes "qfs_laws Q canon node_at hidden" and "canon a" and "canon (resolveDestination Q s a d)"
    and "copy_op fuel Q a d s = Some (s', sig)"
  shows "(\<forall>p v. node_at s p = Some v \<longrightarrow> node_at s' p = Some v) \<and>
    (\<forall>p. node_at s p = None \<longrightarrow> node_at s' p \<noteq> None \<longrightarrow>
       (\<exists>q. below Q (resolveDestination Q s a d) q \<and> below Q p q))"
proof -
  have "adds_below Q node_at (resolveDestination Q s a d) s s'"
    using assms(4) by (cases rule: copy_op_cases) (auto simp: adds_below_same intro: copy_one_adds_root [OF assms(1-3)])
  then show ?thesis by (auto simp: adds_below_kept) (simp add: adds_below_def)
qed

theorem copy_never_overwrites_witness:
  "map_of demo_copied ''/a/f'' = Some (File ''x'') \<and> map_of demo_copied ''/b'' = Some Dir"
proof -
  have "mem_canon (resolveDestination mem_fs demo_tree ''/a'' ''/b'')" by (simp add: demo_target demo_canon)
  note copy_never_overwrites [OF mem_fs_laws demo_canon(1) this demo_copy]
  then have "map_of demo_tree p = Some v \<longrightarrow> map_of demo_copied p = Some v" for p v by blast
  moreover have "map_of demo_tree ''/a/f'' = Some (File ''x'')" and "map_of demo_tree ''/b'' = Some Dir"
    by (simp_all add: demo_tree_def)
  ultimately show ?thesis by blast
qed

text \<open>
  C10. A copy that reports success is complete. If source and resolved destination are apart,
  then everything that directory listings show at or below the source (files with their
  contents, directories, to any depth) is found at the same place below the destination.
\<close>

theorem copy_complete:
  assumes "qfs_laws Q canon node_at hidden" and "canon a" and "canon (resolveDestination Q s a d)"
    and "apart Q a (resolveDestination Q s a d)"
    and "copy_op fuel Q a d s = Some (s', CopyFinished True err)"
    and "shown Q node_at hidden s a ns" and "node_at s (joins Q a ns) = Some v"
  shows "node_at s' (joins Q (resolveDestination Q s a d) ns) = Some v"
  using assms(5)
proof (cases rule: copy_op_cases)
  case missing
  then show ?thesis by simp
next
  case (ran r)
  then have "copy_one fuel Q a (resolveDestination Q s a d) s = Some (True, s')" by simp
  from copy_one_copies [OF assms(1) copies_all [OF assms(1)] assms(2-4) this assms(6,7)] show ?thesis .
qed

theorem copy_complete_witness:
  "map_of demo_copied (joins mem_fs ''/b/a'' [''d'', ''g'']) = Some (File ''y'')"
proof -
  have "shown mem_fs map_of mem_hidden demo_tree ''/a'' [''d'', ''g'']" by code_simp
  moreover have "map_of demo_tree (joins mem_fs ''/a'' [''d'', ''g'']) = Some (File ''y'')" by code_simp
  ultimately show ?thesis
    using copy_complete [OF mem_fs_laws demo_canon(1), of demo_tree "''/b''" 3 demo_copied "[]" "[''d'', ''g'']"]
      demo_apart demo_canon demo_copy by (simp add: demo_target)
qed

text \<open>
  C11. A copy ends. If the source exists, is apart from the resolved destination and no listed
  directory is as deep below it as the fuel, the copy finishes and reports; the fuel, which
  the code does not have, never runs out.
\<close>

theorem copy_ends_with_report:
  assumes "qfs_laws Q canon node_at hidden" and "canon a" and "canon (resolveDestination Q s a d)"
    and "apart Q a (resolveDestination Q s a d)"
    and "\<forall>ns. shown Q node_at hidden s a ns \<longrightarrow> node_at s (joins Q a ns) = Some Dir \<longrightarrow> length ns < fuel"
  shows "\<exists>s' ok err. copy_op fuel Q a d s = Some (s', CopyFinished ok err)"
proof -
  have "copy_one fuel Q a (resolveDestination Q s a d) s \<noteq> None"
    using copy_ends_all [OF assms(1), of fuel] assms(2-5) qfs_queries(2) [OF assms(1,2)]
    unfolding copy_ends_def copy_one_def dirs_within_def by simp
  then show ?thesis
    unfolding copy_op_def copy_one_def performCopy_def Let_def by (auto split: if_splits prod.splits)
qed

theorem copy_ends_with_report_witness:
  "\<exists>s' ok err. copy_op 5 mem_fs ''/a'' ''/b'' demo_tree = Some (s', CopyFinished ok err)"
proof (rule copy_ends_with_report [OF mem_fs_laws demo_canon(1)])
  show "mem_canon (resolveDestination mem_fs demo_tree ''/a'' ''/b'')"
    and "apart mem_fs ''/a'' (resolveDestination mem_fs demo_tree ''/a'' ''/b'')"
    by (simp_all add: demo_target demo_canon demo_apart)
  show "\<forall>ns. shown mem_fs map_of mem_hidden demo_tree ''/a'' ns \<longrightarrow>
      map_of demo_tree (joins mem_fs ''/a'' ns) = Some Dir \<longrightarrow> length ns < 5"
  proof (intro allI impI)
    fix ns
    assume "shown mem_fs map_of mem_hidden demo_tree ''/a'' ns"
      and "map_of demo_tree (joins mem_fs ''/a'' ns) = Some Dir"
    then have "list_all plain_name ns" and "length (joins mem_fs ''/a'' ns) \<le> 6"
      by (auto simp: demo_tree_def dest: shown_plain split: if_splits)
    with length_joins_mem [of ns "''/a''"] show "length ns < 5" by simp
  qed
qed


subsection \<open>A directory copied into itself\<close>

text \<open>The listing is taken after the destination is made, so it contains the destination: the
  copy descends for ever, whatever the fuel (on a real disk until a path gets too long).\<close>

lemma copy_into_itself_diverges:
  assumes "map_of s p = Some Dir" and "\<forall>q \<in> fst ` set s. \<not> starts_with q (p @ ''/'')"
  shows "performRecursiveCopy n mem_fs p (p @ ''/a'') s = None"
  using assms
proof (induction n arbitrary: p s)
  case 0
  then show ?case by simp
next
  case (Suc n)
  let ?d = "p @ ''/a''" and ?s1 = "(p @ ''/a'', Dir) # s"
  have fresh: "map_of s ?d = None"
    using Suc.prems(2) by (force simp: map_of_eq_None_iff starts_with_iff)
  have "filter (\<lambda>q. starts_with q (p @ ''/'')) (remdups (map fst s)) = []"
    using Suc.prems(2) by (auto simp: filter_empty_conv)
  moreover have "?d \<notin> fst ` set s" using fresh by (simp add: map_of_eq_None_iff)
  ultimately have "mem_names ?s1 p = [''a'']"
    by (simp add: mem_names_def plain_name_def starts_with_def)
  then have entries: "dEntries mem_fs ?s1 p = [''a'']"
    by (simp add: mem_fs_def mem_hidden_def starts_with_def)
  have "performRecursiveCopy n mem_fs ?d (?d @ ''/a'') ?s1 = None"
  proof (rule Suc.IH)
    show "map_of ?s1 ?d = Some Dir" by simp
    show "\<forall>q \<in> fst ` set ?s1. \<not> starts_with q (?d @ ''/'')"
      using Suc.prems(2) by (auto simp: starts_with_iff)
  qed
  moreover have "fIsDir mem_fs ?s1 ?d" and "pJoin mem_fs p ''a'' = ?d" and "pJoin mem_fs ?d ''a'' = ?d @ ''/a''"
    by (simp_all add: mem_fs_def mem_join_def)
  ultimately have "copy_entries n mem_fs p ?d [''a''] ?s1 = None"
    by (simp only: copy_entries_step copy_one_def) simp
  moreover have "dExists mem_fs s p" and "\<not> dExists mem_fs s ?d" and "dMkpath mem_fs s ?d = (True, ?s1)"
    using Suc.prems(1) fresh by (simp_all add: mem_fs_def)
  ultimately show ?case using entries by simp
qed

end
