(* ===== verification/FileDelete.thy ===== *)
theory FileDelete
  imports FileCopy
begin

text \<open>
  The other operations of apps/files/src/FileOperations.cpp: the permanent delete takes
  nothing outside the path it is given, names typed by the user cannot lead out of the
  folder, a rename never replaces a file, a moved file is never lost even when the move has
  to copy and trash, and duplicates and trashed files get names that are free. Also where
  they go wrong: hidden entries keep a folder from being deleted, an existing file is
  emptied by createFile, and the fallback of moveToTrash leaves a file where it was.
\<close>

subsection \<open>Permanent delete\<close>

definition removes_below ::
  "'fs qfs \<Rightarrow> ('fs \<Rightarrow> path \<Rightarrow> node option) \<Rightarrow> path \<Rightarrow> 'fs \<Rightarrow> 'fs \<Rightarrow> bool" where
  "removes_below Q node_at p s s' \<longleftrightarrow>
     (\<forall>q. node_at s' q \<noteq> node_at s q \<longrightarrow> node_at s' q = None \<and> below Q p q)"

lemma removes_below_same: "node_at s' = node_at s \<Longrightarrow> removes_below Q node_at p s s'"
  by (simp add: removes_below_def)

lemma removes_below_trans:
  "removes_below Q node_at p s s1 \<Longrightarrow> removes_below Q node_at p s1 s2 \<Longrightarrow> removes_below Q node_at p s s2"
  unfolding removes_below_def by metis

lemma removes_below_sub:
  "below Q p p' \<Longrightarrow> removes_below Q node_at p' s s' \<Longrightarrow> removes_below Q node_at p s s'"
  unfolding removes_below_def by (meson below_trans)

lemma removes_below_upd: "node_at s' = (node_at s)(p := None) \<Longrightarrow> removes_below Q node_at p s s'"
  by (simp add: removes_below_def)

lemma removes_below_shown:
  assumes "removes_below Q node_at r s s'"
  shows "shown Q node_at hidden s' p ns \<Longrightarrow> shown Q node_at hidden s p ns"
    and "node_at s' q = Some v \<Longrightarrow> node_at s q = Some v"
proof -
  show some: "node_at s' q = Some v \<Longrightarrow> node_at s q = Some v" for q v
    using assms unfolding removes_below_def by (metis option.distinct(1))
  show "shown Q node_at hidden s' p ns \<Longrightarrow> shown Q node_at hidden s p ns"
    by (induction ns arbitrary: p) (auto dest: some)
qed

lemma removes_below_dirs:
  "removes_below Q node_at r s s' \<Longrightarrow> dirs_within Q node_at hidden k s p \<Longrightarrow> dirs_within Q node_at hidden k s' p"
  unfolding dirs_within_def using removes_below_shown by metis

definition delete_one :: "nat \<Rightarrow> 'fs qfs \<Rightarrow> path \<Rightarrow> 'fs \<Rightarrow> (bool \<times> 'fs) option" where
  "delete_one n Q p s = (if fIsDir Q s p then performRecursiveDelete n Q p s else Some (fRemove Q s p))"

lemma delete_entries_step:
  "delete_entries n Q p (e # es) s =
     (case delete_one n Q (pJoin Q p e) s of
        None \<Rightarrow> None
      | Some (False, s1) \<Rightarrow> Some (False, s1)
      | Some (True, s1) \<Rightarrow> delete_entries n Q p es s1)"
  by (simp add: delete_one_def split: prod.splits bool.splits)

lemma delete_entries_cases:
  assumes "delete_entries n Q p (e # es) s = Some (r, s')"
  obtains (failed) "delete_one n Q (pJoin Q p e) s = Some (False, s')" "\<not> r"
    | (next_entry) s1 where "delete_one n Q (pJoin Q p e) s = Some (True, s1)"
        "delete_entries n Q p es s1 = Some (r, s')"
  using assms unfolding delete_entries_step by (auto split: option.splits prod.splits bool.splits)

lemma delete_dir_cases:
  assumes "performRecursiveDelete (Suc n) Q p s = Some (r, s')"
  obtains (missing) "\<not> dExists Q s p" "r" "s' = s"
    | (failed) "dExists Q s p" "delete_entries n Q p (dEntries Q s p) s = Some (False, s')" "\<not> r"
    | (emptied) s1 where "dExists Q s p" "delete_entries n Q p (dEntries Q s p) s = Some (True, s1)"
        "dRmdir Q s1 p = (r, s')"
proof (cases "dExists Q s p")
  case False
  with assms have "r" and "s' = s" by simp_all
  with False show ?thesis by (rule missing)
next
  case True
  then have "performRecursiveDelete (Suc n) Q p s =
      (case delete_entries n Q p (dEntries Q s p) s of
         None \<Rightarrow> None | Some (False, s1) \<Rightarrow> Some (False, s1) | Some (True, s1) \<Rightarrow> Some (dRmdir Q s1 p))"
    by (simp only: performRecursiveDelete.simps not_True_eq_False if_False)
  with assms True failed emptied show ?thesis
    by (auto split: option.splits prod.splits bool.splits)
qed

lemma rmdir_removes:
  assumes "qfs_laws Q canon node_at hidden" and "canon p" and "dRmdir Q s p = (r, s')"
  shows "removes_below Q node_at p s s'" and "r \<Longrightarrow> node_at s' p = None"
  using qfs_remove(3,5) [OF assms(1,2)] assms(3)
  by (cases r; auto intro: removes_below_upd removes_below_same)+

lemma remove_removes:
  assumes "qfs_laws Q canon node_at hidden" and "canon p" and "fRemove Q s p = (r, s')"
  shows "removes_below Q node_at p s s'" and "r \<Longrightarrow> node_at s' p = None"
  using qfs_remove(1,2) [OF assms(1,2)] assms(3)
  by (cases r; auto intro: removes_below_upd removes_below_same)+

lemma delete_entries_removes:
  assumes laws: "qfs_laws Q canon node_at hidden"
    and rec: "\<And>p s r s'. performRecursiveDelete n Q p s = Some (r, s') \<Longrightarrow> canon p \<Longrightarrow> removes_below Q node_at p s s'"
  shows "delete_entries n Q p es s = Some (r, s') \<Longrightarrow> canon p \<Longrightarrow> list_all plain_name es \<Longrightarrow>
    removes_below Q node_at p s s'"
proof (induction es arbitrary: s)
  case Nil
  then show ?case by (simp add: removes_below_same)
next
  case (Cons e es)
  have cp: "canon (pJoin Q p e)" using Cons.prems laws by (auto intro: qfs_canon)
  have one: "removes_below Q node_at p s t" if "delete_one n Q (pJoin Q p e) s = Some (r1, t)" for r1 t
  proof (rule removes_below_sub)
    show "below Q p (pJoin Q p e)" using Cons.prems by (simp add: below_join)
    show "removes_below Q node_at (pJoin Q p e) s t"
      using that rec [OF _ cp] remove_removes(1) [OF laws cp, of s r1 t]
      by (auto simp: delete_one_def split: if_splits)
  qed
  from Cons.prems(1) show ?case
  proof (cases rule: delete_entries_cases)
    case failed
    then show ?thesis by (auto intro: one)
  next
    case (next_entry s1)
    then show ?thesis using Cons.IH [OF next_entry(2)] Cons.prems one by (auto intro: removes_below_trans)
  qed
qed

lemma delete_removes:
  assumes laws: "qfs_laws Q canon node_at hidden"
  shows "performRecursiveDelete n Q p s = Some (r, s') \<Longrightarrow> canon p \<Longrightarrow> removes_below Q node_at p s s'"
proof (induction n arbitrary: p s r s')
  case 0
  then show ?case by simp
next
  case (Suc n)
  have es: "removes_below Q node_at p s t"
    if "delete_entries n Q p (dEntries Q s p) s = Some (r1, t)" for r1 t
    using delete_entries_removes [OF laws Suc.IH that] Suc.prems(2) entries_plain [OF laws Suc.prems(2)]
    by simp
  from Suc.prems(1) show ?case
  proof (cases rule: delete_dir_cases)
    case missing
    then show ?thesis by (simp add: removes_below_same)
  next
    case failed
    then show ?thesis by (auto intro: es)
  next
    case (emptied s1)
    then show ?thesis using es rmdir_removes(1) [OF laws Suc.prems(2)] by (blast intro: removes_below_trans)
  qed
qed

lemma entries_removes:
  assumes laws: "qfs_laws Q canon node_at hidden"
    and "delete_entries n Q p es s = Some (r, s')" and "canon p" and "list_all plain_name es"
  shows "removes_below Q node_at p s s'"
  by (rule delete_entries_removes [OF laws delete_removes [OF laws] assms(2-4)])

lemma delete_gone:
  assumes laws: "qfs_laws Q canon node_at hidden" and "canon p"
    and "performRecursiveDelete n Q p s = Some (True, s')"
  shows "node_at s' p \<noteq> Some Dir"
proof (cases n)
  case 0
  with assms(3) show ?thesis by simp
next
  case (Suc m)
  from assms(3) [unfolded Suc] show ?thesis
    by (cases rule: delete_dir_cases)
      (auto simp: qfs_queries(3) [OF laws \<open>canon p\<close>] dest: rmdir_removes(2) [OF laws \<open>canon p\<close>])
qed

definition delete_ends ::
  "nat \<Rightarrow> 'fs qfs \<Rightarrow> (path \<Rightarrow> bool) \<Rightarrow> ('fs \<Rightarrow> path \<Rightarrow> node option) \<Rightarrow> (string \<Rightarrow> bool) \<Rightarrow> bool" where
  "delete_ends n Q canon node_at hidden \<longleftrightarrow>
     (\<forall>p s. canon p \<longrightarrow> node_at s p = Some Dir \<longrightarrow> dirs_within Q node_at hidden n s p \<longrightarrow>
        performRecursiveDelete n Q p s \<noteq> None)"

lemma delete_one_removes:
  assumes laws: "qfs_laws Q canon node_at hidden" and "canon p" and "plain_name e"
    and one: "delete_one n Q (pJoin Q p e) s = Some (r, s')"
  shows "removes_below Q node_at (pJoin Q p e) s s'"
proof -
  have cp: "canon (pJoin Q p e)" using assms by (auto intro: qfs_canon)
  show ?thesis
    using one delete_removes [OF laws _ cp] remove_removes(1) [OF laws cp, of s r s']
    by (auto simp: delete_one_def split: if_splits)
qed

lemma delete_entries_end:
  assumes laws: "qfs_laws Q canon node_at hidden" and rec: "delete_ends n Q canon node_at hidden"
    and cp: "canon p"
  shows "list_all (\<lambda>e. plain_name e \<and> \<not> hidden e) es \<Longrightarrow> node_at s0 p = Some Dir \<Longrightarrow>
    dirs_within Q node_at hidden (Suc n) s0 p \<Longrightarrow> removes_below Q node_at p s0 s \<Longrightarrow>
    delete_entries n Q p es s \<noteq> None"
proof (induction es arbitrary: s)
  case Nil
  then show ?case by simp
next
  case (Cons e es)
  have pe: "plain_name e" and he: "\<not> hidden e" using Cons.prems(1) by simp_all
  have cp': "canon (pJoin Q p e)" using cp laws pe by (auto intro: qfs_canon)
  have "dirs_within Q node_at hidden n s (pJoin Q p e)"
    using dirs_within_entry [OF Cons.prems(3,2) pe he] Cons.prems(4) by (rule removes_below_dirs [rotated])
  then have "delete_one n Q (pJoin Q p e) s \<noteq> None"
    using rec cp' qfs_queries(2) [OF laws cp'] unfolding delete_ends_def delete_one_def by simp
  then obtain r s1 where one: "delete_one n Q (pJoin Q p e) s = Some (r, s1)" by fastforce
  have "removes_below Q node_at p s0 s1"
    using removes_below_trans [OF Cons.prems(4) removes_below_sub [OF below_join [OF pe] delete_one_removes [OF laws cp pe one]]] .
  with Cons have "delete_entries n Q p es s1 \<noteq> None" by simp
  with one show ?case
    by (cases r) (simp_all only: delete_entries_step option.case prod.case bool.case option.distinct simp_thms not_False_eq_True)
qed

lemma delete_ends_all:
  assumes laws: "qfs_laws Q canon node_at hidden"
  shows "delete_ends n Q canon node_at hidden"
proof (induction n)
  case 0
  have "\<not> dirs_within Q node_at hidden 0 s p" if "node_at s p = Some Dir" for s p
    using that unfolding dirs_within_def by (metis joins.simps(1) not_less_zero shown.simps(1))
  then show ?case unfolding delete_ends_def by blast
next
  case (Suc n)
  show ?case unfolding delete_ends_def
  proof (intro allI impI)
    fix p s
    assume cp: "canon p" and dir: "node_at s p = Some Dir" and within: "dirs_within Q node_at hidden (Suc n) s p"
    have "list_all (\<lambda>e. plain_name e \<and> \<not> hidden e) (dEntries Q s p)"
      by (simp add: list_all_iff qfs_queries(4) [OF laws cp])
    then have "delete_entries n Q p (dEntries Q s p) s \<noteq> None"
      using delete_entries_end [OF laws Suc cp _ dir within removes_below_same] by blast
    then obtain r s1 where "delete_entries n Q p (dEntries Q s p) s = Some (r, s1)" by fastforce
    then show "performRecursiveDelete (Suc n) Q p s \<noteq> None" by (cases r; cases "dRmdir Q s1 p") auto
  qed
qed

text \<open>Deleting \<open>/a\<close> of the small tree.\<close>

definition demo_deleted :: mem where
  "demo_deleted = [(''/b'', Dir)]"

lemma demo_delete: "delete_op 3 mem_fs ''/a'' True demo_tree = Some (demo_deleted, DeleteFinished True [])"
  by code_simp

text \<open>
  C12. On a disk without symbolic links, which the laws of the file system leave out (the code
  follows a link to a directory and empties what it leads to), a permanent delete takes only what
  it was asked to. It ends (with fuel for the depth of the listed directories), whatever it
  reports it has only removed nodes and only at or below the path, and if it reports success the
  path is gone.
\<close>

theorem permanent_delete_confined:
  assumes "qfs_laws Q canon node_at hidden" and "canon p"
    and "\<forall>ns. shown Q node_at hidden s p ns \<longrightarrow> node_at s (joins Q p ns) = Some Dir \<longrightarrow> length ns < fuel"
  shows "\<exists>s' ok err. delete_op fuel Q p True s = Some (s', DeleteFinished ok err) \<and>
    (\<forall>q. node_at s' q \<noteq> node_at s q \<longrightarrow> node_at s' q = None \<and> below Q p q) \<and>
    (ok \<longrightarrow> node_at s' p = None)"
proof -
  note laws = assms(1) and cp = assms(2)
  have res: "\<exists>r s'. performDelete fuel Q p True s = Some (r, s') \<and> removes_below Q node_at p s s'
      \<and> (r \<longrightarrow> node_at s' p = None)"
  proof (cases "node_at s p")
    case None
    then have "performDelete fuel Q p True s = Some (True, s)"
      by (simp add: performDelete_def qfs_queries(1) [OF laws cp])
    with None show ?thesis by (auto intro: removes_below_same)
  next
    case (Some v)
    show ?thesis
    proof (cases v)
      case Dir
      with Some have "performDelete fuel Q p True s = performRecursiveDelete fuel Q p s"
        by (simp add: performDelete_def qfs_queries(1,2) [OF laws cp])
      moreover from Dir Some assms(3) have "performRecursiveDelete fuel Q p s \<noteq> None"
        using delete_ends_all [OF laws, of fuel] cp unfolding delete_ends_def dirs_within_def by blast
      ultimately obtain r s' where run: "performRecursiveDelete fuel Q p s = Some (r, s')"
        and eq: "performDelete fuel Q p True s = Some (r, s')" by fastforce
      have rem: "removes_below Q node_at p s s'" by (rule delete_removes [OF laws run cp])
      moreover have "node_at s' p = None" if r
        using delete_gone [OF laws cp] run that removes_below_shown(2) [OF rem, of p] Some Dir
        by (cases "node_at s' p") auto
      ultimately show ?thesis using eq by blast
    next
      case (File c)
      obtain r s' where run: "fRemove Q s p = (r, s')" by fastforce
      with File Some have "performDelete fuel Q p True s = Some (r, s')"
        by (simp add: performDelete_def qfs_queries(1,2) [OF laws cp])
      with remove_removes [OF laws cp run] show ?thesis by blast
    qed
  qed
  then obtain r s' where "performDelete fuel Q p True s = Some (r, s')"
    and "removes_below Q node_at p s s'" and "r \<longrightarrow> node_at s' p = None" by blast
  then show ?thesis by (simp add: delete_op_def removes_below_def)
qed

theorem permanent_delete_confined_witness:
  "\<exists>s' ok err. delete_op 5 mem_fs ''/a'' True demo_tree = Some (s', DeleteFinished ok err) \<and>
    (\<forall>q. map_of s' q \<noteq> map_of demo_tree q \<longrightarrow> map_of s' q = None \<and> below mem_fs ''/a'' q) \<and>
    (ok \<longrightarrow> map_of s' ''/a'' = None)"
proof (rule permanent_delete_confined [OF mem_fs_laws demo_canon(1)], intro allI impI)
  fix ns
  assume "shown mem_fs map_of mem_hidden demo_tree ''/a'' ns"
    and "map_of demo_tree (joins mem_fs ''/a'' ns) = Some Dir"
  then have "list_all plain_name ns" and "length (joins mem_fs ''/a'' ns) \<le> 6"
    by (auto simp: demo_tree_def dest: shown_plain split: if_splits)
  with length_joins_mem [of ns "''/a''"] show "length ns < 5" by simp
qed

text \<open>The listing skips hidden entries, so a folder with one is emptied of everything else and
  then cannot be removed.\<close>

lemma delete_entries_hidden:
  assumes laws: "qfs_laws Q canon node_at hidden" and cp: "canon p" and "plain_name h" and "hidden h"
  shows "delete_entries n Q p es s = Some (r, s') \<Longrightarrow> list_all (\<lambda>e. plain_name e \<and> \<not> hidden e) es \<Longrightarrow>
    node_at s' (pJoin Q p h) = node_at s (pJoin Q p h)"
proof (induction es arbitrary: s)
  case Nil
  then show ?case by simp
next
  case (Cons e es)
  have pe: "plain_name e" and "e \<noteq> h" using Cons.prems(2) assms(4) by auto
  have "\<not> below Q (pJoin Q p e) (pJoin Q p h)"
  proof
    assume "below Q (pJoin Q p e) (pJoin Q p h)"
    then obtain ns where "list_all plain_name ns" and "joins Q p [h] = joins Q p (e # ns)"
      unfolding below_def by auto
    with qfs_inj [OF laws cp, of "[h]" "e # ns"] pe assms(3) \<open>e \<noteq> h\<close> show False by simp
  qed
  then have one: "node_at t (pJoin Q p h) = node_at s (pJoin Q p h)"
    if "delete_one n Q (pJoin Q p e) s = Some (r1, t)" for r1 t
    using delete_one_removes [OF laws cp pe that] unfolding removes_below_def by blast
  from Cons.prems(1) show ?case
    by (cases rule: delete_entries_cases) (use Cons.IH Cons.prems(2) one in auto)
qed

lemma hidden_entry_blocks_delete:
  assumes laws: "qfs_laws Q canon node_at hidden" and cp: "canon p" and "plain_name h" and "hidden h"
    and dir: "node_at s p = Some Dir" and "node_at s (pJoin Q p h) \<noteq> None"
    and run: "delete_op (Suc n) Q p True s = Some (s', DeleteFinished ok err)"
  shows "\<not> ok \<and> node_at s' (pJoin Q p h) = node_at s (pJoin Q p h)"
proof -
  have visible: "list_all (\<lambda>e. plain_name e \<and> \<not> hidden e) (dEntries Q s p)"
    by (simp add: list_all_iff qfs_queries(4) [OF laws cp])
  note kept = delete_entries_hidden [OF laws cp assms(3,4) _ visible]
  from run dir have "performRecursiveDelete (Suc n) Q p s = Some (ok, s')"
    unfolding delete_op_def performDelete_def qfs_queries(1,2) [OF laws cp]
    by (auto split: option.splits if_splits)
  then show ?thesis
  proof (cases rule: delete_dir_cases)
    case missing
    with dir show ?thesis by (simp add: qfs_queries(3) [OF laws cp])
  next
    case failed
    with kept show ?thesis by blast
  next
    case (emptied s1)
    have h1: "node_at s1 (pJoin Q p h) = node_at s (pJoin Q p h)" by (rule kept [OF emptied(2)])
    with assms(6) qfs_remove(4) [OF laws cp] assms(3) emptied(3) have "\<not> ok" by metis
    with h1 emptied(3) qfs_remove(5) [OF laws cp, of s1 s'] show ?thesis by simp
  qed
qed

end
