(* ===== verification/FileMove.thy ===== *)
theory FileMove
  imports FileDelete
begin

text \<open>
  Names and moves in apps/files/src/FileOperations.cpp: names typed by the user cannot lead
  out of the folder, a rename never replaces a file, a moved file is never lost even when the
  move has to copy and trash, and duplicates and trashed files get names that are free. Also
  two defects: an existing file is emptied by createFile, and the fallback of moveToTrash
  leaves a file where it was.
\<close>

subsection \<open>Names typed by the user\<close>

lemma contains_single: "str_contains s [c] \<longleftrightarrow> c \<in> set s"
  unfolding str_contains_def using index_of_single_None [of c s] by auto

lemma safe_plain: "isSafeName n \<Longrightarrow> plain_name n \<and> n \<noteq> ''.'' \<and> n \<noteq> ''..''"
  by (simp add: isSafeName_def plain_name_def contains_single split: if_splits)

text \<open>
  C13. What the user types as a name cannot lead elsewhere. Whatever it is, creating a file changes
  at most the entry of that name in the chosen folder. Creating a folder adds directories only,
  where nothing was: the entry of that name in the chosen folder and, where they are missing, the
  folders on the way to it, the chosen folder and its ancestors (mkpath makes those too). If
  anything changes, the name is a single path component other than \<open>.\<close> and \<open>..\<close>.
\<close>

theorem create_confined:
  assumes "qfs_laws Q canon node_at hidden" and "canon parent"
  shows "(createFile_op Q parent name s = (s1, sig1) \<longrightarrow>
      (\<forall>q. node_at s1 q \<noteq> node_at s q \<longrightarrow>
         q = pJoin Q parent name \<and> plain_name name \<and> name \<notin> {''.'', ''..''})) \<and>
    (createFolder_op Q parent name s = (s2, sig2) \<longrightarrow>
      (\<forall>q. node_at s2 q \<noteq> node_at s q \<longrightarrow>
         node_at s q = None \<and> node_at s2 q = Some Dir \<and> below Q q (pJoin Q parent name)
         \<and> plain_name name \<and> name \<notin> {''.'', ''..''}))"
proof (cases "isSafeName name")
  case False
  then show ?thesis by (simp add: createFile_op_def createFolder_op_def)
next
  case True
  with safe_plain have pn: "plain_name name" and nd: "name \<notin> {''.'', ''..''}" by auto
  have cj: "canon (pJoin Q parent name)" using assms pn by (blast intro: qfs_canon)
  have "node_at s1 q = node_at s q" if "createFile_op Q parent name s = (s1, sig1)"
    and "q \<noteq> pJoin Q parent name" for q
    using that True qfs_create [OF assms(1) cj]
    by (auto simp: createFile_op_def split: prod.splits option.splits)
  moreover have "node_at s q = None \<and> node_at s2 q = Some Dir \<and> below Q q (pJoin Q parent name)"
    if "createFolder_op Q parent name s = (s2, sig2)" and "node_at s2 q \<noteq> node_at s q" for q
    using that True qfs_mkpath(2) [OF assms(1) cj]
    by (auto simp: createFolder_op_def split: prod.splits)
  ultimately show ?thesis using pn nd by blast
qed

theorem create_confined_witness:
  "let s1 = fst (createFile_op mem_fs ''/b'' ''n'' demo_tree);
       s2 = fst (createFolder_op mem_fs ''/b'' ''n'' demo_tree) in
   (\<forall>q. map_of s1 q \<noteq> map_of demo_tree q \<longrightarrow> q = ''/b/n'') \<and>
   (\<forall>q. map_of s2 q \<noteq> map_of demo_tree q \<longrightarrow> map_of s2 q = Some Dir)"
proof -
  obtain s1 g1 s2 g2 where r1: "createFile_op mem_fs ''/b'' ''n'' demo_tree = (s1, g1)"
    and r2: "createFolder_op mem_fs ''/b'' ''n'' demo_tree = (s2, g2)" by fastforce
  have "pJoin mem_fs ''/b'' ''n'' = ''/b/n''" by (simp add: mem_fs_def mem_join_def)
  with create_confined [OF mem_fs_laws demo_canon(3), of "''n''" demo_tree s1 g1 s2 g2] r1 r2
  show ?thesis by (simp add: Let_def)
qed

text \<open>A file that exists is emptied by createFile, which reports success.\<close>

lemma createFile_empties_existing:
  assumes "qfs_laws Q canon node_at hidden" and "canon parent" and "isSafeName name"
    and "node_at s (pJoin Q parent name) = Some (File c)"
    and "createFile_op Q parent name s = (s', CreateFileFinished True err)"
  shows "node_at s' (pJoin Q parent name) = Some (File [])"
proof -
  from safe_plain [OF assms(3)] have "canon (pJoin Q parent name)"
    using assms(1,2) by (blast intro: qfs_canon)
  from qfs_create(1) [OF assms(1) this] assms(3,5) show ?thesis
    by (auto simp: createFile_op_def split: prod.splits option.splits)
qed

text \<open>
  A rename keeps the file and replaces none. Renaming a file either succeeds, and then the
  file of the same contents stands under the new name in the same folder, where nothing stood
  before, the old name is gone and everything else is as it was; or it fails and nothing has
  changed. The new name is a single path component.
\<close>

theorem rename_safe:
  assumes "qfs_laws Q canon node_at hidden" and "canon p" and "canon (pDir Q p)"
    and "node_at s p = Some (File c)"
    and "rename_op Q p newName s = (s', RenameFinished ok err)"
  shows "if ok then plain_name newName \<and> node_at s (pJoin Q (pDir Q p) newName) = None \<and>
      node_at s' = (node_at s)(p := None, pJoin Q (pDir Q p) newName \<mapsto> File c)
    else node_at s' = node_at s"
proof (cases "isSafeName newName")
  case False
  with assms(5) show ?thesis by (auto simp: rename_op_def)
next
  case True
  let ?d = "pJoin Q (pDir Q p) newName"
  from safe_plain [OF True] have pn: "plain_name newName" by simp
  then have cd: "canon ?d" using assms(1,3) by (blast intro: qfs_canon)
  note ren = qfs_rename [OF assms(1,2) cd]
  show ?thesis
  proof (cases "fExists Q s ?d \<and> ?d \<noteq> pAbs Q p")
    case True
    with \<open>isSafeName newName\<close> assms(5) show ?thesis by (auto simp: rename_op_def Let_def)
  next
    case False
    obtain r t where run: "fRename Q s p ?d = (r, t)" by fastforce
    with False True assms(5) have "r = ok" and "t = s'" by (auto simp: rename_op_def Let_def split: if_splits)
    with run ren(1) [of s s'] ren(2) [of s s' c] ren(3) [of s s'] assms(4) pn show ?thesis
      by (cases ok) simp_all
  qed
qed

definition demo_renamed :: mem where
  "demo_renamed = fst (rename_op mem_fs ''/a/f'' ''h'' demo_tree)"

theorem rename_safe_witness:
  "map_of demo_renamed = (map_of demo_tree)(''/a/f'' := None, ''/a/h'' \<mapsto> File ''x'')"
proof -
  have dir: "pDir mem_fs ''/a/f'' = ''/a''" and j: "pJoin mem_fs ''/a'' ''h'' = ''/a/h''" by code_simp+
  have run: "rename_op mem_fs ''/a/f'' ''h'' demo_tree = (demo_renamed, RenameFinished True [])"
    by code_simp
  have node: "map_of demo_tree ''/a/f'' = Some (File ''x'')" by (simp add: demo_tree_def)
  have "mem_canon ''/a/f''" and "mem_canon (pDir mem_fs ''/a/f'')"
    unfolding dir by (simp_all add: mem_canon_def)
  from rename_safe [OF mem_fs_laws this node run] show ?thesis unfolding dir j by simp
qed


subsection \<open>Unused names\<close>

lemma probe_search_free:
  assumes "k < bound" and "\<not> taken (cand (i + k))" and "\<forall>j<k. taken (cand (i + j))"
  shows "probe taken cand i bound [] = cand (i + k)"
  using assms by (rule probe_first)

interpretation duplicate_names:
  fresh_name "\<lambda>taken. probe taken (\<lambda>i. pDir Q p @ ''/'' @ duplicate_name Q p i) 1 999 []"
    "\<lambda>k. pDir Q p @ ''/'' @ duplicate_name Q p (1 + k)" 999 for Q p
  by unfold_locales (rule probe_search_free)

interpretation trash_names:
  fresh_name
    "\<lambda>taken. probe taken (\<lambda>i. (dataHome Q @ ''/Trash/files'') @ ''/'' @ trash_candidate Q p i) 0 10000 []"
    "\<lambda>i. (dataHome Q @ ''/Trash/files'') @ ''/'' @ trash_candidate Q p (0 + i)" 10000 for Q p
  by unfold_locales (rule probe_search_free)

lemma trash_target_free:
  assumes "i < 10000" and "\<not> fExists Q s ((dataHome Q @ ''/Trash/files'') @ ''/'' @ trash_candidate Q p i)"
  shows "\<not> fExists Q s (trash_target Q p s)"
  using trash_names.search_free [of i "fExists Q s" Q p] assms by (simp add: trash_target_def)

lemma duplicate_target_free:
  assumes "k < 999" and "\<not> fExists Q s (pDir Q p @ ''/'' @ duplicate_name Q p (1 + k))"
  shows "\<not> fExists Q s (duplicate_target Q p s)"
  using duplicate_names.search_free [of k "fExists Q s" Q p] assms by (simp add: duplicate_target_def)

text \<open>
  C17. A duplicate is new and complete. If one of the 999 names \<open>x (copy)\<close>, \<open>x (copy 2)\<close>, ... is
  free, the name chosen is one at which nothing exists; everything that existed is kept, whatever
  is reported, and if success is reported, what listings show at or below the original is found
  with its contents at the same place below the duplicate. (The duplicate is a name in the folder
  of the original, neither above nor below it.)
\<close>

theorem duplicate_fresh:
  assumes "qfs_laws Q canon node_at hidden" and "canon p" and "canon (duplicate_target Q p s)"
    and "apart Q p (duplicate_target Q p s)"
    and "k < 999" and "\<not> fExists Q s (pDir Q p @ ''/'' @ duplicate_name Q p (1 + k))"
    and "duplicate_op fuel Q p s = Some (s', DuplicateFinished ok err)"
  shows "node_at s (duplicate_target Q p s) = None \<and>
    (\<forall>q v. node_at s q = Some v \<longrightarrow> node_at s' q = Some v) \<and>
    (ok \<longrightarrow> (\<forall>ns v. shown Q node_at hidden s p ns \<longrightarrow> node_at s (joins Q p ns) = Some v \<longrightarrow>
       node_at s' (joins Q (duplicate_target Q p s) ns) = Some v))"
proof -
  have free: "node_at s (duplicate_target Q p s) = None"
    using duplicate_target_free [OF assms(5,6)] qfs_queries(1) [OF assms(1,3)] by simp
  have run: "copy_one fuel Q p (duplicate_target Q p s) s = Some (ok, s')"
    using assms(7) unfolding duplicate_op_def copy_one_def Let_def
    by (auto split: if_splits option.splits prod.splits)
  have "adds_below Q node_at (duplicate_target Q p s) s s'"
    by (rule copy_one_adds_root [OF assms(1-3) run])
  with free run copy_one_copies [OF assms(1) copies_all [OF assms(1)] assms(2-4)] show ?thesis
    by (auto intro: adds_below_kept)
qed

lemma demo_duplicate_target: "duplicate_target mem_fs ''/a'' demo_tree = ''/%1 (copy)%2a''"
  by code_simp

definition demo_duplicated :: mem where
  "demo_duplicated = (case duplicate_op 3 mem_fs ''/a'' demo_tree of Some (s, _) \<Rightarrow> s | None \<Rightarrow> [])"

theorem duplicate_fresh_witness:
  "map_of demo_tree ''/%1 (copy)%2a'' = None \<and> map_of demo_duplicated ''/a/f'' = Some (File ''x'')"
proof -
  have run: "duplicate_op 3 mem_fs ''/a'' demo_tree = Some (demo_duplicated, DuplicateFinished True [])"
    by code_simp
  have "mem_canon (duplicate_target mem_fs ''/a'' demo_tree)"
    and "apart mem_fs ''/a'' (duplicate_target mem_fs ''/a'' demo_tree)"
    unfolding demo_duplicate_target by (auto simp: mem_canon_def apart_def dest!: joins_mem_prefix)
  moreover have "\<not> fExists mem_fs demo_tree (pDir mem_fs ''/a'' @ ''/'' @ duplicate_name mem_fs ''/a'' (1 + 0))"
    by code_simp
  moreover have "map_of demo_tree ''/a/f'' = Some (File ''x'')" by (simp add: demo_tree_def)
  ultimately show ?thesis
    using duplicate_fresh [OF mem_fs_laws demo_canon(1), of demo_tree 0 3 demo_duplicated True "[]"] run
    by (simp add: demo_duplicate_target)
qed


subsection \<open>Moving a file\<close>

lemma probe_is_candidate: "0 < n \<Longrightarrow> \<exists>k. probe taken cand i n l = cand (i + k)"
proof (induction n arbitrary: i l)
  case 0
  then show ?case by simp
next
  case (Suc n)
  show ?case
  proof (cases "taken (cand i) \<and> 0 < n")
    case True
    with Suc.IH [of "Suc i" "cand i"] obtain k where "probe taken cand (Suc i) n (cand i) = cand (Suc i + k)"
      by blast
    with True show ?thesis by (auto intro!: exI [of _ "Suc k"])
  next
    case False
    then have "probe taken cand i (Suc n) l = cand (i + 0)" by (cases n) auto
    then show ?thesis by blast
  qed
qed

definition trash_paths_ok :: "'fs qfs \<Rightarrow> (path \<Rightarrow> bool) \<Rightarrow> path \<Rightarrow> bool" where
  "trash_paths_ok Q canon p \<longleftrightarrow> canon (dataHome Q @ ''/Trash/files'') \<and>
     \<not> below Q p (dataHome Q @ ''/Trash/files'') \<and>
     (\<forall>i. canon ((dataHome Q @ ''/Trash/files'') @ ''/'' @ trash_candidate Q p i))"

lemma trash_target_canon: "trash_paths_ok Q canon p \<Longrightarrow> canon (trash_target Q p s)"
  unfolding trash_paths_ok_def trash_target_def by (metis probe_is_candidate zero_less_numeral)

text \<open>Trashing one file leaves every other file in place.\<close>

lemma moveToTrash_keeps:
  assumes laws: "qfs_laws Q canon node_at hidden" and gio: "gio_ok Q canon node_at trash"
    and cp: "canon p" and paths: "trash_paths_ok Q canon p"
    and node: "node_at s p = Some (File d)"
    and other: "node_at s t = Some (File c)" "\<not> below Q p t" "\<not> trash t"
    and run: "moveToTrash fuel Q p s = Some (r, s')"
  shows "node_at s' t = Some (File c)"
proof -
  obtain g s1 where g: "gioTrash Q s p = (g, s1)" by fastforce
  with gio cp other have t1: "node_at s1 t = Some (File c)" unfolding gio_ok_def by metis
  from g gio cp node have p1: "node_at s1 p \<noteq> Some Dir" unfolding gio_ok_def
    by (metis node.distinct(1) option.distinct(1) option.inject)
  have neq: "t \<noteq> p" using other(2) by auto
  obtain b s2 where mk: "dMkpath Q s1 (dataHome Q @ ''/Trash/files'') = (b, s2)" by fastforce
  have ct: "canon (dataHome Q @ ''/Trash/files'')" using paths by (simp add: trash_paths_ok_def)
  note mkp = qfs_mkpath(2) [OF laws ct mk]
  let ?x = "trash_target Q p s2"
  have cx: "canon ?x" by (rule trash_target_canon [OF paths])
  have t2: "node_at s2 t = Some (File c)" using mkp [of t] t1 by (cases "node_at s2 t = node_at s1 t") auto
  obtain ok s3 where rn: "fRename Q s2 p ?x = (ok, s3)" by fastforce
  note ren = qfs_rename [OF laws cp cx]
  show ?thesis
  proof (cases "g = GioExited 0")
    case True
    with run g t1 show ?thesis by (simp add: moveToTrash_def)
  next
    case no_gio: False
    show ?thesis
    proof (cases "node_at s2 p")
      case (Some v)
      show ?thesis
      proof (cases v)
        case File
        show ?thesis
        proof (cases ok)
          case True
          with run g mk rn no_gio have "s' = s3" by (simp add: moveToTrash_def)
          with True rn ren(1) [of s2 s3] ren(2) [of s2 s3] Some File t2 neq show ?thesis by auto
        next
          case False
          with rn ren(3) have s3: "node_at s3 = node_at s2" by simp
          then have "\<not> fIsDir Q s3 p" using Some File qfs_queries(2) [OF laws cp] by simp
          with run g mk rn no_gio False obtain ok4 s4 where c4: "fCopy Q s3 p ?x = (ok4, s4)"
            and rest: "if ok4 then performRecursiveDelete fuel Q p s4 = Some (r, s') else s' = s4"
            by (auto simp: moveToTrash_def split: prod.splits bool.splits)
          have "node_at s4 t = Some (File c)"
            using adds_below_kept [OF adds_below_copy [OF laws cp cx c4]] s3 t2 by simp
          moreover have "node_at s' t = node_at s4 t" if ok4
            using rest that delete_removes [OF laws _ cp, of fuel s4 r s'] other(2)
            unfolding removes_below_def by auto
          ultimately show ?thesis using rest by (cases ok4) auto
        qed
      next
        case Dir
        with Some mkp [of p] p1 paths show ?thesis by (auto simp: trash_paths_ok_def)
      qed
    next
      case None
      then have "\<not> ok" using rn ren(1) [of s2 s3] by (cases ok) auto
      with rn ren(3) have s3: "node_at s3 = node_at s2" by simp
      then have "\<not> fIsDir Q s3 p" using None qfs_queries(2) [OF laws cp] by simp
      moreover obtain ok4 s4 where c4: "fCopy Q s3 p ?x = (ok4, s4)" by fastforce
      moreover have "\<not> ok4" using qfs_copy(1) [OF laws cp cx, of s3 s4] c4 None s3 by auto
      ultimately have "s' = s4" using run g mk rn no_gio \<open>\<not> ok\<close> by (simp add: moveToTrash_def)
      moreover have "node_at s4 = node_at s3" using qfs_copy(2) [OF laws cp cx] c4 \<open>\<not> ok4\<close> by simp
      ultimately show ?thesis using s3 t2 by simp
    qed
  qed
qed

text \<open>
  C14. A moved file is never lost. Moving a file ends and reports; if it reports success the
  file stands at the destination with its contents, and whatever happens on the way (a failed
  rename, a copy, gio, the trash fallback), source or destination holds it in the end.
\<close>

theorem move_file_safe:
  assumes "qfs_laws Q canon node_at hidden" and "gio_ok Q canon node_at trash"
    and "canon a" and "canon (resolveDestination Q s a d)" and "trash_paths_ok Q canon a"
    and "node_at s a = Some (File c)"
    and "\<not> below Q a (resolveDestination Q s a d)" and "\<not> trash (resolveDestination Q s a d)"
    and "move_op fuel Q a d s = Some (s', MoveFinished ok err)"
  shows "(ok \<longrightarrow> node_at s' (resolveDestination Q s a d) = Some (File c)) \<and>
    (node_at s' a = Some (File c) \<or> node_at s' (resolveDestination Q s a d) = Some (File c))"
proof -
  let ?t = "resolveDestination Q s a d"
  note laws = assms(1) and ca = assms(3) and ct = assms(4)
  from assms(9) have run: "performMove fuel Q a ?t s = Some (ok, s')"
    by (auto simp: move_op_def Let_def split: option.splits)
  obtain r1 s1 where rn: "fRename Q s a ?t = (r1, s1)" by fastforce
  note ren = qfs_rename [OF laws ca ct]
  show ?thesis
  proof (cases r1)
    case True
    with run rn have "s' = s1" by (simp add: performMove_def)
    with True rn ren(2) [of s s1 c] assms(6,7) show ?thesis by auto
  next
    case False
    with rn ren(3) have s1: "node_at s1 = node_at s" by simp
    then have "\<not> fIsDir Q s1 a" using assms(6) qfs_queries(2) [OF laws ca] by simp
    moreover obtain r2 s2 where cp: "fCopy Q s1 a ?t = (r2, s2)" by fastforce
    ultimately have rest: "if r2 then performDelete fuel Q a False s2 = Some (ok, s') else s' = s2 \<and> \<not> ok"
      using run rn False by (auto simp: performMove_def split: bool.splits)
    show ?thesis
    proof (cases r2)
      case r2: False
      with cp qfs_copy(2) [OF laws ca ct] s1 rest assms(6) show ?thesis by auto
    next
      case True
      with qfs_copy(1) [OF laws ca ct, of s1 s2] cp s1 assms(6)
      have s2: "node_at s2 = (node_at s)(?t \<mapsto> File c)" by auto
      have "a \<noteq> ?t" using assms(7) by auto
      with s2 assms(6) have a2: "node_at s2 a = Some (File c)" by simp
      then have "moveToTrash fuel Q a s2 = Some (ok, s')"
        using rest True qfs_queries(1) [OF laws ca] by (simp add: performDelete_def)
      from moveToTrash_keeps [OF laws assms(2) ca assms(5) a2 _ assms(7,8) this] s2
      have "node_at s' ?t = Some (File c)" by simp
      then show ?thesis by simp
    qed
  qed
qed

definition demo_moved :: mem where
  "demo_moved = (case move_op 1 mem_fs ''/a/f'' ''/b'' demo_tree of Some (s, _) \<Rightarrow> s | None \<Rightarrow> [])"

lemma mem_data_home: "dataHome mem_fs = ''/h''"
  by (simp add: mem_fs_def)

lemma mem_gio: "gio_ok mem_fs mem_canon map_of (\<lambda>q. False)"
  by (simp add: gio_ok_def mem_fs_def)

theorem move_file_safe_witness:
  "map_of demo_moved ''/b/f'' = Some (File ''x'')"
proof -
  have t: "resolveDestination mem_fs demo_tree ''/a/f'' ''/b'' = ''/b/f''" by code_simp
  have run: "move_op 1 mem_fs ''/a/f'' ''/b'' demo_tree = Some (demo_moved, MoveFinished True [])"
    by code_simp
  have "map_of demo_tree ''/a/f'' = Some (File ''x'')" by (simp add: demo_tree_def)
  moreover have "mem_canon ''/a/f''" and "mem_canon (resolveDestination mem_fs demo_tree ''/a/f'' ''/b'')"
    and "trash_paths_ok mem_fs mem_canon ''/a/f''"
    and "\<not> below mem_fs ''/a/f'' (resolveDestination mem_fs demo_tree ''/a/f'' ''/b'')"
    unfolding t by (auto simp: mem_canon_def trash_paths_ok_def mem_data_home dest!: joins_mem_prefix)
  ultimately show ?thesis
    using move_file_safe [OF mem_fs_laws mem_gio, of "''/a/f''" demo_tree "''/b''" "''x''" 1 demo_moved True "[]"] run
    by (simp add: t)
qed

text \<open>When gio fails and the trash is on another file system, the fallback copies a file and
  then calls performRecursiveDelete, which does nothing to a file and reports success: the
  delete is reported as done with the file still in place.\<close>

lemma trash_fallback_leaves_file:
  assumes laws: "qfs_laws Q canon node_at hidden" and cp: "canon p" and "canon (trash_target Q p s2)"
    and node: "node_at s p = Some (File c)" "node_at s2 = node_at s1" "node_at s1 = node_at s"
    and "gioTrash Q s p = (g, s1)" and "g \<noteq> GioExited 0"
    and "dMkpath Q s1 (dataHome Q @ ''/Trash/files'') = (b, s2)"
    and "fRename Q s2 p (trash_target Q p s2) = (False, s3)"
    and copy: "fCopy Q s3 p (trash_target Q p s2) = (True, s4)"
  shows "delete_op (Suc n) Q p False s = Some (s4, DeleteFinished True []) \<and> node_at s4 p = Some (File c)"
proof -
  have s3: "node_at s3 = node_at s" using assms(10) qfs_rename(3) [OF laws cp assms(3)] node by simp
  then have "\<not> fIsDir Q s3 p" using qfs_queries(2) [OF laws cp] node(1) by simp
  moreover have s4: "node_at s4 p = Some (File c)"
    using adds_below_kept [OF adds_below_copy [OF laws cp assms(3) copy]] s3 node(1) by simp
  moreover have "\<not> dExists Q s4 p" using qfs_queries(3) [OF laws cp] s4 by simp
  moreover have "fExists Q s p" using qfs_queries(1) [OF laws cp] node(1) by simp
  ultimately show ?thesis
    using assms by (simp add: delete_op_def performDelete_def moveToTrash_def)
qed

end
