(* ===== verification/StdSort.thy ===== *)
theory StdSort
  imports Prelude "HOL-Library.Multiset"
begin

text \<open>
  \<open>std::sort\<close> and \<open>QString::compare\<close>. Both are library code: a model's definition takes the
  sorting function as an argument, and \<open>sort_ok\<close> is what the C++ standard promises of it, a
  permutation in order, provided the comparison is a strict weak order. That proviso is an
  obligation of the code that calls it, and is proved of each comparison used.
  \<open>isort\<close> is an instance for the examples.
\<close>

definition strict_weak :: "('a \<Rightarrow> 'a \<Rightarrow> bool) \<Rightarrow> bool" where
  "strict_weak lt \<longleftrightarrow>
     (\<forall>a. \<not> lt a a) \<and> (\<forall>a b c. lt a b \<longrightarrow> lt b c \<longrightarrow> lt a c) \<and>
     (\<forall>a b c. \<not> lt a b \<longrightarrow> \<not> lt b c \<longrightarrow> \<not> lt a c)"

definition in_order :: "('a \<Rightarrow> 'a \<Rightarrow> bool) \<Rightarrow> 'a list \<Rightarrow> bool" where
  "in_order lt xs \<longleftrightarrow> sorted_wrt (\<lambda>a b. \<not> lt b a) xs"

definition sort_ok :: "(('a \<Rightarrow> 'a \<Rightarrow> bool) \<Rightarrow> 'a list \<Rightarrow> 'a list) \<Rightarrow> bool" where
  "sort_ok st \<longleftrightarrow> (\<forall>lt xs. strict_weak lt \<longrightarrow> mset (st lt xs) = mset xs \<and> in_order lt (st lt xs))"

lemma sort_okD:
  assumes "sort_ok st" and "strict_weak lt"
  shows "mset (st lt xs) = mset xs" and "in_order lt (st lt xs)"
    and "set (st lt xs) = set xs" and "length (st lt xs) = length xs"
proof -
  show m: "mset (st lt xs) = mset xs" and "in_order lt (st lt xs)"
    using assms by (simp_all add: sort_ok_def)
  show "set (st lt xs) = set xs" using m by (rule mset_eq_setD)
  show "length (st lt xs) = length xs" using m by (rule mset_eq_length)
qed

lemma in_order_Nil [simp]: "in_order lt []"
  by (simp add: in_order_def)

lemma in_order_nth:
  "in_order lt xs \<Longrightarrow> i < j \<Longrightarrow> j < length xs \<Longrightarrow> \<not> lt (xs ! j) (xs ! i)"
  unfolding in_order_def by (rule sorted_wrt_nth_less)

text \<open>A comparison that is the strict part of a total preorder is a strict weak order.\<close>

lemma strict_weak_preorder:
  assumes "\<And>a b. le a b \<or> le b a" and "\<And>a b c. le a b \<Longrightarrow> le b c \<Longrightarrow> le a c"
  shows "strict_weak (\<lambda>a b. \<not> le b a)"
  unfolding strict_weak_def using assms by blast

text \<open>Three-way comparison: negative, zero or positive.\<close>

definition compare_ok :: "('a \<Rightarrow> 'a \<Rightarrow> int) \<Rightarrow> bool" where
  "compare_ok cmp \<longleftrightarrow>
     (\<forall>a b. cmp a b < 0 \<longleftrightarrow> 0 < cmp b a) \<and> (\<forall>a b c. cmp a b \<le> 0 \<longrightarrow> cmp b c \<le> 0 \<longrightarrow> cmp a c \<le> 0)"

lemma compare_okD:
  assumes "compare_ok cmp"
  shows "cmp a b < 0 \<longleftrightarrow> 0 < cmp b a" and "cmp a b \<le> 0 \<Longrightarrow> cmp b c \<le> 0 \<Longrightarrow> cmp a c \<le> 0"
    and "cmp a b \<le> 0 \<or> cmp b a \<le> 0" and "cmp a b \<le> 0 \<longleftrightarrow> 0 \<le> cmp b a"
proof -
  show anti: "cmp a b < 0 \<longleftrightarrow> 0 < cmp b a" for a b
    using assms unfolding compare_ok_def by blast
  show "cmp a b \<le> 0 \<Longrightarrow> cmp b c \<le> 0 \<Longrightarrow> cmp a c \<le> 0"
    using assms unfolding compare_ok_def by blast
  show "cmp a b \<le> 0 \<or> cmp b a \<le> 0" using anti [of b a] by linarith
  show "cmp a b \<le> 0 \<longleftrightarrow> 0 \<le> cmp b a" using anti [of b a] by linarith
qed

lemma strict_weak_compare: "compare_ok cmp \<Longrightarrow> strict_weak (\<lambda>a b. cmp a b < 0)"
proof -
  assume ok: "compare_ok cmp"
  have "(\<lambda>a b. cmp a b < 0) = (\<lambda>a b. \<not> cmp b a \<le> 0)"
    using compare_okD(1) [OF ok] by (auto simp: fun_eq_iff not_le)
  then show ?thesis using strict_weak_preorder [of "\<lambda>a b. cmp a b \<le> 0"] compare_okD(2,3) [OF ok] by metis
qed

definition int_compare :: "int \<Rightarrow> int \<Rightarrow> int" where
  "int_compare a b = (if a < b then -1 else if a > b then 1 else 0)"

lemma int_compare_ok: "compare_ok (\<lambda>a b. int_compare (f a) (f b))"
  by (auto simp: compare_ok_def int_compare_def split: if_splits)

lemma compare_ok_by: "compare_ok cmp \<Longrightarrow> compare_ok (\<lambda>a b. cmp (f a) (f b))"
  unfolding compare_ok_def by blast

lemma compare_ok_flip: "compare_ok cmp \<Longrightarrow> compare_ok (\<lambda>a b. - cmp a b)"
  unfolding compare_ok_def by (smt (verit))

lemma compare_ok_lex:
  assumes "compare_ok c1" and "compare_ok c2"
  shows "compare_ok (\<lambda>a b. if c1 a b = 0 then c2 a b else c1 a b)"
  using assms unfolding compare_ok_def by (smt (verit))


subsection \<open>An instance\<close>

fun insert_by :: "('a \<Rightarrow> 'a \<Rightarrow> bool) \<Rightarrow> 'a \<Rightarrow> 'a list \<Rightarrow> 'a list" where
  "insert_by lt x [] = [x]"
| "insert_by lt x (y # ys) = (if lt y x then y # insert_by lt x ys else x # y # ys)"

definition isort :: "('a \<Rightarrow> 'a \<Rightarrow> bool) \<Rightarrow> 'a list \<Rightarrow> 'a list" where
  "isort lt xs = foldr (insert_by lt) xs []"

lemma mset_insert_by [simp]: "mset (insert_by lt x xs) = add_mset x (mset xs)"
  by (induction xs) auto

lemma set_insert_by [simp]: "set (insert_by lt x xs) = insert x (set xs)"
  by (induction xs) auto

lemma in_order_insert_by:
  assumes "strict_weak lt"
  shows "in_order lt xs \<Longrightarrow> in_order lt (insert_by lt x xs)"
proof (induction xs)
  case Nil
  then show ?case by (simp add: in_order_def)
next
  case (Cons y ys)
  show ?case
  proof (cases "lt y x")
    case True
    with assms have "\<not> lt x y" unfolding strict_weak_def by blast
    with True Cons show ?thesis by (auto simp: in_order_def)
  next
    case False
    with Cons.prems assms have "\<forall>z \<in> set ys. \<not> lt z x"
      unfolding in_order_def strict_weak_def by (metis sorted_wrt.simps(2))
    with False Cons.prems show ?thesis by (auto simp: in_order_def)
  qed
qed

lemma isort_ok: "sort_ok isort"
proof -
  have "mset (isort lt xs) = mset xs" for lt :: "'a \<Rightarrow> 'a \<Rightarrow> bool" and xs
    unfolding isort_def by (induction xs) auto
  moreover have "in_order lt (isort lt xs)" if "strict_weak lt" for lt :: "'a \<Rightarrow> 'a \<Rightarrow> bool" and xs
    unfolding isort_def by (induction xs) (simp_all add: in_order_insert_by that)
  ultimately show ?thesis by (simp add: sort_ok_def)
qed

text \<open>A comparison of strings for the examples: lexicographic in the character codes.\<close>

fun demo_compare :: "string \<Rightarrow> string \<Rightarrow> int" where
  "demo_compare [] [] = 0"
| "demo_compare [] (c # cs) = -1"
| "demo_compare (c # cs) [] = 1"
| "demo_compare (c # cs) (d # ds) =
     (if (of_char c :: int) < of_char d then -1
      else if (of_char c :: int) > of_char d then 1 else demo_compare cs ds)"

lemma demo_compare_anti: "demo_compare a b = - demo_compare b a"
  by (induction a b rule: demo_compare.induct) auto

lemma demo_compare_trans: "demo_compare a b \<le> 0 \<Longrightarrow> demo_compare b c \<le> 0 \<Longrightarrow> demo_compare a c \<le> 0"
proof (induction a arbitrary: b c)
  case Nil
  then show ?case by (cases c) simp_all
next
  case (Cons x xs)
  then obtain y ys z zs where "b = y # ys" and "c = z # zs"
    by (cases b; cases c) auto
  with Cons show ?case by (auto split: if_splits)
qed

lemma demo_compare_ok: "compare_ok demo_compare"
  unfolding compare_ok_def using demo_compare_anti demo_compare_trans by (metis neg_less_0_iff_less)

end
