(* ===== verification/FileModel.thy ===== *)
theory FileModel
  imports StdSort RowModel FileInfo
begin

text \<open>
  The directory view of the file manager, apps/files/src/FileModel.{h,cpp}: a list model over
  the entries of the current directory, loaded on a worker thread, filtered and sorted when
  the load is done.

  A method takes the state and gives the new state with the signals it emits, the model
  resets it announces and the loads it starts, in order. \<open>fm_env\<close> holds the queries of the
  file system, \<open>toLower\<close>, \<open>QString::compare(..., Qt::CaseInsensitive)\<close> and \<open>std::sort\<close>.
  The future that the watcher watches is \<open>fm_watch\<close>, the path it loads.
\<close>

record file_entry =
  fe_fileName :: string
  fe_filePath :: path
  fe_fileSize :: int
  fe_fileType :: string
  fe_mimeType :: string
  fe_lastModified :: int
  fe_lastAccessed :: int
  fe_created :: int
  fe_permissions :: int
  fe_isExecutable :: bool
  fe_isHidden :: bool
  fe_isReadable :: bool
  fe_isWritable :: bool
  fe_iconName :: string
  fe_thumbnail :: string
  fe_owner :: string
  fe_group :: string

datatype sort_order = AscendingOrder | DescendingOrder

definition SortByName :: int where "SortByName = 0"
definition SortBySize :: int where "SortBySize = 1"
definition SortByType :: int where "SortByType = 2"
definition SortByDate :: int where "SortByDate = 3"

record file_model =
  fm_currentPath :: path
  fm_entries :: "file_entry list"
  fm_sortColumn :: int
  fm_sortOrder :: sort_order
  fm_nameFilter :: string
  fm_showHidden :: bool
  fm_loading :: bool
  fm_watch :: "path option"

record fm_env =
  en_isDir :: "path \<Rightarrow> bool"
  en_exists :: "path \<Rightarrow> bool"
  en_isRoot :: "path \<Rightarrow> bool"
  en_dirOf :: "path \<Rightarrow> path"         \<comment> \<open>QFileInfo(p).dir()\<close>
  en_dirExists :: "path \<Rightarrow> bool"
  en_cdUp :: "path \<Rightarrow> path"
  en_absDir :: "path \<Rightarrow> path"        \<comment> \<open>QDir(p).absolutePath()\<close>
  en_absFile :: "path \<Rightarrow> path"       \<comment> \<open>QFileInfo(p).absoluteFilePath()\<close>
  en_toLower :: "string \<Rightarrow> string"
  en_compare :: "string \<Rightarrow> string \<Rightarrow> int"
  en_sort :: "(file_entry \<Rightarrow> file_entry \<Rightarrow> bool) \<Rightarrow> file_entry list \<Rightarrow> file_entry list"

datatype fm_out =
    CurrentPathChanged
  | SortChanged
  | FilterChanged
  | ShowHiddenChanged
  | LoadingChanged
  | FmReset
  | RunLoad path

definition init_file_model :: file_model where
  "init_file_model = \<lparr>fm_currentPath = [], fm_entries = [], fm_sortColumn = SortByName,
     fm_sortOrder = AscendingOrder, fm_nameFilter = [], fm_showHidden = False, fm_loading = False,
     fm_watch = None\<rparr>"


subsection \<open>Loading a directory\<close>

definition fm_fileType :: "qfileinfo \<Rightarrow> string" where
  "fm_fileType fi =
     (if qi_isSymLink fi then ''symlink''
      else if qi_isDir fi then ''directory''
      else if qi_isFile fi then ''file'' else ''other'')"

definition fm_iconName :: "qfileinfo \<Rightarrow> string" where
  "fm_iconName fi =
     (if qi_isDir fi then (if qi_isReadable fi then ''folder'' else ''folder-locked'')
      else if qi_isSymLink fi then ''emblem-symbolic-link''
      else qi_mimeIcon fi)"

definition fm_entry :: "qfileinfo \<Rightarrow> file_entry" where
  "fm_entry fi =
     \<lparr>fe_fileName = qi_fileName fi, fe_filePath = qi_absoluteFilePath fi,
      fe_fileSize = (if qi_isDir fi then 0 else qi_size fi), fe_fileType = fm_fileType fi,
      fe_mimeType = qi_mimeName fi, fe_lastModified = qi_lastModified fi,
      fe_lastAccessed = qi_lastRead fi, fe_created = qi_birthTime fi,
      fe_permissions = qi_permissions fi, fe_isExecutable = qi_isExecutable fi,
      fe_isHidden = qi_isHidden fi, fe_isReadable = qi_isReadable fi,
      fe_isWritable = qi_isWritable fi, fe_iconName = fm_iconName fi,
      fe_thumbnail = (if starts_with (qi_mimeName fi) ''image/''
                      then ''file:///'' @ qi_absoluteFilePath fi else []),
      fe_owner = qi_owner fi, fe_group = qi_group fi\<rparr>"

definition loadDirectory :: "(path \<Rightarrow> bool) \<Rightarrow> (path \<Rightarrow> qfileinfo list) \<Rightarrow> path \<Rightarrow> file_entry list" where
  "loadDirectory dir_exists entryInfoList p =
     (if \<not> dir_exists p then [] else map fm_entry (entryInfoList p))"


subsection \<open>Sorting\<close>

definition fm_cmp :: "fm_env \<Rightarrow> file_model \<Rightarrow> file_entry \<Rightarrow> file_entry \<Rightarrow> int" where
  "fm_cmp V m a b =
     (if fm_sortColumn m = SortByName then en_compare V (fe_fileName a) (fe_fileName b)
      else if fm_sortColumn m = SortBySize then
        (if fe_fileSize a < fe_fileSize b then -1 else if fe_fileSize a > fe_fileSize b then 1 else 0)
      else if fm_sortColumn m = SortByType then
        (let cmp = en_compare V (fe_mimeType a) (fe_mimeType b) in
         if cmp = 0 then en_compare V (fe_fileName a) (fe_fileName b) else cmp)
      else if fm_sortColumn m = SortByDate then
        (if fe_lastModified a < fe_lastModified b then -1
         else if fe_lastModified a > fe_lastModified b then 1 else 0)
      else 0)"

definition fm_less :: "fm_env \<Rightarrow> file_model \<Rightarrow> file_entry \<Rightarrow> file_entry \<Rightarrow> bool" where
  "fm_less V m a b =
     (if fe_fileType a = ''directory'' \<and> fe_fileType b \<noteq> ''directory'' then True
      else if fe_fileType a \<noteq> ''directory'' \<and> fe_fileType b = ''directory'' then False
      else if fm_sortOrder m = AscendingOrder then fm_cmp V m a b < 0
      else fm_cmp V m a b > 0)"

definition sortEntries :: "fm_env \<Rightarrow> file_model \<Rightarrow> file_model" where
  "sortEntries V m =
     (if fm_entries m = [] then m else m\<lparr>fm_entries := en_sort V (fm_less V m) (fm_entries m)\<rparr>)"

definition applySort :: "fm_env \<Rightarrow> file_model \<Rightarrow> file_model \<times> fm_out list" where
  "applySort V m = (if fm_entries m = [] then (m, []) else (sortEntries V m, [FmReset]))"


subsection \<open>Loads\<close>

definition startDirectoryLoad :: "path \<Rightarrow> file_model \<Rightarrow> file_model \<times> fm_out list" where
  "startDirectoryLoad p m =
     (m\<lparr>fm_loading := True, fm_watch := Some p\<rparr>,
      (if \<not> fm_loading m then [LoadingChanged] else []) @ [RunLoad p])"

definition refresh :: "file_model \<Rightarrow> file_model \<times> fm_out list" where
  "refresh m = (if fm_currentPath m = [] then (m, []) else startDirectoryLoad (fm_currentPath m) m)"

definition fm_passes :: "fm_env \<Rightarrow> file_model \<Rightarrow> file_entry \<Rightarrow> bool" where
  "fm_passes V m e \<longleftrightarrow>
     (fm_showHidden m \<or> \<not> fe_isHidden e) \<and>
     (fm_nameFilter m = [] \<or>
      str_contains (en_toLower V (fe_fileName e)) (en_toLower V (fm_nameFilter m)))"

definition onDirectoryLoaded :: "fm_env \<Rightarrow> file_entry list \<Rightarrow> file_model \<Rightarrow> file_model \<times> fm_out list" where
  "onDirectoryLoaded V result m =
     (let r1 = (if \<not> fm_showHidden m then filter (\<lambda>e. \<not> fe_isHidden e) result else result);
          r2 = (if fm_nameFilter m \<noteq> [] then
                  filter (\<lambda>e. \<not> \<not> str_contains (en_toLower V (fe_fileName e)) (en_toLower V (fm_nameFilter m))) r1
                else r1);
          m1 = sortEntries V (m\<lparr>fm_entries := r2, fm_watch := None\<rparr>)
      in (m1\<lparr>fm_loading := False\<rparr>, FmReset # (if fm_loading m1 then [LoadingChanged] else [])))"


subsection \<open>Properties and navigation\<close>

definition setCurrentPath :: "path \<Rightarrow> file_model \<Rightarrow> file_model \<times> fm_out list" where
  "setCurrentPath p m =
     (if p = fm_currentPath m then (m, [])
      else (case refresh (m\<lparr>fm_currentPath := p\<rparr>) of (m1, o1) \<Rightarrow> (m1, CurrentPathChanged # o1)))"

definition setSortColumn :: "fm_env \<Rightarrow> int \<Rightarrow> file_model \<Rightarrow> file_model \<times> fm_out list" where
  "setSortColumn V column m =
     (if column = fm_sortColumn m then (m, [])
      else (case applySort V (m\<lparr>fm_sortColumn := column\<rparr>) of (m1, o1) \<Rightarrow> (m1, o1 @ [SortChanged])))"

definition setSortOrder :: "fm_env \<Rightarrow> sort_order \<Rightarrow> file_model \<Rightarrow> file_model \<times> fm_out list" where
  "setSortOrder V order m =
     (if order = fm_sortOrder m then (m, [])
      else (case applySort V (m\<lparr>fm_sortOrder := order\<rparr>) of (m1, o1) \<Rightarrow> (m1, o1 @ [SortChanged])))"

definition setNameFilter :: "string \<Rightarrow> file_model \<Rightarrow> file_model \<times> fm_out list" where
  "setNameFilter f m =
     (if f = fm_nameFilter m then (m, [])
      else (case refresh (m\<lparr>fm_nameFilter := f\<rparr>) of (m1, o1) \<Rightarrow> (m1, FilterChanged # o1)))"

definition setShowHidden :: "bool \<Rightarrow> file_model \<Rightarrow> file_model \<times> fm_out list" where
  "setShowHidden show_h m =
     (if show_h = fm_showHidden m then (m, [])
      else (case refresh (m\<lparr>fm_showHidden := show_h\<rparr>) of (m1, o1) \<Rightarrow> (m1, ShowHiddenChanged # o1)))"

definition navigateUp :: "fm_env \<Rightarrow> file_model \<Rightarrow> file_model \<times> fm_out list" where
  "navigateUp V m =
     (let dir = (if en_isDir V (fm_currentPath m) then fm_currentPath m else en_dirOf V (fm_currentPath m)) in
      if en_dirExists V dir then setCurrentPath (en_absDir V (en_cdUp V dir)) m else (m, []))"

definition navigateTo :: "fm_env \<Rightarrow> path \<Rightarrow> file_model \<Rightarrow> file_model \<times> fm_out list" where
  "navigateTo V p m =
     (if en_exists V p \<and> en_isDir V p then setCurrentPath (en_absFile V p) m else (m, []))"

definition parentPath :: "fm_env \<Rightarrow> path \<Rightarrow> path" where
  "parentPath V p = (if en_isRoot V p then p else en_absDir V (en_dirOf V p))"


subsection \<open>The model interface\<close>

definition entryToMap :: "file_entry \<Rightarrow> (string \<times> variant) list" where
  "entryToMap e =
     [(''fileName'', VStr (fe_fileName e)), (''filePath'', VStr (fe_filePath e)),
      (''fileSize'', VInt (fe_fileSize e)), (''fileType'', VStr (fe_fileType e)),
      (''mimeType'', VStr (fe_mimeType e)), (''lastModified'', VTime (fe_lastModified e)),
      (''lastAccessed'', VTime (fe_lastAccessed e)), (''created'', VTime (fe_created e)),
      (''permissions'', VInt (fe_permissions e)), (''isExecutable'', VBool (fe_isExecutable e)),
      (''isHidden'', VBool (fe_isHidden e)), (''isReadable'', VBool (fe_isReadable e)),
      (''isWritable'', VBool (fe_isWritable e)), (''iconName'', VStr (fe_iconName e)),
      (''thumbnail'', VStr (fe_thumbnail e)), (''owner'', VStr (fe_owner e)),
      (''group'', VStr (fe_group e))]"

datatype fm_role =
    FileNameRole | FilePathRole | FileSizeRole | FileTypeRole | MimeTypeRole | LastModifiedRole
  | LastAccessedRole | CreatedRole | PermissionsRole | IsExecutableRole | IsHiddenRole
  | IsReadableRole | IsWritableRole | IconNameRole | ThumbnailRole | OwnerRole | GroupRole
  | FileEntryRole | DisplayRole | DecorationRole | FmOtherRole

definition fm_rowCount :: "file_model \<Rightarrow> nat option \<Rightarrow> nat" where
  "fm_rowCount m parent = (if parent \<noteq> None then 0 else length (fm_entries m))"

fun fm_cell :: "file_entry \<Rightarrow> fm_role \<Rightarrow> variant" where
  "fm_cell e FileNameRole = VStr (fe_fileName e)"
| "fm_cell e FilePathRole = VStr (fe_filePath e)"
| "fm_cell e FileSizeRole = VInt (fe_fileSize e)"
| "fm_cell e FileTypeRole = VStr (fe_fileType e)"
| "fm_cell e MimeTypeRole = VStr (fe_mimeType e)"
| "fm_cell e LastModifiedRole = VTime (fe_lastModified e)"
| "fm_cell e LastAccessedRole = VTime (fe_lastAccessed e)"
| "fm_cell e CreatedRole = VTime (fe_created e)"
| "fm_cell e PermissionsRole = VInt (fe_permissions e)"
| "fm_cell e IsExecutableRole = VBool (fe_isExecutable e)"
| "fm_cell e IsHiddenRole = VBool (fe_isHidden e)"
| "fm_cell e IsReadableRole = VBool (fe_isReadable e)"
| "fm_cell e IsWritableRole = VBool (fe_isWritable e)"
| "fm_cell e IconNameRole = VStr (fe_iconName e)"
| "fm_cell e ThumbnailRole = VStr (fe_thumbnail e)"
| "fm_cell e OwnerRole = VStr (fe_owner e)"
| "fm_cell e GroupRole = VStr (fe_group e)"
| "fm_cell e FileEntryRole = VMap (entryToMap e)"
| "fm_cell e DisplayRole = VStr (fe_fileName e)"
| "fm_cell e DecorationRole = VIcon (fe_iconName e)"
| "fm_cell e FmOtherRole = VInvalid"

definition fm_data :: "file_model \<Rightarrow> nat option \<Rightarrow> fm_role \<Rightarrow> variant" where
  "fm_data m index role =
     (case index of
        None \<Rightarrow> VInvalid
      | Some row \<Rightarrow> if row \<ge> length (fm_entries m) then VInvalid else fm_cell (fm_entries m ! row) role)"

definition fm_roleNames :: "(fm_role \<times> string) list" where
  "fm_roleNames =
     [(FileNameRole, ''fileName''), (FilePathRole, ''filePath''), (FileSizeRole, ''fileSize''),
      (FileTypeRole, ''fileType''), (MimeTypeRole, ''mimeType''), (LastModifiedRole, ''lastModified''),
      (LastAccessedRole, ''lastAccessed''), (CreatedRole, ''created''), (PermissionsRole, ''permissions''),
      (IsExecutableRole, ''isExecutable''), (IsHiddenRole, ''isHidden''), (IsReadableRole, ''isReadable''),
      (IsWritableRole, ''isWritable''), (IconNameRole, ''iconName''), (ThumbnailRole, ''thumbnail''),
      (OwnerRole, ''owner''), (GroupRole, ''group'')]"

definition fileInfoAt :: "file_model \<Rightarrow> int \<Rightarrow> (string \<times> variant) list" where
  "fileInfoAt m row =
     (if row < 0 \<or> row \<ge> int (length (fm_entries m)) then [] else entryToMap (fm_entries m ! nat row))"


subsection \<open>Runs\<close>

text \<open>The events the model sees: calls from QML, the watcher's finished signal with the entries
  the worker found, and the load's result \<open>None\<close>-watch guard that QFutureWatcher gives (only
  the future set last can finish).\<close>

datatype fm_event =
    EvSetPath path
  | EvSetSortColumn int
  | EvSetSortOrder sort_order
  | EvSetNameFilter string
  | EvSetShowHidden bool
  | EvRefresh
  | EvNavigateUp
  | EvNavigateTo path
  | EvLoaded "file_entry list"

fun fm_step :: "fm_env \<times> fm_event \<Rightarrow> file_model \<Rightarrow> file_model \<times> fm_out list" where
  "fm_step (V, EvSetPath p) m = setCurrentPath p m"
| "fm_step (V, EvSetSortColumn c) m = setSortColumn V c m"
| "fm_step (V, EvSetSortOrder d) m = setSortOrder V d m"
| "fm_step (V, EvSetNameFilter f) m = setNameFilter f m"
| "fm_step (V, EvSetShowHidden b) m = setShowHidden b m"
| "fm_step (V, EvRefresh) m = refresh m"
| "fm_step (V, EvNavigateUp) m = navigateUp V m"
| "fm_step (V, EvNavigateTo p) m = navigateTo V p m"
| "fm_step (V, EvLoaded es) m = (if fm_watch m = None then (m, []) else onDirectoryLoaded V es m)"

fun fm_run :: "(fm_env \<times> fm_event) list \<Rightarrow> file_model \<Rightarrow> file_model" where
  "fm_run [] m = m"
| "fm_run (e # es) m = fm_run es (fst (fm_step e m))"

text \<open>What the last finished load found.\<close>

fun fm_last_load :: "(fm_env \<times> fm_event) list \<Rightarrow> file_model \<Rightarrow> file_entry list \<Rightarrow> file_entry list" where
  "fm_last_load [] m r = r"
| "fm_last_load (e # es) m r =
     fm_last_load es (fst (fm_step e m))
       (case snd e of EvLoaded es' \<Rightarrow> if fm_watch m = None then r else es' | _ \<Rightarrow> r)"

lemma filter_not_not: "filter (\<lambda>x. \<not> \<not> P x) xs = filter P xs"
  by simp

lemma loaded_entries:
  "fm_entries (fst (onDirectoryLoaded V es m)) =
     (let r = filter (fm_passes V m) es in if r = [] then [] else en_sort V (fm_less V m) r)"
proof -
  have "(let r1 = (if \<not> fm_showHidden m then filter (\<lambda>e. \<not> fe_isHidden e) es else es) in
      if fm_nameFilter m \<noteq> [] then
        filter (\<lambda>e. \<not> \<not> str_contains (en_toLower V (fe_fileName e)) (en_toLower V (fm_nameFilter m))) r1
      else r1) = filter (fm_passes V m) es"
    by (auto simp: fm_passes_def Let_def intro!: filter_cong)
  moreover have "fm_less V (m\<lparr>fm_entries := r, fm_watch := w\<rparr>) = fm_less V m" for r w
    by (intro ext) (simp add: fm_less_def fm_cmp_def)
  ultimately show ?thesis
    by (simp add: onDirectoryLoaded_def sortEntries_def Let_def)
qed

lemma fm_less_upd [simp]:
  "fm_less V (m\<lparr>fm_entries := es\<rparr>) = fm_less V m" "fm_less V (m\<lparr>fm_loading := l\<rparr>) = fm_less V m"
  "fm_less V (m\<lparr>fm_watch := w\<rparr>) = fm_less V m" "fm_less V (m\<lparr>fm_currentPath := p\<rparr>) = fm_less V m"
  "fm_less V (m\<lparr>fm_nameFilter := f\<rparr>) = fm_less V m" "fm_less V (m\<lparr>fm_showHidden := b\<rparr>) = fm_less V m"
  by (auto simp: fm_less_def fm_cmp_def fun_eq_iff)

lemma fm_passes_upd [simp]:
  "fm_passes V (m\<lparr>fm_entries := es\<rparr>) = fm_passes V m" "fm_passes V (m\<lparr>fm_loading := l\<rparr>) = fm_passes V m"
  "fm_passes V (m\<lparr>fm_watch := w\<rparr>) = fm_passes V m" "fm_passes V (m\<lparr>fm_currentPath := p\<rparr>) = fm_passes V m"
  "fm_passes V (m\<lparr>fm_sortColumn := c\<rparr>) = fm_passes V m" "fm_passes V (m\<lparr>fm_sortOrder := d\<rparr>) = fm_passes V m"
  by (auto simp: fm_passes_def fun_eq_iff)

text \<open>The comparison is a strict weak order, which is what \<open>std::sort\<close> requires, for every
  column number, also one that is not a column.\<close>

definition dir_rank :: "file_entry \<Rightarrow> int" where
  "dir_rank e = (if fe_fileType e = ''directory'' then 0 else 1)"

lemma fm_cmp_ok:
  assumes "compare_ok (en_compare V)"
  shows "compare_ok (fm_cmp V m)"
proof -
  note by_name = compare_ok_by [OF assms, of fe_fileName] and by_mime = compare_ok_by [OF assms, of fe_mimeType]
  note by_size = int_compare_ok [of fe_fileSize] and by_date = int_compare_ok [of fe_lastModified]
  have zero: "compare_ok (\<lambda>a b. 0 :: int)" by (simp add: compare_ok_def)
  consider "fm_sortColumn m = SortByName" | "fm_sortColumn m = SortBySize" | "fm_sortColumn m = SortByType"
    | "fm_sortColumn m = SortByDate"
    | "fm_sortColumn m \<notin> {SortByName, SortBySize, SortByType, SortByDate}" by blast
  then show ?thesis
    using by_name by_size by_date compare_ok_lex [OF by_mime by_name] zero
    by cases (simp_all add: fm_cmp_def [abs_def] int_compare_def Let_def SortByName_def SortBySize_def
        SortByType_def SortByDate_def)
qed

lemma fm_less_lex:
  "fm_less V m a b \<longleftrightarrow>
     (let c = (if fm_sortOrder m = AscendingOrder then fm_cmp V m a b else - fm_cmp V m a b);
          r = int_compare (dir_rank a) (dir_rank b)
      in (if r = 0 then c else r) < 0)"
  by (auto simp: fm_less_def int_compare_def dir_rank_def Let_def)

lemma fm_less_strict_weak:
  assumes "compare_ok (en_compare V)"
  shows "strict_weak (fm_less V m)"
proof -
  have "compare_ok (\<lambda>a b. if fm_sortOrder m = AscendingOrder then fm_cmp V m a b else - fm_cmp V m a b)"
    using fm_cmp_ok [OF assms] compare_ok_flip [OF fm_cmp_ok [OF assms]]
    by (cases "fm_sortOrder m") simp_all
  from strict_weak_compare [OF compare_ok_lex [OF int_compare_ok [of dir_rank] this]]
  show ?thesis by (simp add: fm_less_lex [abs_def] Let_def)
qed

definition env_ok :: "fm_env \<Rightarrow> bool" where
  "env_ok V \<longleftrightarrow> compare_ok (en_compare V) \<and> sort_ok (en_sort V)"

text \<open>\<open>same_tables\<close>: case folding and collation do not change during a run, only the file
  system does.\<close>

definition same_tables :: "fm_env \<Rightarrow> fm_env \<Rightarrow> bool" where
  "same_tables V W \<longleftrightarrow> en_compare W = en_compare V \<and> en_toLower W = en_toLower V \<and> en_sort W = en_sort V"

lemma same_tables_less: "same_tables V W \<Longrightarrow> fm_less W m = fm_less V m"
  by (auto simp: same_tables_def fm_less_def fm_cmp_def Let_def fun_eq_iff)

lemma same_tables_passes: "same_tables V W \<Longrightarrow> fm_passes W m = fm_passes V m"
  by (auto simp: same_tables_def fm_passes_def fun_eq_iff)

definition fm_inv :: "fm_env \<Rightarrow> file_entry list \<Rightarrow> file_model \<Rightarrow> bool" where
  "fm_inv V raw m \<longleftrightarrow>
     (fm_loading m \<longleftrightarrow> fm_watch m \<noteq> None) \<and>
     (\<forall>p. fm_watch m = Some p \<longrightarrow> p = fm_currentPath m) \<and>
     (fm_currentPath m = [] \<longrightarrow> raw = [] \<and> \<not> fm_loading m) \<and>
     in_order (fm_less V m) (fm_entries m) \<and>
     (\<not> fm_loading m \<longrightarrow> mset (fm_entries m) = mset (filter (fm_passes V m) raw))"

text \<open>The environments of a run: one collation, and no empty path (the path \<open>[]\<close> means that no
  directory was chosen yet).\<close>

fun event_ok :: "fm_env \<Rightarrow> fm_env \<times> fm_event \<Rightarrow> bool" where
  "event_ok V (W, e) \<longleftrightarrow> same_tables V W \<and> (\<forall>p. en_absDir W p \<noteq> [] \<and> en_absFile W p \<noteq> []) \<and> e \<noteq> EvSetPath []"

lemma refresh_inv:
  assumes "in_order (fm_less V m) (fm_entries m)"
    and "fm_currentPath m = [] \<Longrightarrow> raw = [] \<and> fm_entries m = [] \<and> \<not> fm_loading m \<and> fm_watch m = None"
  shows "fm_inv V raw (fst (refresh m))"
  using assms by (cases "fm_currentPath m = []") (auto simp: fm_inv_def refresh_def startDirectoryLoad_def)

lemma fm_inv_idle: "fm_inv V raw m \<Longrightarrow> fm_currentPath m = [] \<Longrightarrow>
    raw = [] \<and> fm_entries m = [] \<and> \<not> fm_loading m \<and> fm_watch m = None"
  by (auto simp: fm_inv_def)

lemma setCurrentPath_inv:
  assumes "fm_inv V raw m" and "p \<noteq> []"
  shows "fm_inv V raw (fst (setCurrentPath p m))"
  using assms refresh_inv [of V "m\<lparr>fm_currentPath := p\<rparr>" raw]
  by (auto simp: setCurrentPath_def fm_inv_def split: prod.splits)

lemma sortEntries_inv:
  assumes "env_ok V" and "same_tables V W"
    and "(fm_loading m \<longleftrightarrow> fm_watch m \<noteq> None) \<and> (\<forall>p. fm_watch m = Some p \<longrightarrow> p = fm_currentPath m) \<and>
      (fm_currentPath m = [] \<longrightarrow> raw = [] \<and> \<not> fm_loading m) \<and>
      (\<not> fm_loading m \<longrightarrow> mset (fm_entries m) = mset (filter (fm_passes V m) raw))"
  shows "fm_inv V raw (sortEntries W m)"
proof -
  have "strict_weak (fm_less V m)" and "sort_ok (en_sort W)"
    using assms(1,2) fm_less_strict_weak by (auto simp: env_ok_def same_tables_def)
  from sort_okD [OF this(2,1)] same_tables_less [OF assms(2)] assms(3) show ?thesis
    by (auto simp: fm_inv_def sortEntries_def)
qed

lemma applySort_fst: "fst (applySort V m) = sortEntries V m"
  by (simp add: applySort_def sortEntries_def)

lemma onDirectoryLoaded_inv:
  assumes "env_ok V" and "same_tables V W" and "fm_inv V raw m" and "fm_watch m \<noteq> None"
  shows "fm_inv V es (fst (onDirectoryLoaded W es m))"
proof -
  let ?r = "filter (fm_passes V m) es"
  let ?m' = "fst (onDirectoryLoaded W es m)"
  have same: "fm_less V ?m' = fm_less V m" "fm_passes V ?m' = fm_passes V m"
    "fm_currentPath ?m' = fm_currentPath m" "fm_watch ?m' = None" "\<not> fm_loading ?m'"
    by (auto simp: onDirectoryLoaded_def Let_def sortEntries_def)
  have "fm_entries ?m' = (if ?r = [] then [] else en_sort W (fm_less V m) ?r)"
    using loaded_entries [of W es m] same_tables_less [OF assms(2)] same_tables_passes [OF assms(2)]
    by (simp add: Let_def)
  moreover have "strict_weak (fm_less V m)" and "sort_ok (en_sort W)"
    using assms(1,2) fm_less_strict_weak by (auto simp: env_ok_def same_tables_def)
  note sort_okD [OF this(2,1), of ?r]
  moreover have "fm_currentPath m \<noteq> []" using assms(3,4) by (auto simp: fm_inv_def)
  ultimately show ?thesis unfolding fm_inv_def by (cases "?r = []") (simp_all add: same)
qed

lemma setSort_fst:
  "fst (setSortColumn V c m) = (if c = fm_sortColumn m then m else sortEntries V (m\<lparr>fm_sortColumn := c\<rparr>))"
  "fst (setSortOrder V d m) = (if d = fm_sortOrder m then m else sortEntries V (m\<lparr>fm_sortOrder := d\<rparr>))"
  by (simp_all add: setSortColumn_def setSortOrder_def applySort_def sortEntries_def)

lemma fm_step_inv:
  assumes "env_ok V" and "event_ok V e" and "fm_inv V raw m"
  shows "fm_inv V (fm_last_load [e] m raw) (fst (fm_step e m))"
proof -
  obtain W ev where e: "e = (W, ev)" by (cases e)
  with assms(2) have tables: "same_tables V W" by simp
  show ?thesis
  proof (cases ev)
    case (EvSetSortColumn c)
    have "fm_inv V raw (sortEntries W (m\<lparr>fm_sortColumn := c\<rparr>))"
      by (rule sortEntries_inv [OF assms(1) tables]) (use assms(3) in \<open>auto simp: fm_inv_def\<close>)
    with e EvSetSortColumn assms(3) show ?thesis by (simp add: setSort_fst)
  next
    case (EvSetSortOrder d)
    have "fm_inv V raw (sortEntries W (m\<lparr>fm_sortOrder := d\<rparr>))"
      by (rule sortEntries_inv [OF assms(1) tables]) (use assms(3) in \<open>auto simp: fm_inv_def\<close>)
    with e EvSetSortOrder assms(3) show ?thesis by (simp add: setSort_fst)
  next
    case (EvSetNameFilter f)
    have "fm_inv V raw (fst (refresh (m\<lparr>fm_nameFilter := f\<rparr>)))"
      by (rule refresh_inv) (use assms(3) in \<open>auto simp: fm_inv_def\<close>)
    with e EvSetNameFilter assms(3) show ?thesis by (simp add: setNameFilter_def case_prod_beta)
  next
    case (EvSetShowHidden b)
    have "fm_inv V raw (fst (refresh (m\<lparr>fm_showHidden := b\<rparr>)))"
      by (rule refresh_inv) (use assms(3) in \<open>auto simp: fm_inv_def\<close>)
    then have "fm_inv V raw (fst (setShowHidden b m))"
      unfolding setShowHidden_def case_prod_beta using assms(3) by (cases "b = fm_showHidden m") simp_all
    with e EvSetShowHidden show ?thesis by simp
  next
    case EvRefresh
    have "fm_inv V raw (fst (refresh m))"
      by (rule refresh_inv) (use assms(3) in \<open>auto simp: fm_inv_def\<close>)
    with e EvRefresh show ?thesis by simp
  next
    case (EvLoaded es)
    with e assms(3) onDirectoryLoaded_inv [OF assms(1) tables assms(3)] show ?thesis by auto
  next
    case EvNavigateUp
    with e assms setCurrentPath_inv [OF assms(3)] show ?thesis by (auto simp: navigateUp_def Let_def)
  next
    case (EvNavigateTo p)
    with e assms setCurrentPath_inv [OF assms(3)] show ?thesis by (auto simp: navigateTo_def)
  next
    case (EvSetPath p)
    with e assms setCurrentPath_inv [OF assms(3)] show ?thesis by auto
  qed
qed

lemma fm_run_inv:
  assumes "env_ok V"
  shows "list_all (event_ok V) es \<Longrightarrow> fm_inv V raw m \<Longrightarrow> fm_inv V (fm_last_load es m raw) (fm_run es m)"
proof (induction es arbitrary: m raw)
  case Nil
  then show ?case by simp
next
  case (Cons e es)
  from fm_step_inv [OF assms _ Cons.prems(2), of e] Cons.prems(1) Cons.IH show ?case by simp
qed

text \<open>
  C21. The directory view shows the right files. After any sequence of navigation, sorting,
  filtering and finished loads: the view is loading exactly while a load of the current
  directory is outstanding; the entries shown are in the order asked for, directories first;
  and when nothing is outstanding they are exactly the entries of the last load that are
  neither hidden (unless wanted) nor excluded by the current filter, no matter in which order
  filter, sort column and path were changed.
\<close>

theorem directory_view:
  assumes "env_ok V" and "list_all (event_ok V) es"
  shows "let m = fm_run es init_file_model; raw = fm_last_load es init_file_model [] in
    (fm_loading m \<longleftrightarrow> fm_watch m = Some (fm_currentPath m)) \<and>
    in_order (fm_less V m) (fm_entries m) \<and>
    (\<not> fm_loading m \<longrightarrow> mset (fm_entries m) = mset (filter (fm_passes V m) raw))"
proof -
  have "fm_inv V [] init_file_model" by (simp add: fm_inv_def init_file_model_def)
  from fm_run_inv [OF assms this] show ?thesis by (auto simp: fm_inv_def Let_def)
qed

definition demo_fm_env :: fm_env where
  "demo_fm_env = \<lparr>en_isDir = (\<lambda>p. True), en_exists = (\<lambda>p. True), en_isRoot = (\<lambda>p. p = ''/''),
     en_dirOf = (\<lambda>p. p), en_dirExists = (\<lambda>p. True), en_cdUp = (\<lambda>p. ''/''), en_absDir = (\<lambda>p. ''/''),
     en_absFile = (\<lambda>p. CHR ''/'' # p), en_toLower = (\<lambda>s. s), en_compare = demo_compare, en_sort = isort\<rparr>"

lemma demo_fm_env_ok: "env_ok demo_fm_env"
  by (simp add: env_ok_def demo_fm_env_def demo_compare_ok isort_ok)

definition demo_files :: "file_entry list" where
  "demo_files = map fm_entry
     [plain_info\<lparr>qi_fileName := ''b''\<rparr>, plain_info\<lparr>qi_fileName := ''.h'', qi_isHidden := True\<rparr>,
      plain_info\<lparr>qi_fileName := ''a''\<rparr>, plain_info\<lparr>qi_fileName := ''z'', qi_isDir := True, qi_isFile := False\<rparr>]"

definition demo_fm_events :: "(fm_env \<times> fm_event) list" where
  "demo_fm_events = map (\<lambda>e. (demo_fm_env, e))
     [EvSetPath ''/u'', EvLoaded demo_files, EvSetSortOrder DescendingOrder, EvSetSortOrder AscendingOrder]"

theorem directory_view_witness:
  "let m = fm_run demo_fm_events init_file_model in
     \<not> fm_loading m \<and> in_order (fm_less demo_fm_env m) (fm_entries m) \<and>
     map fe_fileName (fm_entries m) = [''z'', ''a'', ''b'']"
proof -
  have ok: "list_all (event_ok demo_fm_env) demo_fm_events"
    by (simp add: demo_fm_events_def same_tables_def demo_fm_env_def)
  have "map fe_fileName (fm_entries (fm_run demo_fm_events init_file_model)) = [''z'', ''a'', ''b'']"
    and "\<not> fm_loading (fm_run demo_fm_events init_file_model)" by code_simp+
  with directory_view [OF demo_fm_env_ok ok] show ?thesis by (simp add: Let_def)
qed


subsection \<open>The row contract\<close>

definition fm_notifs :: "fm_out list \<Rightarrow> row_notif list" where
  "fm_notifs os = map (\<lambda>_. ModelReset) (filter (\<lambda>x. x = FmReset) os)"

lemma fm_quiet:
  "FmReset \<notin> set (snd (refresh m)) \<and> fm_entries (fst (refresh m)) = fm_entries m"
  by (simp add: refresh_def startDirectoryLoad_def)

lemma fm_quiet_path:
  "FmReset \<notin> set (snd (setCurrentPath p m)) \<and> fm_entries (fst (setCurrentPath p m)) = fm_entries m"
  using fm_quiet [of "m\<lparr>fm_currentPath := p\<rparr>"] by (auto simp: setCurrentPath_def split: prod.splits)

lemma fm_quiet_filters:
  "FmReset \<notin> set (snd (setNameFilter f m)) \<and> fm_entries (fst (setNameFilter f m)) = fm_entries m"
  "FmReset \<notin> set (snd (setShowHidden b m)) \<and> fm_entries (fst (setShowHidden b m)) = fm_entries m"
  using fm_quiet [of "m\<lparr>fm_nameFilter := f\<rparr>"] fm_quiet [of "m\<lparr>fm_showHidden := b\<rparr>"]
  by (auto simp: setNameFilter_def setShowHidden_def split: prod.splits)

lemma replay_reset: "FmReset \<in> set os \<Longrightarrow> replay new (fm_notifs os) v = new"
proof (induction os arbitrary: v)
  case Nil
  then show ?case by simp
next
  case (Cons x os)
  have "replay new (map (\<lambda>_. ModelReset) ys) new = new" for ys :: "fm_out list"
    by (induction ys) (simp_all add: replay_def)
  with Cons show ?case by (auto simp: fm_notifs_def replay_def)
qed

lemma replay_quiet: "FmReset \<notin> set os \<Longrightarrow> replay new (fm_notifs os) v = v"
  unfolding fm_notifs_def by (subst filter_False) auto

lemma fm_step_rows:
  "replay (fm_entries (fst (fm_step e m))) (fm_notifs (snd (fm_step e m))) (fm_entries m)
     = fm_entries (fst (fm_step e m))"
proof (cases "FmReset \<in> set (snd (fm_step e m))")
  case True
  then show ?thesis by (rule replay_reset)
next
  case False
  moreover have "fm_entries (fst (fm_step e m)) = fm_entries m"
  proof -
    obtain W ev where "e = (W, ev)" by (cases e)
    with False show ?thesis
      by (cases ev) (auto simp: fm_quiet_path fm_quiet fm_quiet_filters navigateUp_def navigateTo_def Let_def
          onDirectoryLoaded_def setSortColumn_def setSortOrder_def applySort_def split: if_splits)
  qed
  ultimately show ?thesis by (simp add: replay_quiet)
qed

interpretation file_rows:
  row_model fm_entries "\<lambda>e m. fst (fm_step e m)" "\<lambda>e m. fm_notifs (snd (fm_step e m))"
  by unfold_locales (rule fm_step_rows)

interpretation file_items: item_model fm_entries fm_rowCount fm_data fm_cell fm_roleNames
  by unfold_locales
    (auto simp: fm_rowCount_def fm_data_def fm_roleNames_def)

end
