(* ===== verification/FsWatcher.thy ===== *)
theory FsWatcher
  imports FileModel
begin

text \<open>
  The debounced directory watcher, apps/files/src/FileSystemWatcher.{h,cpp}, and how
  apps/files/src/main.cpp ties it to the directory view: a change of the watched directory
  reloads the view, and a change of the view's path moves the watch.

  A QSet of pending paths is a list without duplicates; the order in which QSet is iterated is
  the parameter \<open>each\<close>, a permutation. \<open>fw_watches\<close> are the paths in the QFileSystemWatcher; \<open>ok p\<close> says whether
  \<open>addPath p\<close> succeeds.
\<close>

record fs_watcher =
  fw_watches :: "path list"
  fw_watchedPath :: path
  fw_timer :: bool
  fw_pendingDirs :: "path list"
  fw_pendingFiles :: "path list"

datatype fw_out = DirectoryChanged path | FileChanged path | WatchedPathChanged

definition init_fs_watcher :: fs_watcher where
  "init_fs_watcher = \<lparr>fw_watches = [], fw_watchedPath = [], fw_timer = False,
     fw_pendingDirs = [], fw_pendingFiles = []\<rparr>"

definition setWatchedPath :: "(path \<Rightarrow> bool) \<Rightarrow> path \<Rightarrow> fs_watcher \<Rightarrow> fs_watcher \<times> fw_out list" where
  "setWatchedPath ok p w =
     (if p = fw_watchedPath w then (w, [])
      else
        let w1 = (if fw_watchedPath w \<noteq> [] then w\<lparr>fw_watches := removeAll (fw_watchedPath w) (fw_watches w)\<rparr> else w);
            w2 = w1\<lparr>fw_watchedPath := p\<rparr>;
            w3 = (if p \<noteq> [] \<and> ok p then w2\<lparr>fw_watches := List.insert p (fw_watches w2)\<rparr> else w2)
        in (w3, [WatchedPathChanged]))"

definition onDirectoryChanged :: "path \<Rightarrow> fs_watcher \<Rightarrow> fs_watcher" where
  "onDirectoryChanged p w = w\<lparr>fw_pendingDirs := List.insert p (fw_pendingDirs w), fw_timer := True\<rparr>"

definition onFileChanged :: "path \<Rightarrow> fs_watcher \<Rightarrow> fs_watcher" where
  "onFileChanged p w = w\<lparr>fw_pendingFiles := List.insert p (fw_pendingFiles w), fw_timer := True\<rparr>"

definition onDebounceTimeout :: "(path list \<Rightarrow> path list) \<Rightarrow> fs_watcher \<Rightarrow> fs_watcher \<times> fw_out list" where
  "onDebounceTimeout each w =
     (w\<lparr>fw_timer := False, fw_pendingDirs := [], fw_pendingFiles := []\<rparr>,
      map DirectoryChanged (each (fw_pendingDirs w)) @ map FileChanged (each (fw_pendingFiles w)))"

datatype fw_event = FwSet path | FwDir path | FwFile path | FwTimeout

fun fw_step :: "(path \<Rightarrow> bool) \<Rightarrow> (path list \<Rightarrow> path list) \<Rightarrow> fw_event \<Rightarrow> fs_watcher \<Rightarrow> fs_watcher \<times> fw_out list" where
  "fw_step ok each (FwSet p) w = setWatchedPath ok p w"
| "fw_step ok each (FwDir p) w = (onDirectoryChanged p w, [])"
| "fw_step ok each (FwFile p) w = (onFileChanged p w, [])"
| "fw_step ok each FwTimeout w = (if fw_timer w then onDebounceTimeout each w else (w, []))"

fun fw_run :: "(path \<Rightarrow> bool) \<Rightarrow> (path list \<Rightarrow> path list) \<Rightarrow> fw_event list \<Rightarrow> fs_watcher \<Rightarrow> fs_watcher \<times> fw_out list" where
  "fw_run ok each [] w = (w, [])"
| "fw_run ok each (e # es) w =
     (case fw_step ok each e w of (w1, o1) \<Rightarrow> case fw_run ok each es w1 of (w2, o2) \<Rightarrow> (w2, o1 @ o2))"

definition enumerates :: "(path list \<Rightarrow> path list) \<Rightarrow> bool" where
  "enumerates each \<longleftrightarrow> (\<forall>xs. mset (each xs) = mset xs)"

lemma enumeratesD: "enumerates each \<Longrightarrow> distinct xs \<Longrightarrow> set (each xs) = set xs \<and> distinct (each xs)"
  unfolding enumerates_def by (metis mset_eq_imp_distinct_iff mset_eq_setD)

definition fw_inv :: "fs_watcher \<Rightarrow> bool" where
  "fw_inv w \<longleftrightarrow> set (fw_watches w) \<subseteq> {fw_watchedPath w} - {[]} \<and> distinct (fw_pendingDirs w) \<and>
     distinct (fw_pendingFiles w) \<and> (fw_timer w \<longleftrightarrow> fw_pendingDirs w \<noteq> [] \<or> fw_pendingFiles w \<noteq> [])"

lemma insert_ne [simp, list_ops]: "List.insert x xs \<noteq> []"
  by (cases xs) (simp_all add: List.insert_def)

lemma fw_step_inv: "fw_inv w \<Longrightarrow> fw_inv (fst (fw_step ok each e w))"
  by (cases e) (auto simp: fw_inv_def setWatchedPath_def onDirectoryChanged_def onFileChanged_def
      onDebounceTimeout_def Let_def)

lemma fw_run_inv: "fw_inv w \<Longrightarrow> fw_inv (fst (fw_run ok each es w))"
proof (induction es arbitrary: w)
  case Nil
  then show ?case by simp
next
  case (Cons e es)
  from fw_step_inv [OF Cons.prems] Cons.IH show ?case by (auto split: prod.splits) (metis fst_conv)
qed

text \<open>A burst: changes reported by the operating system while the timer is pending.\<close>

fun burst :: "fw_event \<Rightarrow> bool" where
  "burst (FwDir p) = True"
| "burst (FwFile p) = True"
| "burst e = False"

lemma burst_run:
  "list_all burst es \<Longrightarrow>
    (let w' = fst (fw_run ok each es w) in
      snd (fw_run ok each es w) = [] \<and>
      set (fw_pendingDirs w') = set (fw_pendingDirs w) \<union> {p. FwDir p \<in> set es} \<and>
      set (fw_pendingFiles w') = set (fw_pendingFiles w) \<union> {p. FwFile p \<in> set es} \<and>
      (fw_timer w' \<longleftrightarrow> fw_timer w \<or> es \<noteq> []))"
proof (induction es arbitrary: w)
  case Nil
  then show ?case by simp
next
  case (Cons e es)
  then show ?case
    by (cases e) (auto simp: Let_def onDirectoryChanged_def onFileChanged_def split: prod.splits)
qed




subsection \<open>The file manager: view and watcher together\<close>

text \<open>main makes the two objects, navigates to the home directory, and only then connects
  \<open>directoryChanged\<close> to \<open>refresh\<close> and \<open>currentPathChanged\<close> to \<open>setWatchedPath\<close>.\<close>

record files_app =
  fa_model :: file_model
  fa_watcher :: fs_watcher

datatype fa_event = FaModel "fm_env \<times> fm_event" | FaChanged path | FaTimeout

definition files_start :: "path \<Rightarrow> files_app" where
  "files_start home = \<lparr>fa_model = fst (setCurrentPath home init_file_model), fa_watcher = init_fs_watcher\<rparr>"

fun refresh_each :: "fw_out list \<Rightarrow> file_model \<Rightarrow> file_model" where
  "refresh_each [] m = m"
| "refresh_each (DirectoryChanged p # os) m = refresh_each os (fst (refresh m))"
| "refresh_each (_ # os) m = refresh_each os m"

fun files_step :: "(path \<Rightarrow> bool) \<Rightarrow> (path list \<Rightarrow> path list) \<Rightarrow> fa_event \<Rightarrow> files_app \<Rightarrow> files_app" where
  "files_step ok each (FaModel e) a =
     (case fm_step e (fa_model a) of (m, os) \<Rightarrow>
      a\<lparr>fa_model := m,
        fa_watcher := (if CurrentPathChanged \<in> set os
                       then fst (setWatchedPath ok (fm_currentPath m) (fa_watcher a)) else fa_watcher a)\<rparr>)"
| "files_step ok each (FaChanged p) a =
     (if p \<in> set (fw_watches (fa_watcher a))
      then a\<lparr>fa_watcher := onDirectoryChanged p (fa_watcher a)\<rparr> else a)"
| "files_step ok each FaTimeout a =
     (case fw_step ok each FwTimeout (fa_watcher a) of (w, os) \<Rightarrow>
      a\<lparr>fa_watcher := w, fa_model := refresh_each os (fa_model a)\<rparr>)"

fun files_run :: "(path \<Rightarrow> bool) \<Rightarrow> (path list \<Rightarrow> path list) \<Rightarrow> fa_event list \<Rightarrow> files_app \<Rightarrow> files_app" where
  "files_run ok each [] a = a"
| "files_run ok each (e # es) a = files_run ok each es (files_step ok each e a)"

lemma refresh_path [simp]: "fm_currentPath (fst (refresh m)) = fm_currentPath m"
  by (simp add: refresh_def startDirectoryLoad_def)

lemma refresh_each_path [simp]: "fm_currentPath (refresh_each os m) = fm_currentPath m"
  by (induction os m rule: refresh_each.induct) auto

lemma refresh_quiet [simp]: "CurrentPathChanged \<notin> set (snd (refresh m))"
  by (simp add: refresh_def startDirectoryLoad_def)

lemma setCurrentPath_announces:
  "CurrentPathChanged \<notin> set (snd (setCurrentPath p m)) \<Longrightarrow>
    fm_currentPath (fst (setCurrentPath p m)) = fm_currentPath m"
  by (auto simp: setCurrentPath_def split: if_splits prod.splits)

lemma sortEntries_path [simp]: "fm_currentPath (sortEntries V m) = fm_currentPath m"
  by (simp add: sortEntries_def)

lemma fm_step_announces:
  "CurrentPathChanged \<notin> set (snd (fm_step e m)) \<Longrightarrow> fm_currentPath (fst (fm_step e m)) = fm_currentPath m"
proof -
  assume quiet: "CurrentPathChanged \<notin> set (snd (fm_step e m))"
  obtain V ev where e: "e = (V, ev)" by (cases e)
  have "fm_currentPath (fst (setNameFilter f m)) = fm_currentPath m"
    "fm_currentPath (fst (setShowHidden b m)) = fm_currentPath m" for f b
    by (simp_all add: setNameFilter_def setShowHidden_def case_prod_beta)
  then show ?thesis
    using quiet setCurrentPath_announces unfolding e
    by (cases ev) (auto simp: navigateUp_def navigateTo_def Let_def onDirectoryLoaded_def setSort_fst
        split: if_splits)
qed

lemma setWatchedPath_sets: "fw_watchedPath (fst (setWatchedPath ok p w)) = p"
  by (simp add: setWatchedPath_def Let_def)

definition fa_inv :: "path \<Rightarrow> files_app \<Rightarrow> bool" where
  "fa_inv home a \<longleftrightarrow>
     (fw_watchedPath (fa_watcher a) = fm_currentPath (fa_model a) \<or>
      fw_watchedPath (fa_watcher a) = [] \<and> fm_currentPath (fa_model a) = home) \<and>
     set (fw_watches (fa_watcher a)) \<subseteq> {fw_watchedPath (fa_watcher a)} - {[]}"

lemma files_step_inv: "fa_inv home a \<Longrightarrow> fa_inv home (files_step ok each e a)"
proof (cases e)
  case (FaModel f)
  assume "fa_inv home a"
  then show ?thesis
    using FaModel fm_step_announces [of f "fa_model a"]
    by (auto simp: fa_inv_def setWatchedPath_def Let_def split: prod.splits)
next
  case (FaChanged p)
  assume "fa_inv home a"
  then show ?thesis using FaChanged by (simp add: fa_inv_def onDirectoryChanged_def)
next
  case FaTimeout
  assume "fa_inv home a"
  then show ?thesis using FaTimeout by (auto simp: fa_inv_def onDebounceTimeout_def split: prod.splits)
qed

text \<open>
  The watch follows the view. Whatever the user and the file system do after startup, at
  most one directory is watched, and it is the directory shown; the one exception is the home
  directory from startup until the first change of directory, which is not watched at all.
\<close>

theorem watch_follows_view:
  "let a = files_run ok each es (files_start home) in
    set (fw_watches (fa_watcher a)) \<subseteq> {fm_currentPath (fa_model a)} \<and>
    (fw_watchedPath (fa_watcher a) = fm_currentPath (fa_model a) \<or>
     fw_watchedPath (fa_watcher a) = [] \<and> fm_currentPath (fa_model a) = home)"
proof -
  have "fa_inv home (files_start home)"
    by (simp add: fa_inv_def files_start_def init_fs_watcher_def setCurrentPath_def init_file_model_def case_prod_beta)
  moreover have "fa_inv home a \<Longrightarrow> fa_inv home (files_run ok each es a)" for a
    by (induction es arbitrary: a) (simp_all add: files_step_inv)
  ultimately have "fa_inv home (files_run ok each es (files_start home))" by blast
  then show ?thesis by (auto simp: fa_inv_def Let_def)
qed

text \<open>At startup the directory shown is not watched.\<close>

lemma home_not_watched:
  "home \<noteq> [] \<Longrightarrow> fm_currentPath (fa_model (files_start home)) = home \<and>
    fw_watches (fa_watcher (files_start home)) = []"
  by (simp add: files_start_def init_fs_watcher_def setCurrentPath_def init_file_model_def case_prod_beta)

end
