(* ===== verification/SearchIndexer.thy ===== *)
theory SearchIndexer
  imports FileInfo
begin

text \<open>
  The file search, apps/files/src/SearchIndexer.{h,cpp}. \<open>found root\<close> is what a QDirIterator
  yields below \<open>root\<close>, \<open>containsCI\<close> is \<open>QString::contains(..., Qt::CaseInsensitive)\<close>.

  The future that the watcher watches is idle, running, done with its \<open>finished\<close> signal
  still queued, or cancelled with that signal queued. Setting a new future drops a queued
  signal of the old one.
\<close>

record si_env =
  se_found :: "path \<Rightarrow> qfileinfo list"
  se_containsCI :: "string \<Rightarrow> string \<Rightarrow> bool"
  se_toLower :: "string \<Rightarrow> string"
  se_isSpace :: "char \<Rightarrow> bool"
  se_fmt :: "rat \<Rightarrow> nat \<Rightarrow> string"
  se_num :: "int \<Rightarrow> string"

type_synonym result = "(string \<times> variant) list"

definition search_entry :: "si_env \<Rightarrow> qfileinfo \<Rightarrow> result" where
  "search_entry V fi =
     [(''name'', VStr (qi_fileName fi)), (''path'', VStr (qi_absoluteFilePath fi)),
      (''type'', VStr (if qi_isDir fi then ''directory'' else ''file'')),
      (''mimeType'', VStr (qi_mimeName fi)), (''size'', VInt (qi_size fi)),
      (''sizeHuman'', VStr (SearchIndexer_humanSize (se_fmt V) (se_num V) (qi_size fi))),
      (''modified'', VTime (qi_lastModified fi)), (''isDir'', VBool (qi_isDir fi)),
      (''isHidden'', VBool (qi_isHidden fi))]"

fun search_loop :: "si_env \<Rightarrow> string \<Rightarrow> nat \<Rightarrow> qfileinfo list \<Rightarrow> result list \<Rightarrow> result list" where
  "search_loop V lowerQuery maxResults [] results = results"
| "search_loop V lowerQuery maxResults (fi # it) results =
     (if \<not> length results < maxResults then results
      else if se_containsCI V (qi_fileName fi) lowerQuery then
        (if \<not> qi_isReadable fi then search_loop V lowerQuery maxResults it results
         else search_loop V lowerQuery maxResults it (results @ [search_entry V fi]))
      else search_loop V lowerQuery maxResults it results)"

definition performSearch :: "si_env \<Rightarrow> path \<Rightarrow> string \<Rightarrow> result list" where
  "performSearch V rootPath query = search_loop V (se_toLower V query) 500 (se_found V rootPath) []"

text \<open>
  A search finds what it should. The results are the readable entries below the root whose
  names contain the query, in the order of the traversal, cut off after the first 500, and
  each is reported with its own name, path and size.
\<close>

theorem search_results:
  "performSearch V rt query =
     map (search_entry V)
       (take 500 (filter (\<lambda>fi. qi_isReadable fi \<and> se_containsCI V (qi_fileName fi) (se_toLower V query))
         (se_found V rt)))"
proof -
  have loop: "search_loop V q n it results =
      results @ map (search_entry V)
        (take (n - length results) (filter (\<lambda>fi. qi_isReadable fi \<and> se_containsCI V (qi_fileName fi) q) it))"
    for q n it results
  proof (induction it arbitrary: results)
    case Nil
    then show ?case by simp
  next
    case (Cons fi it)
    show ?case
    proof (cases "length results < n")
      case True
      then have "n - length results = Suc (n - Suc (length results))" by simp
      with True Cons show ?thesis by simp
    next
      case False
      then show ?thesis by simp
    qed
  qed
  show ?thesis by (simp add: performSearch_def loop)
qed


subsection \<open>Searches and their answers\<close>

datatype si_watch = SiIdle | SiRunning path string | SiDone path string | SiCancelled

datatype si_out = ResultsFound "result list" | SearchFinished bool

definition si_cancel :: "si_watch \<Rightarrow> si_watch" where
  "si_cancel w = (case w of SiRunning r q \<Rightarrow> SiCancelled | _ \<Rightarrow> w)"

definition si_search :: "si_env \<Rightarrow> path \<Rightarrow> string \<Rightarrow> si_watch \<Rightarrow> si_watch \<times> si_out list" where
  "si_search V rootPath query w =
     (let w1 = si_cancel w in
      if trim (se_isSpace V) query = [] then (w1, [ResultsFound [], SearchFinished False])
      else (SiRunning rootPath (trim (se_isSpace V) query), []))"

text \<open>The lambda connected to the watcher's \<open>finished\<close> signal.\<close>

definition si_finished :: "si_env \<Rightarrow> si_watch \<Rightarrow> si_watch \<times> si_out list" where
  "si_finished V w =
     (case w of
        SiCancelled \<Rightarrow> (SiIdle, [SearchFinished True])
      | SiDone r q \<Rightarrow> (SiIdle, [ResultsFound (performSearch V r q), SearchFinished False])
      | _ \<Rightarrow> (w, []))"

datatype si_event = SiSearch path string | SiCancel | SiWorkerEnds | SiDeliver

fun si_step :: "si_env \<Rightarrow> si_event \<Rightarrow> si_watch \<Rightarrow> si_watch \<times> si_out list" where
  "si_step V (SiSearch r q) w = si_search V r q w"
| "si_step V SiCancel w = (si_cancel w, [])"
| "si_step V SiWorkerEnds w = ((case w of SiRunning r q \<Rightarrow> SiDone r q | _ \<Rightarrow> w), [])"
| "si_step V SiDeliver w = si_finished V w"

fun si_run :: "si_env \<Rightarrow> si_event list \<Rightarrow> si_watch \<Rightarrow> si_watch \<times> si_out list" where
  "si_run V [] w = (w, [])"
| "si_run V (e # es) w = (case si_step V e w of (w1, o1) \<Rightarrow> case si_run V es w1 of (w2, o2) \<Rightarrow> (w2, o1 @ o2))"

fun is_search :: "si_event \<Rightarrow> bool" where
  "is_search (SiSearch r q) = True"
| "is_search e = False"

definition si_answers :: "si_env \<Rightarrow> si_watch \<Rightarrow> si_out list list" where
  "si_answers V w =
     (case w of
        SiIdle \<Rightarrow> [ [] ]
      | SiCancelled \<Rightarrow> [ [], [SearchFinished True]]
      | SiDone r q \<Rightarrow> [ [], [ResultsFound (performSearch V r q), SearchFinished False]]
      | SiRunning r q \<Rightarrow> [ [], [SearchFinished True], [ResultsFound (performSearch V r q), SearchFinished False]])"

lemma si_run_answers:
  "\<not> list_ex is_search es \<Longrightarrow> snd (si_run V es w) \<in> set (si_answers V w)"
proof (induction es arbitrary: w)
  case Nil
  then show ?case by (auto simp: si_answers_def split: si_watch.splits)
next
  case (Cons e es)
  have idle: "snd (si_run V xs SiIdle) = []" if "\<not> list_ex is_search xs" for xs
    using that
  proof (induction xs)
    case Nil
    then show ?case by simp
  next
    case (Cons x xs)
    then show ?case by (cases x) (auto simp: si_cancel_def si_finished_def split: prod.splits)
  qed
  obtain w1 o1 where s: "si_step V e w = (w1, o1)" by fastforce
  obtain w2 o2 where r: "si_run V es w1 = (w2, o2)" by fastforce
  from Cons.IH [of w1] Cons.prems r have o2: "o2 \<in> set (si_answers V w1)" by simp
  from idle [of es] Cons.prems r have idle2: "w1 = SiIdle \<Longrightarrow> o2 = []" by auto
  from s r o2 idle2 Cons.prems show ?case
    by (cases e; cases w) (auto simp: si_cancel_def si_finished_def si_answers_def)
qed

text \<open>
  C23. Every search is answered at most once, with its own results. After a search for a query
  that is not blank, and until the next one, whatever is cancelled and whenever the worker
  ends, the view gets nothing, or one notice of cancellation, or once the results of exactly
  this search followed by the notice that it is finished, and no results of an earlier search. (A
  blank query does not keep those away, see below.)
\<close>

theorem search_answer:
  assumes "trim (se_isSpace V) query \<noteq> []" and "\<not> list_ex is_search es"
  shows "snd (si_run V (SiSearch rt query # es) w) \<in>
    {[], [SearchFinished True],
     [ResultsFound (performSearch V rt (trim (se_isSpace V) query)), SearchFinished False]}"
proof -
  have "si_search V rt query w = (SiRunning rt (trim (se_isSpace V) query), [])"
    using assms(1) by (simp add: si_search_def Let_def)
  with si_run_answers [OF assms(2), of V "SiRunning rt (trim (se_isSpace V) query)"] show ?thesis
    by (auto simp: si_answers_def split: prod.splits)
qed

definition demo_si_env :: si_env where
  "demo_si_env = \<lparr>se_found = (\<lambda>r. [plain_info\<lparr>qi_fileName := ''ab''\<rparr>, plain_info\<lparr>qi_fileName := ''cd''\<rparr>]),
     se_containsCI = str_contains, se_toLower = (\<lambda>s. s), se_isSpace = (\<lambda>c. c = CHR '' ''),
     se_fmt = (\<lambda>r n. []), se_num = (\<lambda>i. [])\<rparr>"

theorem search_answer_witness:
  "snd (si_run demo_si_env [SiSearch ''/'' ''b'', SiWorkerEnds, SiDeliver] SiCancelled) \<in>
    {[], [SearchFinished True], [ResultsFound (performSearch demo_si_env ''/'' ''b''), SearchFinished False]}"
proof -
  have "trim (se_isSpace demo_si_env) ''b'' = ''b''" by (simp add: trim_def demo_si_env_def)
  with search_answer [of demo_si_env "''b''" "[SiWorkerEnds, SiDeliver]" "''/''" SiCancelled] show ?thesis
    by simp
qed

text \<open>A blank query does not replace the future: if the worker of the previous search has just
  ended, its results arrive after the empty ones.\<close>

lemma stale_results_after_blank_query:
  "trim (se_isSpace V) q2 = [] \<Longrightarrow>
    snd (si_run V [SiSearch r q2, SiDeliver] (SiDone r q1)) =
      [ResultsFound [], SearchFinished False, ResultsFound (performSearch V r q1), SearchFinished False]"
  by (simp add: si_search_def si_cancel_def si_finished_def)

end
