(* ===== verification/StorageManager.thy ===== *)
theory StorageManager
  imports FileInfo
begin

text \<open>
  The drives of the file manager, apps/files/src/StorageManager.{h,cpp}: a table made from
  \<open>QStorageInfo::mountedVolumes()\<close>, polled every five seconds. The mounted volumes are an
  argument of every operation that asks for them. \<open>percent\<close> is the floating-point expression
  \<open>(double)used / total * 100.0\<close>, \<open>containsCI\<close> the case-insensitive \<open>QString::contains\<close>.
\<close>

record drive_info =
  di_name :: string
  di_path :: path
  di_mountPoint :: path
  di_fileSystemType :: string
  di_totalBytes :: int
  di_usedBytes :: int
  di_freeBytes :: int
  di_isReadOnly :: bool
  di_isRemovable :: bool
  di_isReady :: bool

record storage =
  sm_drives :: "drive_info list"
  sm_knownPaths :: "path list"

datatype sm_signal = DrivesChanged | DriveAdded path | DriveRemoved path

definition drive_of :: "(string \<Rightarrow> string \<Rightarrow> bool) \<Rightarrow> qstorage \<Rightarrow> drive_info" where
  "drive_of containsCI si =
     (let p = (case st_device si of None \<Rightarrow> st_rootPath si | Some d \<Rightarrow> d) in
      \<lparr>di_name = (if st_name si = [] then st_rootPath si else st_name si), di_path = p,
       di_mountPoint = st_rootPath si, di_fileSystemType = st_fileSystemType si,
       di_totalBytes = st_bytesTotal si, di_usedBytes = st_bytesTotal si - st_bytesAvailable si,
       di_freeBytes = st_bytesAvailable si, di_isReadOnly = st_readOnly si,
       di_isRemovable =
         (if str_contains p ''/dev/sd'' \<or> str_contains p ''/dev/nvme'' then True
          else if containsCI p ''usb'' then True else False),
       di_isReady = st_ready si\<rparr>)"

definition scanDrives :: "(string \<Rightarrow> string \<Rightarrow> bool) \<Rightarrow> qstorage list \<Rightarrow> storage \<Rightarrow> storage" where
  "scanDrives containsCI mounts s = s\<lparr>sm_drives := map (drive_of containsCI) (filter st_valid mounts)\<rparr>"

definition init_storage :: "(string \<Rightarrow> string \<Rightarrow> bool) \<Rightarrow> qstorage list \<Rightarrow> storage" where
  "init_storage containsCI mounts = scanDrives containsCI mounts \<lparr>sm_drives = [], sm_knownPaths = []\<rparr>"

definition sm_refresh :: "(string \<Rightarrow> string \<Rightarrow> bool) \<Rightarrow> qstorage list \<Rightarrow> storage \<Rightarrow> storage \<times> sm_signal list" where
  "sm_refresh containsCI mounts s = (scanDrives containsCI mounts s, [DrivesChanged])"

definition ready_paths :: "qstorage list \<Rightarrow> path list" where
  "ready_paths mounts = map st_rootPath (filter (\<lambda>si. st_valid si \<and> st_ready si) mounts)"

text \<open>pollDrives asks for the mounted volumes twice, once itself and once in scanDrives.\<close>

definition pollDrives ::
  "(string \<Rightarrow> string \<Rightarrow> bool) \<Rightarrow> qstorage list \<Rightarrow> qstorage list \<Rightarrow> storage \<Rightarrow> storage \<times> sm_signal list" where
  "pollDrives containsCI mounts mounts2 s =
     (let currentPaths = ready_paths mounts;
          removed = map DriveRemoved (filter (\<lambda>p. p \<notin> set currentPaths) (sm_knownPaths s));
          added = map DriveAdded (filter (\<lambda>p. p \<notin> set (sm_knownPaths s)) currentPaths)
      in (scanDrives containsCI mounts2 (s\<lparr>sm_knownPaths := currentPaths\<rparr>),
          removed @ added @ [DrivesChanged]))"

definition drive_map :: "(int \<Rightarrow> int \<Rightarrow> rat) \<Rightarrow> drive_info \<Rightarrow> (string \<times> variant) list" where
  "drive_map percent d =
     [(''name'', VStr (di_name d)), (''path'', VStr (di_path d)), (''mountPoint'', VStr (di_mountPoint d)),
      (''fileSystemType'', VStr (di_fileSystemType d)), (''totalBytes'', VInt (di_totalBytes d)),
      (''usedBytes'', VInt (di_usedBytes d)), (''freeBytes'', VInt (di_freeBytes d)),
      (''isReadOnly'', VBool (di_isReadOnly d)), (''isRemovable'', VBool (di_isRemovable d)),
      (''isReady'', VBool (di_isReady d)),
      (''usedPercent'',
        VReal (if di_totalBytes d > 0 then percent (di_usedBytes d) (di_totalBytes d) else 0))]"

definition drives :: "(int \<Rightarrow> int \<Rightarrow> rat) \<Rightarrow> storage \<Rightarrow> (string \<times> variant) list list" where
  "drives percent s = map (drive_map percent) (sm_drives s)"

definition mountedDrives :: "(int \<Rightarrow> int \<Rightarrow> rat) \<Rightarrow> storage \<Rightarrow> (string \<times> variant) list list" where
  "mountedDrives percent s = drives percent s"

definition driveInfo :: "(path \<Rightarrow> qstorage) \<Rightarrow> storage \<Rightarrow> path \<Rightarrow> (string \<times> variant) list" where
  "driveInfo query s p =
     (case find_idx (\<lambda>d. di_mountPoint d = p \<or> di_path d = p) (sm_drives s) of
        Some i \<Rightarrow>
          (let d = sm_drives s ! i in
           [(''name'', VStr (di_name d)), (''path'', VStr (di_path d)), (''mountPoint'', VStr (di_mountPoint d)),
            (''totalBytes'', VInt (di_totalBytes d)), (''usedBytes'', VInt (di_usedBytes d)),
            (''freeBytes'', VInt (di_freeBytes d)), (''isRemovable'', VBool (di_isRemovable d))])
      | None \<Rightarrow>
          (let si = query p in
           if st_valid si then
             [(''name'', VStr (st_name si)),
              (''path'', VStr (case st_device si of None \<Rightarrow> p | Some d \<Rightarrow> d)),
              (''mountPoint'', VStr (st_rootPath si)), (''totalBytes'', VInt (st_bytesTotal si)),
              (''usedBytes'', VInt (st_bytesTotal si - st_bytesAvailable si)),
              (''freeBytes'', VInt (st_bytesAvailable si)), (''isRemovable'', VBool False)]
           else []))"


subsection \<open>Following the drives by the signals\<close>

text \<open>A client that starts with no drives and follows \<open>driveAdded\<close> and \<open>driveRemoved\<close>.\<close>

fun follow :: "sm_signal list \<Rightarrow> path set \<Rightarrow> path set" where
  "follow [] A = A"
| "follow (DriveAdded p # os) A = follow os (insert p A)"
| "follow (DriveRemoved p # os) A = follow os (A - {p})"
| "follow (DrivesChanged # os) A = follow os A"

lemma follow_append: "follow (xs @ ys) A = follow ys (follow xs A)"
  by (induction xs A rule: follow.induct) auto

lemma follow_removed: "follow (map DriveRemoved ps) A = A - set ps"
  by (induction ps arbitrary: A) auto

lemma follow_added: "follow (map DriveAdded ps) A = A \<union> set ps"
  by (induction ps arbitrary: A) auto

fun sm_polls ::
  "(string \<Rightarrow> string \<Rightarrow> bool) \<Rightarrow> (qstorage list \<times> qstorage list) list \<Rightarrow> storage \<Rightarrow> storage \<times> sm_signal list" where
  "sm_polls containsCI [] s = (s, [])"
| "sm_polls containsCI (m # ms) s =
     (case pollDrives containsCI (fst m) (snd m) s of (s1, o1) \<Rightarrow>
      case sm_polls containsCI ms s1 of (s2, o2) \<Rightarrow> (s2, o1 @ o2))"

lemma poll_follow:
  "follow (snd (pollDrives containsCI m m2 s)) (set (sm_knownPaths s)) = set (ready_paths m) \<and>
   sm_knownPaths (fst (pollDrives containsCI m m2 s)) = ready_paths m"
  by (auto simp: pollDrives_def Let_def follow_append follow_removed follow_added scanDrives_def)

text \<open>
  The signals tell the truth about the drives. A client that starts with nothing and adds
  and removes drives as it is told holds, after any number of polls, exactly the mount points
  that were valid and ready at the last poll; and the table shows exactly the valid volumes
  of the last scan, in order.
\<close>

theorem drive_signals_track:
  "follow (snd (sm_polls containsCI (ms @ [(m, m2)]) (init_storage containsCI m0))) {} = set (ready_paths m) \<and>
   sm_drives (fst (sm_polls containsCI (ms @ [(m, m2)]) (init_storage containsCI m0))) =
     map (drive_of containsCI) (filter st_valid m2)"
proof -
  have gen: "follow (snd (sm_polls containsCI (ms @ [(m, m2)]) s)) (set (sm_knownPaths s)) = set (ready_paths m) \<and>
      sm_drives (fst (sm_polls containsCI (ms @ [(m, m2)]) s)) = map (drive_of containsCI) (filter st_valid m2)" for s
  proof (induction ms arbitrary: s)
    case Nil
    obtain s1 o1 where p: "pollDrives containsCI m m2 s = (s1, o1)" by fastforce
    moreover have "sm_drives s1 = map (drive_of containsCI) (filter st_valid m2)"
      using p by (auto simp: pollDrives_def Let_def scanDrives_def)
    ultimately show ?case using poll_follow [of containsCI m m2 s] by simp
  next
    case (Cons n ms)
    obtain s1 o1 where p: "pollDrives containsCI (fst n) (snd n) s = (s1, o1)" by fastforce
    obtain s2 o2 where r: "sm_polls containsCI (ms @ [(m, m2)]) s1 = (s2, o2)" by fastforce
    from p r poll_follow [of containsCI "fst n" "snd n" s] Cons [of s1] show ?case
      by (simp add: follow_append)
  qed
  show ?thesis using gen [of "init_storage containsCI m0"] by (simp add: init_storage_def scanDrives_def)
qed

text \<open>The constructor scans but does not set knownPaths_, so the first poll announces every
  drive as added, among them those that were there from the start.\<close>

lemma first_poll_announces_all:
  "snd (pollDrives containsCI m m2 (init_storage containsCI m0)) =
     map DriveAdded (ready_paths m) @ [DrivesChanged]"
  by (simp add: pollDrives_def init_storage_def scanDrives_def Let_def)

text \<open>An internal disk counts as removable.\<close>

lemma internal_disk_removable:
  "st_device si = Some ''/dev/nvme0n1p2'' \<Longrightarrow> di_isRemovable (drive_of containsCI si)"
  by (simp add: drive_of_def Let_def str_contains_def starts_with_def)

end
