(* ===== verification/Images.thy ===== *)
theory Images
  imports FileInfo
begin

text \<open>
  The image providers: thumbnails with their cache (apps/files/src/ThumbnailProvider.{h,cpp})
  and the theme icons (class ThemeIconProvider, of which apps/files/src/main.cpp,
  desktop/shell/src/main.cpp and desktop/settings/src/main.cpp each have a copy).

  Decoding, scaling and the icon theme are Qt's and are fields of \<open>img_env\<close>, over an arbitrary
  type of images; \<open>None\<close> is the null image. QCache is modelled by what it documents: at most
  500 entries of cost 1, the least recently used given up first. Here one request runs at a
  time; \<open>ThumbThreads\<close> lets several threads ask.
\<close>

type_synonym qsize = "int \<times> int"

record 'img img_env =
  ie_toLocalFile :: "string \<Rightarrow> path"
  ie_num :: "int \<Rightarrow> string"
  ie_stat :: "path \<Rightarrow> qfileinfo"
  ie_readerSize :: "path \<Rightarrow> qsize"
  ie_scaledSize :: "qsize \<Rightarrow> qsize \<Rightarrow> qsize"
  ie_read :: "path \<Rightarrow> qsize \<Rightarrow> 'img option"
  ie_themeHas :: "string \<Rightarrow> bool"
  ie_pixmap :: "string \<Rightarrow> qsize \<Rightarrow> 'img option"
  ie_size :: "'img option \<Rightarrow> qsize"
  ie_fileExists :: "path \<Rightarrow> bool"
  ie_load :: "path \<Rightarrow> 'img option"
  ie_scaled :: "'img \<Rightarrow> qsize \<Rightarrow> 'img option"

fun valid_size :: "qsize \<Rightarrow> bool" where
  "valid_size (w, h) \<longleftrightarrow> w \<ge> 0 \<and> h \<ge> 0"


subsection \<open>The cache\<close>

type_synonym 'img cache = "(string \<times> 'img option) list"

definition cache_object :: "string \<Rightarrow> 'img cache \<Rightarrow> 'img option option \<times> 'img cache" where
  "cache_object k c =
     (case map_of c k of
        None \<Rightarrow> (None, c)
      | Some v \<Rightarrow> (Some v, (k, v) # filter (\<lambda>e. fst e \<noteq> k) c))"

definition cache_insert :: "string \<Rightarrow> 'img option \<Rightarrow> 'img cache \<Rightarrow> 'img cache" where
  "cache_insert k v c = take 500 ((k, v) # filter (\<lambda>e. fst e \<noteq> k) c)"

text \<open>What a client of a cache relies on: a lookup gives what was inserted last under the key,
  or nothing. A cache filled from one function stays a part of it.\<close>

locale forgetful_map =
  fixes get :: "'k \<Rightarrow> 'c \<Rightarrow> 'v option \<times> 'c"
    and put :: "'k \<Rightarrow> 'v \<Rightarrow> 'c \<Rightarrow> 'c"
    and content :: "'c \<Rightarrow> ('k \<times> 'v) set"
  assumes get_content: "get k c = (Some v, c') \<Longrightarrow> (k, v) \<in> content c"
    and get_keeps: "content (snd (get k c)) \<subseteq> content c"
    and put_content: "content (put k v c) \<subseteq> insert (k, v) (content c)"
begin

definition part_of :: "('k \<Rightarrow> 'v) \<Rightarrow> 'c \<Rightarrow> bool" where
  "part_of f c \<longleftrightarrow> (\<forall>k v. (k, v) \<in> content c \<longrightarrow> v = f k)"

lemma part_of_get:
  assumes "part_of f c" and "get k c = (r, c')"
  shows "part_of f c'" and "r = None \<or> r = Some (f k)"
proof -
  show "part_of f c'" using assms get_keeps [of k c] unfolding part_of_def by auto
  show "r = None \<or> r = Some (f k)"
    using assms get_content [of k c] unfolding part_of_def by (cases r) auto
qed

lemma part_of_put: "part_of f c \<Longrightarrow> v = f k \<Longrightarrow> part_of f (put k v c)"
  using put_content [of k v c] unfolding part_of_def by blast

end

interpretation qcache: forgetful_map cache_object cache_insert set
  by unfold_locales
    (auto simp: cache_object_def cache_insert_def split: option.splits
      dest!: map_of_SomeD in_set_takeD)


subsection \<open>Thumbnails\<close>

definition generateIconThumbnail :: "'img img_env \<Rightarrow> string \<Rightarrow> qsize \<Rightarrow> 'img option" where
  "generateIconThumbnail V iconName sz =
     ie_pixmap V (if ie_themeHas V iconName then iconName else ''unknown'') sz"

definition generateThumbnail :: "'img img_env \<Rightarrow> path \<Rightarrow> qsize \<Rightarrow> 'img option" where
  "generateThumbnail V filePath requestedSize =
     (let fi = ie_stat V filePath; mimeType = qi_mimeName fi in
      if \<not> qi_exists fi then None
      else if starts_with mimeType ''image/'' then
        (let imgSize = ie_readerSize V filePath in
         if \<not> valid_size imgSize then None
         else ie_read V filePath (ie_scaledSize V imgSize requestedSize))
      else if starts_with mimeType ''video/'' then generateIconThumbnail V ''video-x-generic'' requestedSize
      else if mimeType = ''application/pdf'' then generateIconThumbnail V ''application-pdf'' requestedSize
      else if starts_with mimeType ''text/'' then generateIconThumbnail V ''text-x-generic'' requestedSize
      else if str_contains mimeType ''zip'' \<or> str_contains mimeType ''compressed'' \<or> str_contains mimeType ''archive''
        then generateIconThumbnail V ''application-x-archive'' requestedSize
      else if qi_isExecutable fi then generateIconThumbnail V ''application-x-executable'' requestedSize
      else if qi_isDir fi then generateIconThumbnail V ''folder'' requestedSize
      else if qi_isSymLink fi then generateIconThumbnail V ''emblem-symbolic-link'' requestedSize
      else None)"

definition cache_key :: "'img img_env \<Rightarrow> path \<Rightarrow> qsize \<Rightarrow> string" where
  "cache_key V filePath target = filePath @ ''@'' @ ie_num V (fst target) @ ''x'' @ ie_num V (snd target)"

text \<open>The result is the image, the value stored through \<open>size\<close> (if one is stored), and the
  cache.\<close>

definition requestThumbnail ::
  "'img img_env \<Rightarrow> string \<Rightarrow> qsize \<Rightarrow> 'img cache \<Rightarrow> 'img option \<times> qsize option \<times> 'img cache" where
  "requestThumbnail V wid requestedSize c =
     (let target = (if valid_size requestedSize then requestedSize else (128, 128)) in
      if starts_with wid ''icon://'' then (generateIconThumbnail V (drop 7 wid) target, None, c)
      else
        let filePath = (if starts_with wid ''file://'' then ie_toLocalFile V wid else wid) in
        if filePath = [] then (generateIconThumbnail V ''unknown'' target, None, c)
        else
          (case cache_object (cache_key V filePath target) c of
             (Some cached, c1) \<Rightarrow> (cached, Some (ie_size V cached), c1)
           | (None, c1) \<Rightarrow>
               let t0 = generateThumbnail V filePath target;
                   thumb = (if t0 = None then generateIconThumbnail V ''unknown'' target else t0)
               in (thumb, Some (ie_size V thumb), cache_insert (cache_key V filePath target) thumb c1)))"

fun request_all :: "'img img_env \<Rightarrow> (string \<times> qsize) list \<Rightarrow> 'img cache \<Rightarrow> 'img cache" where
  "request_all V [] c = c"
| "request_all V (r # rs) c = request_all V rs (snd (snd (requestThumbnail V (fst r) (snd r) c)))"

text \<open>Printed numbers differ for different numbers and have neither of the two separators.\<close>

definition num_ok :: "'img img_env \<Rightarrow> bool" where
  "num_ok V \<longleftrightarrow> inj (ie_num V) \<and> (\<forall>i. CHR ''@'' \<notin> set (ie_num V i) \<and> CHR ''x'' \<notin> set (ie_num V i))"

lemma split_at_sep:
  "c \<notin> set xs \<Longrightarrow> c \<notin> set xs' \<Longrightarrow> xs @ c # ys = xs' @ c # ys' \<Longrightarrow> xs = xs' \<and> ys = ys'"
  by (induction xs arbitrary: xs') (auto simp: append_eq_Cons_conv Cons_eq_append_conv)

lemma split_at_last_sep:
  "c \<notin> set ys \<Longrightarrow> c \<notin> set ys' \<Longrightarrow> xs @ c # ys = xs' @ c # ys' \<Longrightarrow> xs = xs' \<and> ys = ys'"
  using split_at_sep [of c "rev ys" "rev ys'" "rev xs" "rev xs'"]
  by (metis append.assoc append_Cons append_Nil rev.simps(2) rev_append rev_rev_ident set_rev)

lemma cache_key_inj:
  assumes "num_ok V" and "cache_key V p s = cache_key V q t"
  shows "p = q \<and> s = t"
proof -
  let ?n = "\<lambda>s. ie_num V (fst s) @ CHR ''x'' # ie_num V (snd s)"
  have at: "CHR ''@'' \<notin> set (?n s)" for s using assms(1) by (simp add: num_ok_def)
  from assms(2) have "p @ CHR ''@'' # ?n s = q @ CHR ''@'' # ?n t" by (simp add: cache_key_def)
  from split_at_last_sep [OF at at this] have "p = q" and n: "?n s = ?n t" by simp_all
  moreover have "ie_num V (fst s) = ie_num V (fst t) \<and> ie_num V (snd s) = ie_num V (snd t)"
    by (rule split_at_sep [OF _ _ n]) (use assms(1) in \<open>simp_all add: num_ok_def\<close>)
  ultimately show ?thesis using assms(1) by (auto simp: num_ok_def prod_eq_iff dest: injD)
qed

definition plain_thumbnail :: "'img img_env \<Rightarrow> path \<Rightarrow> qsize \<Rightarrow> 'img option" where
  "plain_thumbnail V p target =
     (let t0 = generateThumbnail V p target in
      if t0 = None then generateIconThumbnail V ''unknown'' target else t0)"

text \<open>The function that the cache is a part of: from a key back to its thumbnail.\<close>

definition of_key :: "'img img_env \<Rightarrow> string \<Rightarrow> 'img option" where
  "of_key V k = plain_thumbnail V (fst (inv (\<lambda>(p, t). cache_key V p t) k)) (snd (inv (\<lambda>(p, t). cache_key V p t) k))"

lemma of_key_key: "num_ok V \<Longrightarrow> of_key V (cache_key V p t) = plain_thumbnail V p t"
proof -
  assume "num_ok V"
  then have "inj (\<lambda>(p, t). cache_key V p t)" by (auto simp: inj_def dest!: cache_key_inj)
  from inv_f_f [OF this, of "(p, t)"] show ?thesis by (simp add: of_key_def)
qed

lemma request_step:
  assumes "num_ok V" and "qcache.part_of (of_key V) c"
  shows "qcache.part_of (of_key V) (snd (snd (requestThumbnail V i sz c)))"
    and "fst (requestThumbnail V i sz c) = fst (requestThumbnail V i sz [])"
proof -
  let ?t = "if valid_size sz then sz else (128, 128)"
  let ?p = "if starts_with i ''file://'' then ie_toLocalFile V i else i"
  obtain r c1 where g: "cache_object (cache_key V ?p ?t) c = (r, c1)" by fastforce
  note part = qcache.part_of_get [OF assms(2) g]
  have key: "of_key V (cache_key V ?p ?t) = plain_thumbnail V ?p ?t" by (rule of_key_key [OF assms(1)])
  have empty: "cache_object k [] = (None, [])" for k :: string by (simp add: cache_object_def)
  show "qcache.part_of (of_key V) (snd (snd (requestThumbnail V i sz c)))"
    using part assms(2) g key qcache.part_of_put [OF part(1), of _ "cache_key V ?p ?t"]
    by (auto simp: requestThumbnail_def Let_def plain_thumbnail_def split: option.splits)
  show "fst (requestThumbnail V i sz c) = fst (requestThumbnail V i sz [])"
    using part(2) g key by (auto simp: requestThumbnail_def Let_def empty plain_thumbnail_def)
qed

lemma cache_object_length: "length (snd (cache_object k c)) \<le> length c"
proof (cases "map_of c k")
  case None
  then show ?thesis by (simp add: cache_object_def)
next
  case (Some v)
  then have "(k, v) \<in> set c" by (rule map_of_SomeD)
  then have "length (filter (\<lambda>e. fst e \<noteq> k) c) < length c" by (intro length_filter_less) auto
  with Some show ?thesis by (simp add: cache_object_def)
qed

lemma cache_insert_length: "length (cache_insert k v c) \<le> 500"
  unfolding cache_insert_def length_take by simp

lemma request_length:
  assumes "length c \<le> 500"
  shows "length (snd (snd (requestThumbnail V i sz c))) \<le> 500"
proof -
  let ?t = "if valid_size sz then sz else (128, 128)"
  let ?p = "if starts_with i ''file://'' then ie_toLocalFile V i else i"
  obtain r c1 where g: "cache_object (cache_key V ?p ?t) c = (r, c1)" by fastforce
  have "length c1 \<le> 500" using cache_object_length [of "cache_key V ?p ?t" c] assms unfolding g by simp
  then show ?thesis
    unfolding requestThumbnail_def Let_def g
    using assms by (cases r) (simp_all add: cache_insert_length)
qed

text \<open>
  The thumbnail cache is transparent and bounded. As long as the files do not change,
  every request gives the image that a provider with an empty cache would make, after any
  sequence of earlier requests for any files and sizes: two different requests never share a
  cache entry. The cache never holds more than 500 images.
\<close>

theorem thumbnail_cache_transparent:
  assumes "num_ok V"
  shows "fst (requestThumbnail V i sz (request_all V rs [])) = fst (requestThumbnail V i sz []) \<and>
    length (request_all V rs []) \<le> 500"
proof -
  have "qcache.part_of (of_key V) (request_all V rs c)" if "qcache.part_of (of_key V) c" for c
    using that by (induction rs arbitrary: c) (simp_all add: request_step(1) [OF assms])
  moreover have "qcache.part_of (of_key V) []" by (simp add: qcache.part_of_def)
  ultimately have "qcache.part_of (of_key V) (request_all V rs [])" by blast
  from request_step(2) [OF assms this]
  have "fst (requestThumbnail V i sz (request_all V rs [])) = fst (requestThumbnail V i sz [])" .
  moreover have "length (request_all V rs c) \<le> 500" if "length c \<le> 500" for c
    using that
  proof (induction rs arbitrary: c)
    case Nil
    then show ?case by simp
  next
    case (Cons r rs)
    have "length (snd (snd (requestThumbnail V (fst r) (snd r) c))) \<le> 500"
      using Cons.prems by (rule request_length)
    then show ?case by (simp add: Cons.IH)
  qed
  ultimately show ?thesis by simp
qed

definition demo_img_env :: "nat img_env" where
  "demo_img_env = \<lparr>ie_toLocalFile = drop 7,
     ie_num = (\<lambda>i. if i < 0 then CHR ''m'' # replicate (nat (- i)) CHR ''i'' else replicate (nat i) CHR ''i''),
     ie_stat = (\<lambda>p. plain_info), ie_readerSize = (\<lambda>p. (1, 1)), ie_scaledSize = (\<lambda>a b. b),
     ie_read = (\<lambda>p s. Some (length p)), ie_themeHas = (\<lambda>n. True), ie_pixmap = (\<lambda>n s. Some (length n)),
     ie_size = (\<lambda>i. (1, 1)), ie_fileExists = (\<lambda>p. False), ie_load = (\<lambda>p. None),
     ie_scaled = (\<lambda>i s. Some i)\<rparr>"

lemma demo_num_ok: "num_ok demo_img_env"
proof -
  have "inj (ie_num demo_img_env)"
  proof (rule injI)
    fix a b
    assume eq: "ie_num demo_img_env a = ie_num demo_img_env b"
    have "CHR ''m'' \<in> set (ie_num demo_img_env i) \<longleftrightarrow> i < 0" for i by (simp add: demo_img_env_def)
    with eq have "a < 0 \<longleftrightarrow> b < 0" by metis
    moreover from eq have "length (ie_num demo_img_env a) = length (ie_num demo_img_env b)" by simp
    ultimately show "a = b" by (auto simp: demo_img_env_def split: if_splits)
  qed
  then show ?thesis by (simp add: num_ok_def demo_img_env_def)
qed

theorem thumbnail_cache_transparent_witness:
  "fst (requestThumbnail demo_img_env ''/a'' (2, 2) (request_all demo_img_env [(''/a'', (2, 2)), (''/a'', (1, 2))] [])) =
     Some (length ''text-x-generic'')"
proof -
  have "fst (requestThumbnail demo_img_env ''/a'' (2, 2) []) = Some (length ''text-x-generic'')" by code_simp
  with thumbnail_cache_transparent [OF demo_num_ok] show ?thesis by metis
qed

text \<open>A file that changes keeps its old thumbnail: the key has no modification time.\<close>

lemma stale_thumbnail:
  assumes "p \<noteq> []" and "\<not> starts_with p ''icon://''" and "\<not> starts_with p ''file://''" and "valid_size t"
    and "ie_num V = ie_num V'"
  shows "fst (requestThumbnail V' p t (request_all V [(p, t)] [])) = plain_thumbnail V p t"
  using assms by (simp add: requestThumbnail_def cache_object_def cache_insert_def cache_key_def
      plain_thumbnail_def Let_def)


subsection \<open>Theme icons\<close>

definition try_image :: "'img img_env \<Rightarrow> path \<Rightarrow> qsize \<Rightarrow> ('img option \<times> qsize option) option" where
  "try_image V p target =
     (if ie_fileExists V p then
        (case ie_load V p of None \<Rightarrow> None | Some img \<Rightarrow> Some (ie_scaled V img target, Some (ie_size V (Some img))))
      else None)"

definition theme_icon :: "'img img_env \<Rightarrow> string \<Rightarrow> qsize \<Rightarrow> 'img option \<times> qsize option" where
  "theme_icon V wid target = (let image = ie_pixmap V wid target in (image, Some (ie_size V image)))"

definition shell_icon :: "'img img_env \<Rightarrow> string \<Rightarrow> qsize \<Rightarrow> 'img option \<times> qsize option" where
  "shell_icon V wid requestedSize =
     (let target = (if valid_size requestedSize then requestedSize else (48, 48)) in
      case try_image V ('':/nira/icons/'' @ wid @ ''.svg'') target of
        Some r \<Rightarrow> r
      | None \<Rightarrow>
          (case try_image V ('':/nira/icons/'' @ wid @ ''-48.png'') target of
             Some r \<Rightarrow> r
           | None \<Rightarrow> theme_icon V wid target))"

definition settings_icon :: "'img img_env \<Rightarrow> string \<Rightarrow> qsize \<Rightarrow> 'img option \<times> qsize option" where
  "settings_icon V wid requestedSize =
     (let target = (if valid_size requestedSize then requestedSize else (48, 48)) in
      case try_image V ('':/nira/icons/'' @ wid @ ''.svg'') target of
        Some r \<Rightarrow> r
      | None \<Rightarrow>
          (case try_image V ('':/nira/icons/'' @ wid @ ''-48.png'') target of
             Some r \<Rightarrow> r
           | None \<Rightarrow> theme_icon V wid target))"

definition files_icon :: "'img img_env \<Rightarrow> string \<Rightarrow> qsize \<Rightarrow> 'img option \<times> qsize option" where
  "files_icon V wid requestedSize =
     (let target = (if valid_size requestedSize then requestedSize else (48, 48)) in
      case try_image V ('':/nira/icons/'' @ wid @ ''.svg'') target of
        Some r \<Rightarrow> r
      | None \<Rightarrow>
          (case try_image V ('':/nira/icons/'' @ wid @ ''-48.png'') target of
             Some r \<Rightarrow> r
           | None \<Rightarrow>
               (case try_image V ('':/nira/filemanager/'' @ wid @ ''.svg'') target of
                  Some r \<Rightarrow> r
                | None \<Rightarrow> theme_icon V wid target)))"

lemma icon_copies_agree:
  "settings_icon V = shell_icon V"
  "try_image V ('':/nira/filemanager/'' @ wid @ ''.svg'') (if valid_size sz then sz else (48, 48)) = None \<Longrightarrow>
    files_icon V wid sz = shell_icon V wid sz"
  by (auto simp: settings_icon_def shell_icon_def files_icon_def Let_def fun_eq_iff split: option.splits)

end
