(* ===== verification/ThumbThreads.thy ===== *)
theory ThumbThreads
  imports Images
begin

text \<open>
  Thumbnails requested from several threads at once (apps/files/src/ThumbnailProvider.cpp,
  requestImage). Qt Quick asks an image provider from more than one thread, so the code guards
  its cache by cacheMutex_: once to look the key up, and once, after the image has been made
  without the lock, to insert it. \<open>req_next\<close> is what one request does up to the next point where
  another thread may come between; \<open>thumbs\<close> lets the requests of a list take turns in any order,
  while the files change under them. Every file that a reader or a QFileInfo looks at is that of
  the step's own \<open>img_env\<close>.
\<close>

context forgetful_map
begin

definition each_entry :: "('k \<Rightarrow> 'v \<Rightarrow> bool) \<Rightarrow> 'c \<Rightarrow> bool" where
  "each_entry R c \<longleftrightarrow> (\<forall>k v. (k, v) \<in> content c \<longrightarrow> R k v)"

lemma each_entry_get:
  assumes "each_entry R c" and "get k c = (r, c')"
  shows "each_entry R c'" and "r = Some v \<Longrightarrow> R k v"
proof -
  show "each_entry R c'" using assms get_keeps [of k c] unfolding each_entry_def by auto
  show "R k v" if "r = Some v" using assms that get_content [of k c] unfolding each_entry_def by blast
qed

lemma each_entry_put: "each_entry R c \<Longrightarrow> R k v \<Longrightarrow> each_entry R (put k v c)"
  using put_content [of k v c] unfolding each_entry_def by blast

lemma part_of_each_entry: "part_of f c \<longleftrightarrow> each_entry (\<lambda>k v. v = f k) c"
  by (simp add: part_of_def each_entry_def)

end


subsection \<open>One request, section by section\<close>

datatype 'img stage = Asked | Missed | Made "'img option" | Answered "'img option" "qsize option"

definition target_of :: "qsize \<Rightarrow> qsize" where
  "target_of requestedSize = (if valid_size requestedSize then requestedSize else (128, 128))"

definition file_of :: "'img img_env \<Rightarrow> string \<Rightarrow> path" where
  "file_of V wid = (if starts_with wid ''file://'' then ie_toLocalFile V wid else wid)"

definition req_next ::
  "'img img_env \<Rightarrow> string \<times> qsize \<Rightarrow> 'img stage \<Rightarrow> 'img cache \<Rightarrow> ('img stage \<times> 'img cache) option" where
  "req_next V rq st c =
     (let target = target_of (snd rq); filePath = file_of V (fst rq);
          cacheKey = cache_key V filePath target in
      case st of
        Asked \<Rightarrow>
          if starts_with (fst rq) ''icon://''
          then Some (Answered (generateIconThumbnail V (drop 7 (fst rq)) target) None, c)
          else if filePath = [] then Some (Answered (generateIconThumbnail V ''unknown'' target) None, c)
          else (case cache_object cacheKey c of
                  (Some cached, c1) \<Rightarrow> Some (Answered cached (Some (ie_size V cached)), c1)
                | (None, c1) \<Rightarrow> Some (Missed, c1))
      | Missed \<Rightarrow>
          let t0 = generateThumbnail V filePath target;
              thumb = (if t0 = None then generateIconThumbnail V ''unknown'' target else t0)
          in Some (Made thumb, c)
      | Made thumb \<Rightarrow> Some (Answered thumb (Some (ie_size V thumb)), cache_insert cacheKey thumb c)
      | Answered img sz \<Rightarrow> None)"

text \<open>A request that nobody interrupts is the sequential one.\<close>

fun req_run :: "nat \<Rightarrow> 'img img_env \<Rightarrow> string \<times> qsize \<Rightarrow> 'img stage \<Rightarrow> 'img cache \<Rightarrow> 'img stage \<times> 'img cache" where
  "req_run 0 V rq st c = (st, c)"
| "req_run (Suc n) V rq st c =
     (case req_next V rq st c of None \<Rightarrow> (st, c) | Some (st', c') \<Rightarrow> req_run n V rq st' c')"

lemma req_run_Answered: "req_run n V rq (Answered img sz) c = (Answered img sz, c)"
  by (cases n) (simp_all add: req_next_def)

lemma req_run_alone:
  "req_run 3 V rq Asked c =
     (case requestThumbnail V (fst rq) (snd rq) c of (img, sz, c') \<Rightarrow> (Answered img sz, c'))"
proof -
  let ?k = "cache_key V (file_of V (fst rq)) (target_of (snd rq))"
  obtain r c1 where g: "cache_object ?k c = (r, c1)" by fastforce
  have made: "req_run 1 V rq (Made img) c' = (Answered img (Some (ie_size V img)), cache_insert ?k img c')" for img c'
    by (simp add: req_next_def Let_def)
  have missed: "req_run 2 V rq Missed c' = req_run 1 V rq (Made (plain_thumbnail V (file_of V (fst rq)) (target_of (snd rq)))) c'" for c'
    by (simp add: numeral_2_eq_2 req_next_def plain_thumbnail_def Let_def)
  have three: "(3::nat) = Suc 2" by simp
  have "req_run 3 V rq Asked c = (case req_next V rq Asked c of None \<Rightarrow> (Asked, c) | Some (st', c') \<Rightarrow> req_run 2 V rq st' c')"
    by (simp only: three req_run.simps)
  then show ?thesis
    unfolding requestThumbnail_def Let_def target_of_def [symmetric] file_of_def [symmetric] g
    by (cases r) (simp_all add: req_next_def Let_def g req_run_Answered missed made plain_thumbnail_def)
qed

lemma requestThumbnail_fresh:
  "requestThumbnail V wid sz [] =
     (if starts_with wid ''icon://'' then (generateIconThumbnail V (drop 7 wid) (target_of sz), None, [])
      else if file_of V wid = [] then (generateIconThumbnail V ''unknown'' (target_of sz), None, [])
      else let thumb = plain_thumbnail V (file_of V wid) (target_of sz) in
        (thumb, Some (ie_size V thumb), cache_insert (cache_key V (file_of V wid) (target_of sz)) thumb []))"
  by (simp add: requestThumbnail_def target_of_def file_of_def plain_thumbnail_def cache_object_def Let_def)


subsection \<open>Requests that interleave\<close>

text \<open>The state is the cache and how far each request is; \<open>Es\<close> holds the states of the disk and of
  the icon theme that the run goes through.\<close>

inductive thumbs ::
  "'img img_env set \<Rightarrow> (string \<times> qsize) list \<Rightarrow> 'img cache \<times> 'img stage list \<Rightarrow> 'img cache \<times> 'img stage list \<Rightarrow> bool"
  for Es rqs where
  turn: "V \<in> Es \<Longrightarrow> i < length rqs \<Longrightarrow> req_next V (rqs ! i) (sts ! i) c = Some (st, c') \<Longrightarrow>
    thumbs Es rqs (c, sts) (c', sts[i := st])"

inductive_cases thumbsE: "thumbs Es rqs (c, sts) y"

text \<open>What all states of the disk agree on: how a number is printed, how a URL becomes a path and
  what the size of an image is.\<close>

definition same_names :: "'img img_env \<Rightarrow> 'img img_env \<Rightarrow> bool" where
  "same_names V W \<longleftrightarrow> ie_num V = ie_num W \<and> ie_toLocalFile V = ie_toLocalFile W \<and> ie_size V = ie_size W"

definition made_once :: "'img img_env set \<Rightarrow> string \<Rightarrow> 'img option \<Rightarrow> bool" where
  "made_once Es k v \<longleftrightarrow> (\<exists>V\<in>Es. \<exists>p t. k = cache_key V p t \<and> v = plain_thumbnail V p t)"

definition answer_ok :: "'img img_env set \<Rightarrow> string \<times> qsize \<Rightarrow> 'img option \<Rightarrow> qsize option \<Rightarrow> bool" where
  "answer_ok Es rq img sz \<longleftrightarrow>
     (\<exists>V\<in>Es. \<exists>c. requestThumbnail V (fst rq) (snd rq) [] = (img, sz, c))"

definition file_request :: "'img img_env \<Rightarrow> string \<times> qsize \<Rightarrow> bool" where
  "file_request V rq \<longleftrightarrow> \<not> starts_with (fst rq) ''icon://'' \<and> file_of V (fst rq) \<noteq> []"

fun stage_ok :: "'img img_env set \<Rightarrow> string \<times> qsize \<Rightarrow> 'img stage \<Rightarrow> bool" where
  "stage_ok Es rq Asked \<longleftrightarrow> True"
| "stage_ok Es rq Missed \<longleftrightarrow> (\<forall>V\<in>Es. file_request V rq)"
| "stage_ok Es rq (Made img) \<longleftrightarrow> (\<forall>V\<in>Es. file_request V rq) \<and>
     (\<exists>V\<in>Es. img = plain_thumbnail V (file_of V (fst rq)) (target_of (snd rq)))"
| "stage_ok Es rq (Answered img sz) \<longleftrightarrow> answer_ok Es rq img sz"

fun steps_left :: "'img stage \<Rightarrow> nat" where
  "steps_left Asked = 3"
| "steps_left Missed = 2"
| "steps_left (Made img) = 1"
| "steps_left (Answered img sz) = 0"

lemma same_names_simps:
  assumes "same_names V W"
  shows "cache_key V = cache_key W" and "file_of V = file_of W" and "file_request V = file_request W"
    and "ie_size V = ie_size W"
  using assms by (auto simp: same_names_def cache_key_def file_of_def file_request_def fun_eq_iff)

text \<open>A file's answer is right when its image was made from that file, at some time of the run.\<close>

lemma file_answer_ok:
  assumes "W \<in> Es" and "same_names V W" and "file_request V rq"
    and "img = plain_thumbnail W (file_of V (fst rq)) (target_of (snd rq))"
  shows "answer_ok Es rq img (Some (ie_size V img))"
proof -
  have "file_request W rq" using assms(3) by (simp only: same_names_simps(3) [OF assms(2)])
  moreover have "img = plain_thumbnail W (file_of W (fst rq)) (target_of (snd rq))"
    using assms(4) by (simp only: same_names_simps(2) [OF assms(2)])
  ultimately show ?thesis
    using assms(1) same_names_simps(4) [OF assms(2)]
    by (auto simp: answer_ok_def requestThumbnail_fresh file_request_def Let_def)
qed

lemma made_once_file:
  assumes "num_ok V" and "\<forall>W\<in>Es. same_names V W" and "made_once Es (cache_key V p t) img"
  obtains W where "W \<in> Es" and "same_names V W" and "img = plain_thumbnail W p t"
proof -
  from assms(3) obtain W p' t' where W: "W \<in> Es" "cache_key V p t = cache_key W p' t'"
    and img: "img = plain_thumbnail W p' t'" by (auto simp: made_once_def)
  from assms(2) W(1) have same: "same_names V W" by blast
  have "cache_key V p t = cache_key V p' t'" using W(2) by (simp only: same_names_simps(1) [OF same])
  from cache_key_inj [OF assms(1) this] have "img = plain_thumbnail W p t" using img by simp
  from that [OF W(1) same this] show thesis .
qed

lemma cache_entry_key: "cache_object k c = (Some v, c1) \<Longrightarrow> qcache.each_entry R c \<Longrightarrow> R k v"
  using qcache.each_entry_get(2) by blast

text \<open>One turn of a request keeps what is known of the request and of the cache.\<close>

lemma req_next_ok:
  assumes V: "V \<in> Es" "num_ok V" and same: "\<forall>W\<in>Es. same_names V W"
    and ok: "stage_ok Es rq st" "qcache.each_entry (made_once Es) c" "length c \<le> 500"
    and step: "req_next V rq st c = Some (st', c')"
  shows "stage_ok Es rq st' \<and> qcache.each_entry (made_once Es) c' \<and> length c' \<le> 500 \<and>
    steps_left st' < steps_left st"
proof -
  let ?t = "target_of (snd rq)" and ?p = "file_of V (fst rq)"
  have sameV: "same_names V V" using same V(1) by blast
  have all: "(\<forall>W\<in>Es. file_request W rq) \<longleftrightarrow> file_request V rq"
    using V(1) same same_names_simps(3) by metis
  show ?thesis
  proof (cases st)
    case Asked
    obtain r c1 where g: "cache_object (cache_key V ?p ?t) c = (r, c1)" by fastforce
    have c1: "qcache.each_entry (made_once Es) c1" "length c1 \<le> 500"
      using qcache.each_entry_get(1) [OF ok(2) g] cache_object_length [of "cache_key V ?p ?t" c] ok(3) g by auto
    show ?thesis
    proof (cases "file_request V rq")
      case False
      then have "answer_ok Es rq (generateIconThumbnail V (if starts_with (fst rq) ''icon://'' then drop 7 (fst rq) else ''unknown'') ?t) None"
        using V(1) by (auto simp: answer_ok_def requestThumbnail_fresh file_request_def)
      with False step ok(2,3) show ?thesis
        by (auto simp: Asked req_next_def file_request_def Let_def split: if_splits)
    next
      case True
      note isfile = True
      show ?thesis
      proof (cases r)
        case None
        with True step g c1 show ?thesis
          by (simp add: Asked req_next_def file_request_def [of V] Let_def all)
      next
        case (Some cached)
        from cache_entry_key [OF g [unfolded Some] ok(2)] obtain W
          where "W \<in> Es" "same_names V W" "cached = plain_thumbnail W ?p ?t"
          using made_once_file [OF V(2) same] by blast
        then have "answer_ok Es rq cached (Some (ie_size V cached))" using file_answer_ok isfile by blast
        with Some True step g c1 show ?thesis
          by (auto simp: Asked req_next_def file_request_def Let_def)
      qed
    qed
  next
    case Missed
    with step have "st' = Made (plain_thumbnail V ?p ?t)" "c' = c"
      by (simp_all add: req_next_def plain_thumbnail_def Let_def)
    with Missed ok V(1) show ?thesis by auto
  next
    case (Made img)
    with ok(1) V(1) all obtain W where W: "W \<in> Es" "img = plain_thumbnail W (file_of W (fst rq)) ?t"
      and isfile: "file_request V rq" by auto
    from same W(1) have sW: "same_names V W" by blast
    have eq: "img = plain_thumbnail W ?p ?t" using W(2) by (simp only: same_names_simps(2) [OF sW])
    have "cache_key V ?p ?t = cache_key W ?p ?t" by (simp only: same_names_simps(1) [OF sW])
    with W(1) eq have "made_once Es (cache_key V ?p ?t) img" unfolding made_once_def by blast
    from qcache.each_entry_put [OF ok(2) this] file_answer_ok [OF W(1) sW isfile eq] step show ?thesis
      by (auto simp: Made req_next_def Let_def cache_insert_length)
  next
    case (Answered img sz)
    with step show ?thesis by (simp add: req_next_def Let_def)
  qed
qed



subsection \<open>Runs\<close>

definition all_ok :: "'img img_env set \<Rightarrow> (string \<times> qsize) list \<Rightarrow> 'img cache \<times> 'img stage list \<Rightarrow> bool" where
  "all_ok Es rqs s \<longleftrightarrow>
     (case s of (c, sts) \<Rightarrow> qcache.each_entry (made_once Es) c \<and> length c \<le> 500 \<and> length sts = length rqs \<and>
        (\<forall>i<length rqs. stage_ok Es (rqs ! i) (sts ! i)))"

definition work_left :: "'img cache \<times> 'img stage list \<Rightarrow> nat" where
  "work_left s = sum_list (map steps_left (snd s))"

lemma sum_list_update_less:
  "i < length xs \<Longrightarrow> f x < f (xs ! i) \<Longrightarrow> sum_list (map f (xs[i := x])) < sum_list (map (f :: 'a \<Rightarrow> nat) xs)"
proof (induction xs arbitrary: i)
  case (Cons a xs)
  then show ?case by (cases i) auto
qed simp

lemma thumbs_keep:
  assumes same: "\<forall>V\<in>Es. \<forall>W\<in>Es. same_names V W" and num: "\<forall>V\<in>Es. num_ok V"
    and step: "thumbs Es rqs s s'" and ok: "all_ok Es rqs s"
  shows "all_ok Es rqs s' \<and> work_left s' < work_left s"
  using step
proof cases
  case (turn V i sts c st c')
  with ok have len: "length sts = length rqs" by (simp add: all_ok_def)
  have "stage_ok Es (rqs ! i) (sts ! i)" "qcache.each_entry (made_once Es) c" "length c \<le> 500"
    using ok turn by (auto simp: all_ok_def)
  from req_next_ok [OF turn(3) _ _ this turn(5)] turn(3) num same
  have new: "stage_ok Es (rqs ! i) st" "qcache.each_entry (made_once Es) c'" "length c' \<le> 500"
    "steps_left st < steps_left (sts ! i)" by blast+
  have "stage_ok Es (rqs ! j) (sts[i := st] ! j)" if "j < length rqs" for j
    using that new(1) ok turn(1) len by (cases "i = j") (auto simp: all_ok_def)
  with new(2,3) ok turn(1,2) have "all_ok Es rqs s'" by (simp add: all_ok_def)
  moreover have "work_left s' < work_left s"
    using turn(1,2,4) len new(4) by (simp add: work_left_def sum_list_update_less)
  ultimately show ?thesis ..
qed

lemma thumbs_run_keep:
  assumes "\<forall>V\<in>Es. \<forall>W\<in>Es. same_names V W" and "\<forall>V\<in>Es. num_ok V"
    and "(thumbs Es rqs ^^ n) s s'" and "all_ok Es rqs s"
  shows "all_ok Es rqs s' \<and> n + work_left s' \<le> work_left s"
  using assms(3)
proof (induction n arbitrary: s')
  case 0
  with assms(4) show ?case by simp
next
  case (Suc n)
  then obtain m where "(thumbs Es rqs ^^ n) s m" "thumbs Es rqs m s'" by auto
  with Suc.IH thumbs_keep [OF assms(1,2)] show ?case by fastforce
qed

lemma all_ok_start: "all_ok Es rqs ([], replicate (length rqs) Asked)"
  by (simp add: all_ok_def qcache.each_entry_def)

lemma thumbs_stuck:
  assumes "Es \<noteq> {}" and "all_ok Es rqs (c, sts)" and stuck: "\<nexists>s'. thumbs Es rqs (c, sts) s'" and "i < length rqs"
  shows "\<exists>img sz. sts ! i = Answered img sz \<and> answer_ok Es (rqs ! i) img sz"
proof -
  from assms(1) obtain V where "V \<in> Es" by blast
  with stuck assms(4) have "req_next V (rqs ! i) (sts ! i) c = None" by (metis thumbs.turn not_None_eq surj_pair)
  then obtain img sz where "sts ! i = Answered img sz"
    by (cases "sts ! i") (auto simp: req_next_def Let_def split: if_splits option.splits prod.splits)
  moreover have "stage_ok Es (rqs ! i) (sts ! i)" using assms(2,4) by (simp add: all_ok_def)
  ultimately show ?thesis by simp
qed

text \<open>
  C24. Thumbnails may be asked for from any number of threads, in any interleaving of the locked
  sections of requestImage and while the files change. The cache never holds more than 500
  images, and every answer is the image that a provider with an empty cache makes of the
  requested file and size at some moment of the run: no answer mixes two files or sizes. A run
  of n requests ends after at most 3 n turns, and when no turn is left every request has its
  answer, so no lock is waited for in vain. If the files stay as they are, the answers are those
  of the empty cache.
\<close>

theorem thumbnails_together:
  assumes "\<forall>V\<in>Es. \<forall>W\<in>Es. same_names V W" and "\<forall>V\<in>Es. num_ok V" and "Es \<noteq> {}"
    and run: "(thumbs Es rqs ^^ n) ([], replicate (length rqs) Asked) (c, sts)"
  shows "length c \<le> 500 \<and> n \<le> 3 * length rqs \<and>
    (\<forall>i<length rqs. \<forall>img sz. sts ! i = Answered img sz \<longrightarrow>
      (\<exists>V\<in>Es. \<exists>c'. requestThumbnail V (fst (rqs ! i)) (snd (rqs ! i)) [] = (img, sz, c'))) \<and>
    ((\<nexists>s'. thumbs Es rqs (c, sts) s') \<longrightarrow> (\<forall>i<length rqs. \<exists>img sz. sts ! i = Answered img sz))"
proof (intro conjI allI impI)
  from thumbs_run_keep [OF assms(1,2) run all_ok_start]
  have ok: "all_ok Es rqs (c, sts)"
    and n: "n \<le> work_left ([] :: (string \<times> 'a option) list, replicate (length rqs) (Asked :: 'a stage))"
    by simp_all
  from ok show "length c \<le> 500" by (simp add: all_ok_def)
  from n show "n \<le> 3 * length rqs" by (simp add: work_left_def sum_list_replicate)
  show "\<exists>V\<in>Es. \<exists>c'. requestThumbnail V (fst (rqs ! i)) (snd (rqs ! i)) [] = (img, sz, c')"
    if "i < length rqs" "sts ! i = Answered img sz" for i img sz
    using that ok by (auto simp: all_ok_def answer_ok_def dest!: spec [of _ i])
  show "\<exists>img sz. sts ! i = Answered img sz" if "\<nexists>s'. thumbs Es rqs (c, sts) s'" "i < length rqs" for i
    using thumbs_stuck [OF assms(3) ok that] by blast
qed

text \<open>A schedule, as the list of the requests that take the turns.\<close>

fun play :: "'img img_env \<Rightarrow> (string \<times> qsize) list \<Rightarrow> nat list \<Rightarrow> 'img cache \<times> 'img stage list \<Rightarrow> ('img cache \<times> 'img stage list) option" where
  "play V rqs [] s = Some s"
| "play V rqs (i # is) (c, sts) =
     (if i < length rqs then
        (case req_next V (rqs ! i) (sts ! i) c of
           None \<Rightarrow> None
         | Some (st, c') \<Rightarrow> play V rqs is (c', sts[i := st]))
      else None)"

lemma play_run: "V \<in> Es \<Longrightarrow> play V rqs is s = Some s' \<Longrightarrow> (thumbs Es rqs ^^ length is) s s'"
proof (induction V rqs "is" s rule: play.induct)
  case (2 V rqs i "is" c sts)
  then obtain st c' where "i < length rqs" "req_next V (rqs ! i) (sts ! i) c = Some (st, c')"
    and "play V rqs is (c', sts[i := st]) = Some s'" by (auto split: if_splits option.splits)
  with 2 have "thumbs Es rqs (c, sts) (c', sts[i := st])" "(thumbs Es rqs ^^ length is) (c', sts[i := st]) s'"
    by (auto intro: thumbs.turn)
  then show ?case by (simp add: relpowp_Suc_I2 del: relpowp.simps)
qed simp

text \<open>Two threads ask for the same file; both miss, both make it, and a third finds it made.\<close>

definition two_and_one :: "(string \<times> qsize) list" where
  "two_and_one = [(''/a'', (2, 2)), (''/a'', (2, 2)), (''/a'', (2, 2))]"

theorem thumbnails_together_witness:
  "\<exists>c. (thumbs {demo_img_env} two_and_one ^^ 7) ([], replicate 3 Asked)
      (c, replicate 3 (Answered (Some (length ''text-x-generic'')) (Some (1, 1)))) \<and> length c \<le> 500"
proof -
  let ?s = "(snd (cache_object (cache_key demo_img_env ''/a'' (2, 2)) (cache_insert (cache_key demo_img_env ''/a'' (2, 2)) (Some (14 :: nat)) [])),
    replicate 3 (Answered (Some (length ''text-x-generic'')) (Some (1, 1))))"
  have "play demo_img_env two_and_one [0, 1, 0, 1, 1, 0, 2] ([], replicate 3 Asked) = Some ?s" by code_simp
  from play_run [OF _ this, of "{demo_img_env}"]
  have "(thumbs {demo_img_env} two_and_one ^^ length [0 :: nat, 1, 0, 1, 1, 0, 2]) ([], replicate 3 Asked) ?s" by blast
  moreover have "length [0 :: nat, 1, 0, 1, 1, 0, 2] = 7" by simp
  ultimately have "(thumbs {demo_img_env} two_and_one ^^ 7) ([], replicate 3 Asked) ?s" by (simp only:)
  moreover have "length two_and_one = 3" by (simp add: two_and_one_def)
  from this [symmetric] calculation
  have "(thumbs {demo_img_env} two_and_one ^^ 7) ([], replicate (length two_and_one) Asked) ?s" by (simp only:)
  from thumbnails_together [OF _ _ _ this, THEN conjunct1]
  have "length (fst ?s) \<le> 500" by (simp add: same_names_def demo_num_ok del: length_replicate replicate.simps)
  ultimately have "(thumbs {demo_img_env} two_and_one ^^ 7) ([], replicate 3 Asked) ?s \<and> length (fst ?s) \<le> 500" by blast
  then show ?thesis unfolding fst_conv by blast
qed

end
