(* ===== verification/Notifications.thy ===== *)
theory Notifications
  imports RowModel
begin

text \<open>
  The notification list of the shell, desktop/shell/src/NotificationClient.{h,cpp}: newest
  first, replaced in place when the server says so. Case folding (\<open>toLower\<close>) and the current
  time are arguments.
\<close>

record notification =
  nt_id :: "32 word"
  nt_appName :: string
  nt_summary :: string
  nt_body :: string
  nt_icon :: string
  nt_urgency :: int
  nt_timestamp :: int

record notif_list =
  nc_notifications :: "notification list"
  nc_nextId :: "32 word"

datatype nc_signal = NcRows row_notif | UnreadCountChanged | NotificationAdded string string

definition init_notifications :: notif_list where
  "init_notifications = \<lparr>nc_notifications = [], nc_nextId = 1\<rparr>"

definition unreadCount :: "notif_list \<Rightarrow> nat" where
  "unreadCount c = length (nc_notifications c)"

definition dismiss :: "int \<Rightarrow> notif_list \<Rightarrow> bool \<times> notif_list \<times> nc_signal list" where
  "dismiss row c =
     (if row < 0 \<or> row \<ge> int (length (nc_notifications c)) then (False, c, [])
      else (True, c\<lparr>nc_notifications := remove_at (nat row) (nc_notifications c)\<rparr>,
        [NcRows (RowsRemoved (nat row) (nat row)), UnreadCountChanged]))"

definition dismissAll :: "notif_list \<Rightarrow> notif_list \<times> nc_signal list" where
  "dismissAll c =
     (if nc_notifications c = [] then (c, [])
      else (c\<lparr>nc_notifications := []\<rparr>, [NcRows ModelReset, UnreadCountChanged]))"

definition urgency_of :: "(string \<Rightarrow> string) \<Rightarrow> string \<Rightarrow> string \<Rightarrow> int" where
  "urgency_of toLower summary body =
     (let low = toLower (summary @ '' '' @ body) in
      if str_contains low ''critical'' \<or> str_contains low ''error'' then 2 else 1)"

definition onNotificationAdded ::
  "(string \<Rightarrow> string) \<Rightarrow> int \<Rightarrow> 32 word \<Rightarrow> string \<Rightarrow> 32 word \<Rightarrow> string \<Rightarrow> string \<Rightarrow> string
    \<Rightarrow> notif_list \<Rightarrow> notif_list \<times> nc_signal list" where
  "onNotificationAdded toLower now nid appName replacesId appIcon summary body c =
     (case (if replacesId \<noteq> 0 then find_idx (\<lambda>n. nt_id n = replacesId) (nc_notifications c) else None) of
        Some i \<Rightarrow>
          (c\<lparr>nc_notifications := (nc_notifications c)
              [i := (nc_notifications c ! i)\<lparr>nt_appName := appName, nt_summary := summary, nt_body := body,
                    nt_icon := appIcon, nt_timestamp := now\<rparr>]\<rparr>,
           [NcRows (DataChanged i), NotificationAdded summary body])
      | None \<Rightarrow>
          (let finalId = (if nid \<noteq> 0 then nid else nc_nextId c);
               n = \<lparr>nt_id = finalId, nt_appName = appName, nt_summary = summary, nt_body = body, nt_icon = appIcon,
                    nt_urgency = urgency_of toLower summary body, nt_timestamp = now\<rparr>
           in (c\<lparr>nc_notifications := n # nc_notifications c,
                 nc_nextId := (if nid \<noteq> 0 then nc_nextId c else nc_nextId c + 1)\<rparr>,
               [NcRows (RowsInserted 0 0), UnreadCountChanged, NotificationAdded summary body])))"


subsection \<open>The model interface\<close>

datatype nc_role =
  NcIdRole | NcAppNameRole | NcSummaryRole | NcBodyRole | NcIconRole | NcUrgencyRole | NcTimestampRole | NcOtherRole

definition nc_rowCount :: "notif_list \<Rightarrow> nat option \<Rightarrow> nat" where
  "nc_rowCount c parent = (if parent \<noteq> None then 0 else length (nc_notifications c))"

fun nc_cell :: "notification \<Rightarrow> nc_role \<Rightarrow> variant" where
  "nc_cell n NcIdRole = VUInt (nt_id n)"
| "nc_cell n NcAppNameRole = VStr (nt_appName n)"
| "nc_cell n NcSummaryRole = VStr (nt_summary n)"
| "nc_cell n NcBodyRole = VStr (nt_body n)"
| "nc_cell n NcIconRole = VStr (nt_icon n)"
| "nc_cell n NcUrgencyRole = VInt (nt_urgency n)"
| "nc_cell n NcTimestampRole = VTime (nt_timestamp n)"
| "nc_cell n NcOtherRole = VInvalid"

definition nc_data :: "notif_list \<Rightarrow> nat option \<Rightarrow> nc_role \<Rightarrow> variant" where
  "nc_data c index role =
     (case index of
        None \<Rightarrow> VInvalid
      | Some row \<Rightarrow> if row \<ge> length (nc_notifications c) then VInvalid else nc_cell (nc_notifications c ! row) role)"

definition nc_roleNames :: "(nc_role \<times> string) list" where
  "nc_roleNames =
     [(NcIdRole, ''id''), (NcAppNameRole, ''appName''), (NcSummaryRole, ''summary''), (NcBodyRole, ''body''),
      (NcIconRole, ''icon''), (NcUrgencyRole, ''urgency''), (NcTimestampRole, ''timestamp'')]"

interpretation notif_items: item_model nc_notifications nc_rowCount nc_data nc_cell nc_roleNames
  by unfold_locales (auto simp: nc_rowCount_def nc_data_def nc_roleNames_def)


subsection \<open>Runs\<close>

datatype nc_event =
    NcAdded int "32 word" string "32 word" string string string
  | NcDismiss int
  | NcDismissAll

fun nc_step :: "(string \<Rightarrow> string) \<Rightarrow> nc_event \<Rightarrow> notif_list \<Rightarrow> notif_list \<times> nc_signal list" where
  "nc_step low (NcAdded now nid app rep icon summary body) c = onNotificationAdded low now nid app rep icon summary body c"
| "nc_step low (NcDismiss row) c = snd (dismiss row c)"
| "nc_step low NcDismissAll c = dismissAll c"

fun nc_run :: "(string \<Rightarrow> string) \<Rightarrow> nc_event list \<Rightarrow> notif_list \<Rightarrow> notif_list" where
  "nc_run low [] c = c"
| "nc_run low (e # es) c = nc_run low es (fst (nc_step low e c))"

definition nc_rows :: "nc_signal list \<Rightarrow> row_notif list" where
  "nc_rows os = concat (map (\<lambda>x. case x of NcRows r \<Rightarrow> [r] | _ \<Rightarrow> []) os)"

interpretation notif_rows:
  row_model nc_notifications "\<lambda>e c. fst (nc_step (fst e) (snd e) c)" "\<lambda>e c. nc_rows (snd (nc_step (fst e) (snd e) c))"
proof (unfold_locales)
  fix e :: "(string \<Rightarrow> string) \<times> nc_event" and c
  obtain low ev where e: "e = (low, ev)" by (cases e)
  have i: "find_idx P xs = Some i \<Longrightarrow> i < length xs" for P i and xs :: "notification list"
    by (drule find_idx_Some) simp
  show "replay (nc_notifications (fst (nc_step (fst e) (snd e) c)))
      (nc_rows (snd (nc_step (fst e) (snd e) c))) (nc_notifications c) =
    nc_notifications (fst (nc_step (fst e) (snd e) c))"
    unfolding e
    by (cases ev) (auto simp: nc_rows_def dismiss_def dismissAll_def onNotificationAdded_def Let_def
        remove_at_def split: option.splits if_splits dest: i)
qed

text \<open>The abstract store: what is shown under each id, and what an addition promises.\<close>

definition nc_content :: "notification \<Rightarrow> string \<times> string \<times> string \<times> string" where
  "nc_content n = (nt_appName n, nt_summary n, nt_body n, nt_icon n)"

definition nc_view :: "notif_list \<Rightarrow> 32 word \<Rightarrow> (string \<times> string \<times> string \<times> string) option" where
  "nc_view c = keyed nt_id nc_content (nc_notifications c)"

definition nc_wf :: "notif_list \<Rightarrow> bool" where
  "nc_wf c \<longleftrightarrow> distinct (map nt_id (nc_notifications c))"

lemma nc_view_None: "nc_view c i = None \<longleftrightarrow> find_idx (\<lambda>n. nt_id n = i) (nc_notifications c) = None"
  by (auto simp: nc_view_def keyed_find_idx split: option.splits)

lemma nc_added_view:
  assumes "nc_wf c" and "nid \<noteq> 0" and "nid = rep \<or> nc_view c nid = None"
  shows "(nc_view (fst (onNotificationAdded low now nid app rep icon summary body c)) =
      (nc_view c)((if rep \<noteq> 0 \<and> nc_view c rep \<noteq> None then rep else nid) \<mapsto> (app, summary, body, icon))) \<and>
    nc_wf (fst (onNotificationAdded low now nid app rep icon summary body c))"
proof (cases "rep \<noteq> 0 \<and> nc_view c rep \<noteq> None")
  case True
  then obtain i where i: "find_idx (\<lambda>n. nt_id n = rep) (nc_notifications c) = Some i"
    by (auto simp: nc_view_None)
  let ?n = "(nc_notifications c ! i)\<lparr>nt_appName := app, nt_summary := summary, nt_body := body,
      nt_icon := icon, nt_timestamp := now\<rparr>"
  have "nt_id ?n = rep" using find_idx_Some [OF i] by simp
  with True i keyed_update [OF i this, of nc_content] distinct_keys_update [OF i this] assms(1) show ?thesis
    by (simp add: onNotificationAdded_def nc_view_def nc_wf_def nc_content_def)
next
  case False
  then have none: "(if rep \<noteq> 0 then find_idx (\<lambda>n. nt_id n = rep) (nc_notifications c) else None) = None"
    by (auto simp: nc_view_None)
  have "nid \<notin> nt_id ` set (nc_notifications c)"
    using assms(2,3) False by (auto simp: nc_view_None find_idx_None)
  then show ?thesis
    using assms(1,2) unfolding onNotificationAdded_def none if_not_P [OF False]
    by (simp add: nc_view_def nc_wf_def keyed_def nc_content_def Let_def)
qed

lemma nc_dismiss_wf: "nc_wf c \<Longrightarrow> nc_wf (fst (snd (dismiss row c)))"
  by (simp add: nc_wf_def dismiss_def distinct_map_remove_at)

subsection \<open>With the numbers of the service\<close>

text \<open>The service in core/notification-service/src/main.rs numbers the requests: a replacement has the
  number it replaces, any other the next one, and 0 is left out when the counter wraps around. The
  pair is the number and the counter after it.\<close>

definition allocate_id :: "32 word \<Rightarrow> 32 word \<Rightarrow> 32 word \<times> 32 word" where
  "allocate_id replaces_id NEXT_ID =
     (if replaces_id > 0 then (replaces_id, NEXT_ID)
      else if NEXT_ID = 0 then (NEXT_ID + 1, NEXT_ID + 1 + 1) else (NEXT_ID, NEXT_ID + 1))"

text \<open>Requests of applications and the user's clicks; the list is told each request with its number.\<close>

datatype nc_input = Notify int string "32 word" string string string | ClickDismiss int | ClickDismissAll

fun served :: "(string \<Rightarrow> string) \<Rightarrow> nc_input \<Rightarrow> 32 word \<times> notif_list \<Rightarrow> 32 word \<times> notif_list" where
  "served low (Notify now app rep icon summary body) (next_id, c) =
     (let (nid, next_id') = allocate_id rep next_id in
      (next_id', fst (nc_step low (NcAdded now nid app rep icon summary body) c)))"
| "served low (ClickDismiss row) (next_id, c) = (next_id, fst (nc_step low (NcDismiss row) c))"
| "served low ClickDismissAll (next_id, c) = (next_id, fst (nc_step low NcDismissAll c))"

definition served_all :: "(string \<Rightarrow> string) \<Rightarrow> nc_input list \<Rightarrow> 32 word \<times> notif_list" where
  "served_all low es = fold (served low) es (1, init_notifications)"

text \<open>Applications replace only what the service has numbered before.\<close>

fun replaces_issued :: "(string \<Rightarrow> string) \<Rightarrow> nc_input list \<Rightarrow> 32 word \<times> notif_list \<Rightarrow> bool" where
  "replaces_issued low [] st = True"
| "replaces_issued low (e # es) st =
     ((case e of Notify now app rep icon summary body \<Rightarrow> rep < fst st | _ \<Rightarrow> True) \<and>
      replaces_issued low es (served low e st))"

abbreviation service_starts :: "32 word \<times> notif_list" where
  "service_starts \<equiv> (1, init_notifications)"

lemma replaces_issued_append:
  "replaces_issued low (es @ fs) st \<longleftrightarrow> replaces_issued low es st \<and> replaces_issued low fs (fold (served low) es st)"
  by (induction es arbitrary: st) auto

lemma replaces_issued_snoc:
  "replaces_issued low (es @ [e]) service_starts \<longleftrightarrow> replaces_issued low es service_starts \<and>
    (case e of Notify now app rep icon summary body \<Rightarrow> rep < fst (served_all low es) | _ \<Rightarrow> True)"
  by (cases e) (simp_all add: replaces_issued_append served_all_def)

lemma served_all_snoc: "served_all low (es @ [e]) = served low e (served_all low es)"
  by (simp add: served_all_def)

text \<open>After at most \<open>k\<close> requests: the list is a map, with numbers that have been given out.\<close>

definition nc_issued :: "nat \<Rightarrow> 32 word \<times> notif_list \<Rightarrow> bool" where
  "nc_issued k = (\<lambda>(next_id, c). nc_wf c \<and> 0 < next_id \<and> unat next_id \<le> Suc k \<and>
     (\<forall>i. nc_view c i \<noteq> None \<longrightarrow> 0 < i \<and> i < next_id))"

lemma nc_dismiss_view: "nc_view (fst (snd (dismiss row c))) i \<noteq> None \<Longrightarrow> nc_view c i \<noteq> None"
  by (auto simp: nc_view_None find_idx_None dismiss_def remove_at_def split: if_splits dest: in_set_takeD in_set_dropD)

lemma word_next:
  fixes n :: "32 word"
  assumes "unat n \<le> Suc k" and "Suc (Suc k) < 2 ^ 32"
  shows "n < n + 1" and "unat (n + 1) \<le> Suc (Suc k)"
proof -
  have "unat (n + 1) = Suc (unat n)" using assms by (simp add: unat_word_ariths)
  with assms show "n < n + 1" and "unat (n + 1) \<le> Suc (Suc k)" by (simp_all add: word_less_nat_alt)
qed

lemma served_issued:
  assumes "nc_issued k (next_id, c)" and "Suc (Suc k) < 2 ^ 32" and "rep < next_id"
    and "allocate_id rep next_id = (nid, next_id')"
  shows "nc_issued (Suc k) (next_id', fst (onNotificationAdded low now nid app rep icon summary body c)) \<and>
    nc_view (fst (onNotificationAdded low now nid app rep icon summary body c)) =
      (nc_view c)(nid \<mapsto> (app, summary, body, icon)) \<and>
    nid \<noteq> 0 \<and> (rep = 0 \<longrightarrow> nc_view c nid = None) \<and> (rep \<noteq> 0 \<longrightarrow> nid = rep)"
proof -
  have inv: "nc_wf c" "0 < next_id" "unat next_id \<le> Suc k" "\<And>i. nc_view c i \<noteq> None \<Longrightarrow> 0 < i \<and> i < next_id"
    using assms(1) by (auto simp: nc_issued_def)
  have nid: "nid = (if rep = 0 then next_id else rep)" "next_id' = (if rep = 0 then next_id + 1 else next_id)"
    using assms(4) inv(2) by (auto simp: allocate_id_def word_gt_0 split: if_splits)
  have fresh: "nc_view c next_id = None" using inv(4) by blast
  have n0: "nid \<noteq> 0" using nid inv(2) by auto
  have "nid = rep \<or> nc_view c nid = None" using nid fresh by simp
  from nc_added_view [OF inv(1) n0 this, of low now app icon summary body]
  have view: "nc_view (fst (onNotificationAdded low now nid app rep icon summary body c)) =
      (nc_view c)(nid \<mapsto> (app, summary, body, icon))"
    and wf: "nc_wf (fst (onNotificationAdded low now nid app rep icon summary body c))"
    using nid by (auto split: if_splits)
  have grow: "nid < next_id'" "next_id \<le> next_id'" "0 < next_id'" "unat next_id' \<le> Suc (Suc k)"
    using nid inv(2,3) assms(3) word_next [OF inv(3) assms(2)] by (auto simp: word_gt_0 split: if_splits)
  have "nc_issued (Suc k) (next_id', fst (onNotificationAdded low now nid app rep icon summary body c))"
    unfolding nc_issued_def using wf view grow inv(4) n0
    by (fastforce simp: word_gt_0 split: if_splits)
  with view n0 nid fresh show ?thesis by simp
qed

lemma served_run:
  assumes "replaces_issued low es service_starts" and "Suc (length es) < 2 ^ 32"
  shows "nc_issued (length es) (served_all low es)"
  using assms
proof (induction es rule: rev_induct)
  case Nil
  then show ?case by (simp add: nc_issued_def served_all_def init_notifications_def nc_wf_def nc_view_None)
next
  case (snoc e es)
  obtain next_id c where s: "served_all low es = (next_id, c)" by fastforce
  from snoc have IH: "nc_issued (length es) (next_id, c)" by (simp add: s replaces_issued_snoc)
  show ?case
  proof (cases e)
    case (Notify now app rep icon summary body)
    then have "rep < next_id" using snoc.prems by (simp add: replaces_issued_snoc s)
    moreover obtain nid next_id' where a: "allocate_id rep next_id = (nid, next_id')" by fastforce
    ultimately show ?thesis
      using served_issued [OF IH _ _ a] snoc.prems Notify by (simp add: served_all_snoc s)
  next
    case (ClickDismiss row)
    then show ?thesis using IH nc_dismiss_wf nc_dismiss_view
      by (fastforce simp: served_all_snoc s nc_issued_def)
  next
    case ClickDismissAll
    then show ?thesis using IH
      by (auto simp: served_all_snoc s nc_issued_def dismissAll_def nc_wf_def nc_view_None)
  qed
qed


definition demo_notifs :: "nc_input list" where
  "demo_notifs = [Notify 1 ''mail'' 0 [] ''new'' ''one'', Notify 2 ''chat'' 0 [] ''hi'' [], ClickDismiss 0]"


text \<open>The counter wraps around past 0, and a number that no application was given can come back later: a
  request that replaces 2 before it is given out makes two notifications with the number 2.\<close>

lemma allocate_wraps: "allocate_id 0 (- 1) = (- 1, 0) \<and> allocate_id 0 0 = (1, 2)"
  by (simp add: allocate_id_def)

lemma unissued_replacement_collides:
  "map nt_id (nc_notifications (snd (served_all low
      [Notify 1 ''a'' 2 [] [] [], Notify 2 ''b'' 0 [] [] [], Notify 3 ''c'' 0 [] [] []]))) = [2, 1, 2]"
  by (simp add: served_all_def allocate_id_def onNotificationAdded_def init_notifications_def Let_def)

text \<open>A replacement keeps the urgency of the notification it replaces: a warning that turns
  into an error is still shown as normal.\<close>

lemma replacement_keeps_urgency:
  assumes "rep \<noteq> 0" and "find_idx (\<lambda>n. nt_id n = rep) (nc_notifications c) = Some i"
  shows "nt_urgency (nc_notifications (fst (onNotificationAdded low now nid app rep icon summary body c)) ! i) =
    nt_urgency (nc_notifications c ! i)"
  using assms find_idx_Some [OF assms(2)] by (simp add: onNotificationAdded_def)

end
