(* ===== verification/Workspace.thy ===== *)
theory Workspace
  imports Prelude "HOL-Library.Signed_Division"
begin

text \<open>
  The workspace controller, desktop/shell/src/WorkspaceController.{h,cpp}. The proxy object of
  the compositor is there (\<open>Some\<close>) or not; a probe gives whether the service is registered,
  whether a new proxy is valid, and the replies of the three calls (\<open>None\<close> is an invalid
  reply). \<open>arg_name i\<close> is the default name of workspace \<open>i\<close>. C++'s \<open>%\<close> is \<open>smod\<close>.
\<close>

record workspace =
  ws_iface :: bool
  ws_count :: int
  ws_current :: int
  ws_names :: "string list"

record probe_result =
  pr_registered :: bool
  pr_valid :: bool
  pr_count :: "int option"
  pr_current :: "int option"
  pr_names :: "string list option"

datatype ws_out = CountChanged | CurrentChanged | NamesChanged | CallSwitchTo int

definition init_workspace :: workspace where
  "init_workspace = \<lparr>ws_iface = False, ws_count = 1, ws_current = 0, ws_names = [''Workspace 1'']\<rparr>"

definition ws_set_count :: "int \<Rightarrow> workspace \<Rightarrow> workspace \<times> ws_out list" where
  "ws_set_count n w = (if n \<noteq> ws_count w then (w\<lparr>ws_count := n\<rparr>, [CountChanged]) else (w, []))"

definition ws_set_current :: "int \<Rightarrow> workspace \<Rightarrow> workspace \<times> ws_out list" where
  "ws_set_current n w = (if n \<noteq> ws_current w then (w\<lparr>ws_current := n\<rparr>, [CurrentChanged]) else (w, []))"

definition ws_set_names :: "(int \<Rightarrow> string) \<Rightarrow> string list \<Rightarrow> workspace \<Rightarrow> workspace \<times> ws_out list" where
  "ws_set_names arg_name ns w =
     (if ns \<noteq> ws_names w then
        (w\<lparr>ws_names := (if ns = [] then map (\<lambda>i. arg_name (int i + 1)) [0..<nat (ws_count w)] else ns)\<rparr>, [NamesChanged])
      else (w, []))"

definition probe :: "(int \<Rightarrow> string) \<Rightarrow> probe_result \<Rightarrow> workspace \<Rightarrow> workspace \<times> ws_out list" where
  "probe arg_name r w =
     (let w0 = (if pr_registered r then w\<lparr>ws_iface := pr_valid r\<rparr> else w) in
      if \<not> ws_iface w0 then
        (case ws_set_count 1 w0 of (w1, o1) \<Rightarrow>
         case ws_set_current 0 w1 of (w2, o2) \<Rightarrow>
           (if ws_names w2 \<noteq> [''Workspace 1''] then (w2\<lparr>ws_names := [''Workspace 1'']\<rparr>, o1 @ o2 @ [NamesChanged])
            else (w2, o1 @ o2)))
      else
        (case (case pr_count r of None \<Rightarrow> (w0, []) | Some n \<Rightarrow> ws_set_count n w0) of (w1, o1) \<Rightarrow>
         case (case pr_current r of None \<Rightarrow> (w1, []) | Some n \<Rightarrow> ws_set_current n w1) of (w2, o2) \<Rightarrow>
         case (case pr_names r of None \<Rightarrow> (w2, []) | Some ns \<Rightarrow> ws_set_names arg_name ns w2) of (w3, o3) \<Rightarrow>
           (w3, o1 @ o2 @ o3)))"

definition switchTo :: "int \<Rightarrow> workspace \<Rightarrow> workspace \<times> ws_out list" where
  "switchTo index w =
     (if \<not> ws_iface w \<or> index < 0 \<or> index \<ge> ws_count w then (w, [])
      else (case ws_set_current index w of (w1, o1) \<Rightarrow> (w1, CallSwitchTo index # o1)))"

definition next_ws :: "workspace \<Rightarrow> workspace \<times> ws_out list" where
  "next_ws w = (if ws_count w \<le> 1 then (w, []) else switchTo ((ws_current w + 1) smod ws_count w) w)"

definition previous_ws :: "workspace \<Rightarrow> workspace \<times> ws_out list" where
  "previous_ws w =
     (if ws_count w \<le> 1 then (w, []) else switchTo ((ws_current w - 1 + ws_count w) smod ws_count w) w)"

datatype ws_event = WsProbe probe_result | WsSwitch int | WsNext | WsPrevious

fun ws_step :: "(int \<Rightarrow> string) \<Rightarrow> ws_event \<Rightarrow> workspace \<Rightarrow> workspace \<times> ws_out list" where
  "ws_step an (WsProbe r) w = probe an r w"
| "ws_step an (WsSwitch i) w = switchTo i w"
| "ws_step an WsNext w = next_ws w"
| "ws_step an WsPrevious w = previous_ws w"

fun ws_run :: "(int \<Rightarrow> string) \<Rightarrow> ws_event list \<Rightarrow> workspace \<Rightarrow> workspace" where
  "ws_run an [] w = w"
| "ws_run an (e # es) w = ws_run an es (fst (ws_step an e w))"

definition ws_ok :: "workspace \<Rightarrow> bool" where
  "ws_ok w \<longleftrightarrow> 0 \<le> ws_current w \<and> ws_current w < ws_count w \<and>
     (\<not> ws_iface w \<longrightarrow> ws_count w = 1 \<and> ws_names w = [''Workspace 1''])"

text \<open>A compositor that answers all calls, and consistently.\<close>

fun consistent :: "ws_event \<Rightarrow> bool" where
  "consistent (WsProbe r) \<longleftrightarrow>
     (\<exists>n c. pr_count r = Some n \<and> pr_current r = Some c \<and> 0 \<le> c \<and> c < n)"
| "consistent _ = True"

lemma smod_pos: "0 \<le> a \<Longrightarrow> 0 < b \<Longrightarrow> a smod b = a mod (b :: int)"
  by (auto simp: signed_modulo_int_def signed_divide_int_def minus_div_mult_eq_mod sgn_if)

lemma mod_range: "0 < b \<Longrightarrow> \<not> (a mod b < 0) \<and> \<not> (b \<le> a mod (b :: int))"
  by (simp add: not_less not_le)

lemma next_eq:
  assumes "ws_ok w"
  shows "fst (next_ws w) = (if ws_iface w then w\<lparr>ws_current := (ws_current w + 1) mod ws_count w\<rparr> else w)"
proof -
  have "0 < ws_count w" and "0 \<le> ws_current w + 1" using assms by (auto simp: ws_ok_def)
  note mod_range [OF this(1), of "ws_current w + 1"] smod_pos [OF this(2,1)]
  then show ?thesis
    using assms by (auto simp: next_ws_def switchTo_def ws_set_current_def ws_ok_def)
qed

lemma previous_eq:
  assumes "ws_ok w"
  shows "fst (previous_ws w) = (if ws_iface w then w\<lparr>ws_current := (ws_current w - 1) mod ws_count w\<rparr> else w)"
proof -
  have "0 < ws_count w" and "0 \<le> ws_current w - 1 + ws_count w" using assms by (auto simp: ws_ok_def)
  note mod_range [OF this(1), of "ws_current w - 1"] smod_pos [OF this(2,1)]
  then show ?thesis
    using assms by (auto simp: previous_ws_def switchTo_def ws_set_current_def ws_ok_def)
qed

lemma probe_ok:
  assumes "ws_ok w" and "pr_count r = Some n" and "pr_current r = Some c" and "0 \<le> c" and "c < n"
  shows "ws_ok (fst (probe an r w))"
proof (cases "if pr_registered r then pr_valid r else ws_iface w")
  case True
  then show ?thesis
    using assms by (auto simp: ws_ok_def probe_def Let_def ws_set_count_def ws_set_current_def ws_set_names_def
        split: option.splits if_splits)
next
  case False
  then have "\<not> ws_iface (if pr_registered r then w\<lparr>ws_iface := pr_valid r\<rparr> else w)" by (auto split: if_splits)
  then show ?thesis
    by (simp add: probe_def Let_def ws_ok_def ws_set_count_def ws_set_current_def)
qed

lemma switchTo_ok: "ws_ok w \<Longrightarrow> ws_ok (fst (switchTo i w))"
  by (auto simp: ws_ok_def switchTo_def ws_set_current_def)

lemma ws_step_ok: "consistent e \<Longrightarrow> ws_ok w \<Longrightarrow> ws_ok (fst (ws_step an e w))"
  by (cases e) (auto simp: switchTo_ok next_ws_def previous_ws_def intro: probe_ok)

lemma ws_run_ok: "list_all consistent es \<Longrightarrow> ws_ok w \<Longrightarrow> ws_ok (ws_run an es w)"
  by (induction es arbitrary: w) (simp_all add: ws_step_ok)

lemma next_funpow:
  assumes "ws_ok w" and "ws_iface w"
  shows "((\<lambda>v. fst (next_ws v)) ^^ k) w = w\<lparr>ws_current := (ws_current w + int k) mod ws_count w\<rparr>"
proof (induction k)
  case 0
  from assms show ?case by (simp add: ws_ok_def)
next
  case (Suc k)
  let ?v = "w\<lparr>ws_current := (ws_current w + int k) mod ws_count w\<rparr>"
  have "ws_ok ?v" and "ws_iface ?v" using assms by (auto simp: ws_ok_def)
  moreover have "((ws_current w + int k) mod ws_count w + 1) mod ws_count w = (ws_current w + int (Suc k)) mod ws_count w"
    unfolding mod_add_left_eq by (simp add: algebra_simps)
  ultimately show ?case using Suc next_eq [of ?v] by simp
qed

text \<open>
  The workspaces form a ring. After any sequence of probes and switches, with a compositor
  that answers consistently: the current workspace is one of those that exist, there is
  exactly one workspace while there is no workspace service; next and previous undo each
  other; and going next as often as there are workspaces leads back to the same one, through
  each of the others.
\<close>

theorem workspaces_ring:
  assumes "list_all consistent es" and "w = ws_run an es init_workspace"
  shows "0 \<le> ws_current w \<and> ws_current w < ws_count w \<and>
    (\<not> ws_iface w \<longrightarrow> ws_count w = 1) \<and>
    fst (previous_ws (fst (next_ws w))) = w \<and> fst (next_ws (fst (previous_ws w))) = w \<and>
    (ws_iface w \<longrightarrow>
       ((\<lambda>v. fst (next_ws v)) ^^ nat (ws_count w)) w = w \<and>
       (\<lambda>k. ws_current (((\<lambda>v. fst (next_ws v)) ^^ k) w)) ` {..<nat (ws_count w)} = {0..<ws_count w})"
proof -
  have ok: "ws_ok w"
    unfolding assms(2) by (rule ws_run_ok [OF assms(1)]) (simp add: ws_ok_def init_workspace_def)
  have same: "w\<lparr>ws_current := ws_current w\<rparr> = w" by simp
  have cur: "ws_current w mod ws_count w = ws_current w" using ok by (simp add: ws_ok_def)
  have np: "fst (previous_ws (fst (next_ws w))) = w \<and> fst (next_ws (fst (previous_ws w))) = w"
  proof (cases "ws_iface w")
    case True
    have "ws_ok (w\<lparr>ws_current := i mod ws_count w\<rparr>)" for i using ok True by (simp add: ws_ok_def)
    with ok True cur same show ?thesis
      by (simp add: next_eq previous_eq mod_diff_left_eq mod_add_left_eq)
  next
    case False
    with ok show ?thesis by (simp add: next_eq previous_eq)
  qed
  moreover have "((\<lambda>v. fst (next_ws v)) ^^ nat (ws_count w)) w = w" if "ws_iface w"
    using next_funpow [OF ok that, of "nat (ws_count w)"] ok cur by (simp add: ws_ok_def)
  moreover have "(\<lambda>k. ws_current (((\<lambda>v. fst (next_ws v)) ^^ k) w)) ` {..<nat (ws_count w)} = {0..<ws_count w}"
    if "ws_iface w"
  proof -
    have "j \<in> (\<lambda>k. (ws_current w + int k) mod ws_count w) ` {..<nat (ws_count w)}"
      if "0 \<le> j" "j < ws_count w" for j
    proof (rule image_eqI)
      let ?k = "(j - ws_current w) mod ws_count w"
      have k: "0 \<le> ?k" "?k < ws_count w" using ok by (simp_all add: ws_ok_def)
      then show "nat ?k \<in> {..<nat (ws_count w)}" by simp
      show "j = (ws_current w + int (nat ?k)) mod ws_count w"
        using k that by (simp add: mod_add_right_eq)
    qed
    then show ?thesis using ok next_funpow [OF ok that] by (auto simp: ws_ok_def)
  qed
  ultimately show ?thesis using ok by (auto simp: ws_ok_def)
qed

definition demo_probe :: probe_result where
  "demo_probe = \<lparr>pr_registered = True, pr_valid = True, pr_count = Some 3, pr_current = Some 2, pr_names = Some []\<rparr>"

theorem workspaces_ring_witness:
  "ws_current (fst (next_ws (ws_run (\<lambda>i. []) [WsProbe demo_probe] init_workspace))) = 0 \<and>
   ((\<lambda>v. fst (next_ws v)) ^^ 3) (ws_run (\<lambda>i. []) [WsProbe demo_probe] init_workspace) =
     ws_run (\<lambda>i. []) [WsProbe demo_probe] init_workspace"
proof -
  have ok: "list_all consistent [WsProbe demo_probe]" by (simp add: demo_probe_def)
  have "ws_iface (ws_run (\<lambda>i. []) [WsProbe demo_probe] init_workspace)"
    and "nat (ws_count (ws_run (\<lambda>i. []) [WsProbe demo_probe] init_workspace)) = 3"
    and "ws_current (fst (next_ws (ws_run (\<lambda>i. []) [WsProbe demo_probe] init_workspace))) = 0"
    by code_simp+
  with workspaces_ring [OF ok refl, of "\<lambda>i. []"] show ?thesis by metis
qed

text \<open>With an empty list of names from the compositor, every probe announces a change: the list
  kept is the default one, which differs from the empty reply.\<close>

lemma empty_names_announced_again:
  assumes "ws_count w > 0" and "ws_names w \<noteq> []" and "pr_registered r" and "pr_valid r" and "pr_count r = Some (ws_count w)"
    and "pr_names r = Some []"
  shows "NamesChanged \<in> set (snd (probe an r (fst (probe an r w))))"
  using assms by (auto simp: probe_def Let_def ws_set_names_def ws_set_count_def ws_set_current_def
      split: option.splits prod.splits if_splits)

text \<open>When the compositor leaves the bus, the proxy and the workspaces it reported stay.\<close>

lemma stale_workspaces:
  assumes "ws_iface w" and "\<not> pr_registered r" and "pr_count r = None" and "pr_current r = None" and "pr_names r = None"
  shows "probe an r w = (w, [])"
  using assms by (simp add: probe_def Let_def)

end
