(* ===== verification/Tray.thy ===== *)
theory Tray
  imports Prelude
begin

text \<open>
  The system tray: volume, battery and trash, desktop/shell/src/VolumeControl.{h,cpp},
  PowerStatus.{h,cpp} and TrashIconState.{h,cpp}. What the machine answers (the location and
  the output of \<open>pactl\<close>, the files under /sys, the trash directory) is an argument of the
  operation that asks.
\<close>

subsection \<open>Volume\<close>

record volume =
  vc_available :: bool
  vc_volume :: int
  vc_muted :: bool

datatype vc_out = AvailableChanged | VolumeChanged | MutedChanged | Spawn "string list" | QueryState

definition isDigit :: "char \<Rightarrow> bool" where
  "isDigit c \<longleftrightarrow> (of_char c :: nat) \<ge> 48 \<and> (of_char c :: nat) \<le> 57"

definition digit_value :: "char \<Rightarrow> nat" where
  "digit_value c = of_char c - 48"

lemma dropWhile_shorter: "s \<noteq> [] \<Longrightarrow> P (hd s) \<Longrightarrow> length (dropWhile P s) < length s"
  using length_dropWhile_le [of P "tl s"] by (cases s) auto

text \<open>The regular expression \<open>(\d+)%\<close>, leftmost match: a run of digits that a percent sign ends.\<close>

function first_percent :: "string \<Rightarrow> string option" where
  "first_percent s =
     (if s = [] then None
      else if \<not> isDigit (hd s) then first_percent (tl s)
      else
        let ds = takeWhile isDigit s; rest = dropWhile isDigit s in
        if rest \<noteq> [] \<and> hd rest = CHR ''%'' then Some ds else first_percent rest)"
  by auto

termination
  by (relation "measure length") (simp_all add: dropWhile_shorter)

declare first_percent.simps [simp del]

text \<open>\<open>QString::toInt\<close> on digits: 0 if the value does not fit in an int.\<close>

definition digits_value :: "string \<Rightarrow> int" where
  "digits_value ds = int (foldl (\<lambda>n c. n * 10 + digit_value c) 0 ds)"

definition digits_toInt :: "string \<Rightarrow> int" where
  "digits_toInt ds = (if digits_value ds \<le> 2147483647 then digits_value ds else 0)"

definition init_volume :: "bool \<Rightarrow> volume \<times> vc_out list" where
  "init_volume pactl_found =
     (let v = \<lparr>vc_available = pactl_found, vc_volume = 0, vc_muted = False\<rparr> in
      (v, AvailableChanged # (if vc_available v then [QueryState] else [])))"

definition readState :: "volume \<Rightarrow> vc_out list" where
  "readState v = (if \<not> vc_available v then [] else [QueryState])"

definition muteReply :: "(string \<Rightarrow> string \<Rightarrow> bool) \<Rightarrow> string \<Rightarrow> volume \<Rightarrow> volume \<times> vc_out list" where
  "muteReply containsCI out v =
     (let m = containsCI out ''Mute: yes'' in
      if m \<noteq> vc_muted v then (v\<lparr>vc_muted := m\<rparr>, [MutedChanged]) else (v, []))"

definition volumeReply :: "string \<Rightarrow> volume \<Rightarrow> volume \<times> vc_out list" where
  "volumeReply out v =
     (case first_percent out of
        None \<Rightarrow> (v, [])
      | Some ds \<Rightarrow>
          (let n = digits_toInt ds in
           if n \<noteq> vc_volume v then (v\<lparr>vc_volume := n\<rparr>, [VolumeChanged]) else (v, [])))"

definition qBound :: "int \<Rightarrow> int \<Rightarrow> int \<Rightarrow> int" where
  "qBound lo x hi = max lo (min hi x)"

definition setVolume :: "(int \<Rightarrow> string) \<Rightarrow> int \<Rightarrow> volume \<Rightarrow> volume \<times> vc_out list" where
  "setVolume num percent v =
     (if \<not> vc_available v then (v, [])
      else
        let p = qBound 0 percent 100 in
        if p = vc_volume v then (v, [])
        else (v\<lparr>vc_volume := p\<rparr>,
              [Spawn [''set-sink-volume'', ''@DEFAULT_SINK@'', num p @ ''%''], VolumeChanged]))"

definition toggleMuted :: "volume \<Rightarrow> volume \<times> vc_out list" where
  "toggleMuted v =
     (if \<not> vc_available v then (v, [])
      else (v\<lparr>vc_muted := \<not> vc_muted v\<rparr>,
            [Spawn [''set-sink-mute'', ''@DEFAULT_SINK@'', if vc_muted v then ''0'' else ''1''], MutedChanged]))"

definition vc_refresh :: "volume \<Rightarrow> vc_out list" where
  "vc_refresh v = readState v"

lemma first_percent_skip:
  assumes "CHR ''%'' \<notin> set pre" and "pre = [] \<or> \<not> isDigit (last pre)"
  shows "first_percent (pre @ s) = first_percent s"
  using assms
proof (induction "length pre" arbitrary: pre rule: less_induct)
  case less
  show ?case
  proof (cases pre)
    case Nil
    then show ?thesis by simp
  next
    case (Cons c cs)
    show ?thesis
    proof (cases "isDigit c")
      case False
      moreover have "first_percent (cs @ s) = first_percent s"
        using less.hyps [of cs] less.prems Cons by (auto split: if_splits)
      ultimately show ?thesis using Cons by (subst first_percent.simps) simp
    next
      case True
      let ?ds = "takeWhile isDigit pre" and ?rest = "dropWhile isDigit pre"
      have rest: "?rest \<noteq> []"
        using less.prems(2) Cons True by (metis last_in_set dropWhile_eq_Nil_conv list.distinct(1))
      have "takeWhile isDigit (pre @ s) = ?ds" and "dropWhile isDigit (pre @ s) = ?rest @ s"
        using rest by (auto simp: takeWhile_append dropWhile_append)
      moreover have "hd ?rest \<noteq> CHR ''%''"
        using less.prems(1) rest by (metis hd_in_set set_dropWhileD)
      moreover have "first_percent (?rest @ s) = first_percent s"
      proof (rule less.hyps)
        show "length ?rest < length pre" using Cons True by (intro dropWhile_shorter) simp_all
        show "CHR ''%'' \<notin> set ?rest" using less.prems(1) by (meson set_dropWhileD)
        have "last ?rest = last pre"
          using rest by (metis last_appendR takeWhile_dropWhile_id)
        then show "?rest = [] \<or> \<not> isDigit (last ?rest)" using less.prems(2) Cons by simp
      qed
      ultimately show ?thesis using Cons True rest by (subst first_percent.simps) (simp add: Let_def)
    qed
  qed
qed

lemma first_percent_hit:
  assumes "ds \<noteq> []" and "\<forall>c \<in> set ds. isDigit c"
  shows "first_percent (ds @ CHR ''%'' # post) = Some ds"
proof -
  have "\<not> isDigit CHR ''%''" by (simp add: isDigit_def)
  then have "takeWhile isDigit (ds @ CHR ''%'' # post) = ds"
    and "dropWhile isDigit (ds @ CHR ''%'' # post) = CHR ''%'' # post"
    using assms(2) by (auto simp: takeWhile_append2 dropWhile_append2)
  moreover have "isDigit (hd (ds @ CHR ''%'' # post))" using assms by (cases ds) simp_all
  ultimately show ?thesis by (subst first_percent.simps) (simp add: Let_def)
qed

text \<open>Decimal printing, the inverse of reading digits.\<close>

fun dec_digits :: "nat \<Rightarrow> string" where
  "dec_digits n = (if n < 10 then [char_of (n + 48)] else dec_digits (n div 10) @ [char_of (n mod 10 + 48)])"

declare dec_digits.simps [simp del]

lemma digit_char: "k < 10 \<Longrightarrow> isDigit (char_of (k + 48)) \<and> digit_value (char_of (k + 48)) = k"
  by (simp add: isDigit_def digit_value_def of_char_of)

lemma dec_digits_props:
  "dec_digits n \<noteq> [] \<and> (\<forall>c \<in> set (dec_digits n). isDigit c) \<and> digits_value (dec_digits n) = int n"
proof (induction n rule: dec_digits.induct)
  case (1 n)
  show ?case
  proof (cases "n < 10")
    case True
    then show ?thesis
      using digit_char [OF True] by (subst (1 2 3) dec_digits.simps) (simp add: digits_value_def)
  next
    case False
    with 1 digit_char [of "n mod 10"] show ?thesis
      by (subst (1 2 3) dec_digits.simps) (auto simp: digits_value_def)
  qed
qed

text \<open>
  The volume shown is the volume set. Setting any volume leaves a value from 0 to 100 and
  starts a command exactly when it differs from the one shown; reading the state back from
  the output of \<open>pactl\<close>, in which the percentage is the first number that a percent sign
  follows, gives the volume that was set, whatever surrounds it, and signals no change.
\<close>

theorem volume_roundtrip:
  assumes "vc_available v" and "num = (\<lambda>i. dec_digits (nat i))"
    and "CHR ''%'' \<notin> set pre" and "pre = [] \<or> \<not> isDigit (last pre)"
  shows "let v1 = fst (setVolume num percent v) in
    vc_volume v1 = qBound 0 percent 100 \<and> 0 \<le> vc_volume v1 \<and> vc_volume v1 \<le> 100 \<and>
    (snd (setVolume num percent v) = [] \<longleftrightarrow> vc_volume v = qBound 0 percent 100) \<and>
    volumeReply (pre @ num (vc_volume v1) @ ''%'' @ post) v1 = (v1, [])"
proof -
  let ?v1 = "fst (setVolume num percent v)"
  have vol: "vc_volume ?v1 = qBound 0 percent 100"
    using assms(1) by (auto simp: setVolume_def Let_def)
  have b: "0 \<le> qBound 0 percent 100 \<and> qBound 0 percent 100 \<le> 100" by (auto simp: qBound_def)
  have props: "num (vc_volume ?v1) \<noteq> [] \<and> (\<forall>c \<in> set (num (vc_volume ?v1)). isDigit c) \<and>
      digits_value (num (vc_volume ?v1)) = vc_volume ?v1"
    using dec_digits_props [of "nat (vc_volume ?v1)"] vol b assms(2) by simp
  have "first_percent (pre @ num (vc_volume ?v1) @ ''%'' @ post) = Some (num (vc_volume ?v1))"
    using first_percent_skip [OF assms(3,4)] first_percent_hit props by simp
  moreover have "digits_toInt (num (vc_volume ?v1)) = vc_volume ?v1"
    using props vol b by (simp add: digits_toInt_def)
  ultimately have "volumeReply (pre @ num (vc_volume ?v1) @ ''%'' @ post) ?v1 = (?v1, [])"
    by (simp add: volumeReply_def)
  moreover have "snd (setVolume num percent v) = [] \<longleftrightarrow> vc_volume v = qBound 0 percent 100"
    using assms(1) by (auto simp: setVolume_def Let_def)
  ultimately show ?thesis using vol b by (simp add: Let_def)
qed

theorem volume_roundtrip_witness:
  "volumeReply (''Volume: front-left: 65536 / '' @ dec_digits 100 @ ''%'' @ '' / 0.00 dB'')
     \<lparr>vc_available = True, vc_volume = 100, vc_muted = False\<rparr> =
   (\<lparr>vc_available = True, vc_volume = 100, vc_muted = False\<rparr>, [])"
proof -
  let ?v = "\<lparr>vc_available = True, vc_volume = 40, vc_muted = False\<rparr>"
  have "CHR ''%'' \<notin> set ''Volume: front-left: 65536 / ''"
    and "\<not> isDigit (last ''Volume: front-left: 65536 / '')" by (simp_all add: isDigit_def)
  moreover have "fst (setVolume (\<lambda>i. dec_digits (nat i)) 250 ?v) = \<lparr>vc_available = True, vc_volume = 100, vc_muted = False\<rparr>"
    by (simp add: setVolume_def qBound_def)
  ultimately show ?thesis
    using volume_roundtrip [of ?v "\<lambda>i. dec_digits (nat i)" "''Volume: front-left: 65536 / ''" 250 "'' / 0.00 dB''"]
    by (simp add: Let_def)
qed


subsection \<open>Battery\<close>

record power =
  ps_batteryDir :: path
  ps_present :: bool
  ps_percent :: int
  ps_status :: string

datatype ps_signal = PresentChanged | PercentChanged | StatusChanged

definition init_power :: power where
  "init_power = \<lparr>ps_batteryDir = [], ps_present = False, ps_percent = 0, ps_status = ''Unknown''\<rparr>"

definition charging :: "power \<Rightarrow> bool" where
  "charging p \<longleftrightarrow> ps_status p = ''Charging''"

record sysfs =
  sy_exists :: bool                            \<comment> \<open>/sys/class/power_supply\<close>
  sy_entries :: "path list"                    \<comment> \<open>its directories, absolute\<close>
  sy_read :: "path \<Rightarrow> string option"           \<comment> \<open>contents, None when it cannot be opened\<close>
  sy_isSpace :: "char \<Rightarrow> bool"
  sy_toInt :: "string \<Rightarrow> int option"           \<comment> \<open>QString::toInt(&ok)\<close>

definition is_battery :: "sysfs \<Rightarrow> path \<Rightarrow> bool" where
  "is_battery F d = (case sy_read F (d @ ''/type'') of None \<Rightarrow> False | Some t \<Rightarrow> trim (sy_isSpace F) t = ''Battery'')"

definition set_present :: "bool \<Rightarrow> power \<Rightarrow> power \<times> ps_signal list" where
  "set_present b p = (if ps_present p \<noteq> b then (p\<lparr>ps_present := b\<rparr>, [PresentChanged]) else (p, []))"

definition read_capacity :: "sysfs \<Rightarrow> power \<Rightarrow> power \<times> ps_signal list" where
  "read_capacity F p =
     (case sy_read F (ps_batteryDir p @ ''/capacity'') of
        None \<Rightarrow> (p, [])
      | Some t \<Rightarrow>
          (case sy_toInt F (trim (sy_isSpace F) t) of
             None \<Rightarrow> (p, [])
           | Some n \<Rightarrow> if n \<noteq> ps_percent p then (p\<lparr>ps_percent := n\<rparr>, [PercentChanged]) else (p, [])))"

definition read_status :: "sysfs \<Rightarrow> power \<Rightarrow> power \<times> ps_signal list" where
  "read_status F p =
     (case sy_read F (ps_batteryDir p @ ''/status'') of
        None \<Rightarrow> (p, [])
      | Some t \<Rightarrow>
          (let s = trim (sy_isSpace F) t in
           if s \<noteq> ps_status p then (p\<lparr>ps_status := s\<rparr>, [StatusChanged]) else (p, [])))"

definition scan_power :: "sysfs \<Rightarrow> power \<Rightarrow> power \<times> ps_signal list" where
  "scan_power F p =
     (if \<not> sy_exists F then set_present False p
      else
        (case find_idx (is_battery F) (sy_entries F) of
           None \<Rightarrow> set_present False p
         | Some i \<Rightarrow>
             (case read_capacity F (p\<lparr>ps_batteryDir := sy_entries F ! i\<rparr>) of (p1, o1) \<Rightarrow>
              case read_status F p1 of (p2, o2) \<Rightarrow>
              case set_present True p2 of (p3, o3) \<Rightarrow> (p3, o1 @ o2 @ o3))))"

fun power_runs :: "sysfs list \<Rightarrow> power \<Rightarrow> power" where
  "power_runs [] p = p"
| "power_runs (F # Fs) p = power_runs Fs (fst (scan_power F p))"

text \<open>
  The battery shown is real. After any number of scans, one more scan shows a battery
  exactly if it found a power supply of type Battery; then the charge and the state are those of
  the first such supply, except for a value that could not be read or parsed, which stays as
  it was before that scan (and both stay when there is no battery); and each property's signal is emitted exactly when it changes.
\<close>

theorem battery_truthful:
  "let p = power_runs Fs init_power; p' = fst (scan_power F p); sig = set (snd (scan_power F p));
       found = (if sy_exists F then find_idx (is_battery F) (sy_entries F) else None);
       text = (\<lambda>i n. map_option (trim (sy_isSpace F)) (sy_read F ((sy_entries F ! i) @ n))) in
   (ps_present p' \<longleftrightarrow> found \<noteq> None) \<and>
   (case found of
      None \<Rightarrow> ps_percent p' = ps_percent p \<and> ps_status p' = ps_status p
    | Some i \<Rightarrow>
        ps_percent p' = (case Option.bind (text i ''/capacity'') (sy_toInt F) of None \<Rightarrow> ps_percent p | Some n \<Rightarrow> n) \<and>
        ps_status p' = (case text i ''/status'' of None \<Rightarrow> ps_status p | Some s \<Rightarrow> s)) \<and>
   (PresentChanged \<in> sig \<longleftrightarrow> ps_present p' \<noteq> ps_present p) \<and>
   (PercentChanged \<in> sig \<longleftrightarrow> ps_percent p' \<noteq> ps_percent p) \<and>
   (StatusChanged \<in> sig \<longleftrightarrow> ps_status p' \<noteq> ps_status p)"
  by (auto simp: Let_def scan_power_def set_present_def read_capacity_def read_status_def
      split: option.splits prod.splits if_splits)


subsection \<open>Trash\<close>

text \<open>The trash directory on disk is a state of type \<open>'fs\<close> with the operations used: \<open>rm -rf\<close>
  gives its exit code. A QFileSystemWatcher stops watching a directory that is removed.\<close>

record 'fs trash_fs =
  tf_exists :: "'fs \<Rightarrow> path \<Rightarrow> bool"
  tf_entries :: "'fs \<Rightarrow> path \<Rightarrow> nat"
  tf_mkpath :: "'fs \<Rightarrow> path \<Rightarrow> 'fs"
  tf_rm :: "'fs \<Rightarrow> path \<Rightarrow> int \<times> 'fs"

record trash =
  tr_trashPath :: path
  tr_infoPath :: path
  tr_watches :: "path list"
  tr_itemCount :: int
  tr_reloading :: bool

datatype tr_signal = ItemCountChanged | IsEmptyChanged

definition isEmpty :: "trash \<Rightarrow> bool" where
  "isEmpty t \<longleftrightarrow> tr_itemCount t = 0"

definition tr_rescan :: "'fs trash_fs \<Rightarrow> 'fs \<Rightarrow> trash \<Rightarrow> trash \<times> tr_signal list" where
  "tr_rescan F s t =
     (let count = (if tf_exists F s (tr_trashPath t) then int (tf_entries F s (tr_trashPath t)) else 0) in
      if count \<noteq> tr_itemCount t
      then (t\<lparr>tr_itemCount := count, tr_reloading := False\<rparr>, [ItemCountChanged, IsEmptyChanged])
      else (t\<lparr>tr_reloading := False\<rparr>, []))"

definition init_trash :: "'fs trash_fs \<Rightarrow> path \<Rightarrow> 'fs \<Rightarrow> (trash \<times> tr_signal list) \<times> 'fs" where
  "init_trash F dataHome s =
     (let tp = dataHome @ ''/Trash/files''; ip = dataHome @ ''/Trash/info'';
          s1 = tf_mkpath F (tf_mkpath F s tp) ip;
          ws = (if tf_exists F s1 tp then [tp] else []) @ (if tf_exists F s1 ip then [ip] else [])
      in (tr_rescan F s1 \<lparr>tr_trashPath = tp, tr_infoPath = ip, tr_watches = ws, tr_itemCount = 0, tr_reloading = False\<rparr>, s1))"

definition onTrashChanged :: "'fs trash_fs \<Rightarrow> 'fs \<Rightarrow> trash \<Rightarrow> trash \<times> tr_signal list" where
  "onTrashChanged F s t = (if tr_reloading t then (t, []) else tr_rescan F s t)"

definition openTrash :: "(string \<Rightarrow> string list \<Rightarrow> bool) \<Rightarrow> trash \<Rightarrow> (string \<times> string list) list" where
  "openTrash start t =
     (if start ''gio'' [''open'', ''trash://''] then [(''gio'', [''open'', ''trash://''])]
      else [(''gio'', [''open'', ''trash://'']), (''xdg-open'', [tr_trashPath t])])"

text \<open>One of the two halves of emptyTrash: remove a directory if it exists, make it again, and
  lose the watch on it if it was removed.\<close>

definition rm_dir :: "'fs trash_fs \<Rightarrow> path \<Rightarrow> bool \<Rightarrow> 'fs \<Rightarrow> trash \<Rightarrow> bool \<times> 'fs \<times> trash" where
  "rm_dir F p ok s t =
     (if \<not> tf_exists F s p then (ok, s, t)
      else if \<not> ok then (False, tf_mkpath F s p, t)
      else
        (case tf_rm F s p of (code, s1) \<Rightarrow>
           (code = 0, tf_mkpath F s1 p,
            if tf_exists F s1 p then t else t\<lparr>tr_watches := removeAll p (tr_watches t)\<rparr>)))"

definition emptyTrash :: "'fs trash_fs \<Rightarrow> 'fs \<Rightarrow> trash \<Rightarrow> bool \<times> 'fs \<times> trash \<times> tr_signal list" where
  "emptyTrash F s t =
     (case rm_dir F (tr_trashPath t) True s t of (ok1, s1, t1) \<Rightarrow>
      case rm_dir F (tr_infoPath t) ok1 s1 t1 of (ok2, s2, t2) \<Rightarrow>
      case tr_rescan F s2 t2 of (t3, o3) \<Rightarrow> (ok2, s2, t3, o3))"

lemma rm_dir_paths:
  "rm_dir F p ok s t = (ok', s', t') \<Longrightarrow>
    tr_trashPath t' = tr_trashPath t \<and> tr_infoPath t' = tr_infoPath t \<and> tr_itemCount t' = tr_itemCount t"
  by (auto simp: rm_dir_def split: if_splits prod.splits)

text \<open>The count and the icon are those of the directory after every rescan, and the two
  signals go out exactly when the count changes.\<close>

lemma trash_count:
  "tr_itemCount (fst (tr_rescan F s t)) =
     (if tf_exists F s (tr_trashPath t) then int (tf_entries F s (tr_trashPath t)) else 0) \<and>
   (isEmpty (fst (tr_rescan F s t)) \<longleftrightarrow> \<not> tf_exists F s (tr_trashPath t) \<or> tf_entries F s (tr_trashPath t) = 0) \<and>
   (snd (tr_rescan F s t) = [] \<longleftrightarrow> tr_itemCount (fst (tr_rescan F s t)) = tr_itemCount t) \<and>
   \<not> tr_reloading (fst (tr_rescan F s t))"
  by (auto simp: tr_rescan_def isEmpty_def Let_def)

lemma emptyTrash_count:
  assumes "emptyTrash F s t = (ok, s', t', os)"
  shows "tr_itemCount t' = (if tf_exists F s' (tr_trashPath t) then int (tf_entries F s' (tr_trashPath t)) else 0)"
proof -
  obtain ok1 s1 t1 where r1: "rm_dir F (tr_trashPath t) True s t = (ok1, s1, t1)" by (metis prod_cases3)
  obtain ok2 s2 t2 where r2: "rm_dir F (tr_infoPath t) ok1 s1 t1 = (ok2, s2, t2)" by (metis prod_cases3)
  from assms r1 r2 have "tr_rescan F s2 t2 = (t', os)" and "s' = s2"
    by (auto simp: emptyTrash_def split: prod.splits)
  with trash_count [of F s2 t2] rm_dir_paths [OF r1] rm_dir_paths [OF r2] show ?thesis by simp
qed

text \<open>Emptying the trash ends the watch: the directories are removed and made again, and the
  icon does not follow later changes.\<close>

lemma empty_trash_ends_watch:
  assumes "tf_exists F s (tr_trashPath t)" and "tf_rm F s (tr_trashPath t) = (0, s1)"
    and "\<not> tf_exists F s1 (tr_trashPath t)"
    and "emptyTrash F s t = (ok, s', t', os)"
  shows "tr_trashPath t \<notin> set (tr_watches t')"
proof -
  let ?t1 = "t\<lparr>tr_watches := removeAll (tr_trashPath t) (tr_watches t)\<rparr>"
  have r1: "rm_dir F (tr_trashPath t) True s t = (True, tf_mkpath F s1 (tr_trashPath t), ?t1)"
    using assms(1-3) by (simp add: rm_dir_def)
  obtain ok2 s2 t2 where r2: "rm_dir F (tr_infoPath t) True (tf_mkpath F s1 (tr_trashPath t)) ?t1 = (ok2, s2, t2)"
    by (metis prod_cases3)
  then have "set (tr_watches t2) \<subseteq> set (tr_watches ?t1)"
    by (auto simp: rm_dir_def split: if_splits prod.splits)
  moreover have "tr_watches t' = tr_watches t2"
    using assms(4) r1 r2 by (auto simp: emptyTrash_def tr_rescan_def Let_def split: if_splits prod.splits)
  ultimately show ?thesis by auto
qed

end
