(* ===== verification/DesktopFile.thy ===== *)
theory DesktopFile
  imports Prelude
begin

text \<open>
  What desktop/shell/src/AppModel.cpp and desktop/shell/src/DesktopIconModel.cpp share: the
  line-by-line reader of the section [Desktop Entry] of a .desktop file and the removal of
  field codes from a command.

  \<open>sp\<close> is \<open>QChar::isSpace\<close>. A field that is assigned several times has its last value, one
  that is not assigned is the empty string.
\<close>

subsection \<open>The lines of a file\<close>

text \<open>\<open>QTextStream::readLine\<close> until \<open>atEnd\<close>: lines end with a line feed, a carriage return
  before it belongs to the line end.\<close>

definition chomp :: "string \<Rightarrow> string" where
  "chomp l = (if l \<noteq> [] \<and> last l = CHR 0x0D then butlast l else l)"

definition text_lines :: "string \<Rightarrow> string list" where
  "text_lines s =
     (let ls = split_on CHR 0x0A s in map chomp (if last ls = [] then butlast ls else ls))"

lemma chomp_same: "CHR 0x0D \<notin> set l \<Longrightarrow> chomp l = l"
  by (auto simp: chomp_def dest: last_in_set)

lemma text_lines_concat:
  assumes "\<forall>l \<in> set ls. CHR 0x0A \<notin> set l \<and> CHR 0x0D \<notin> set l"
  shows "text_lines (concat (map (\<lambda>l. l @ [CHR 0x0A]) ls)) = ls"
proof -
  have "split_on CHR 0x0A (concat (map (\<lambda>l. l @ [CHR 0x0A]) ls)) = ls @ [[]]"
    using assms by (induction ls) (simp_all add: split_on_append)
  then show ?thesis using assms by (simp add: text_lines_def chomp_same map_idI)
qed


subsection \<open>The section [Desktop Entry]\<close>

fun desktop_pairs :: "(char \<Rightarrow> bool) \<Rightarrow> bool \<Rightarrow> string list \<Rightarrow> (string \<times> string) list" where
  "desktop_pairs sp inDesktopEntry [] = []"
| "desktop_pairs sp inDesktopEntry (line # ls) =
     (if starts_with line ''['' then
        (if inDesktopEntry then []
         else if starts_with line ''[Desktop Entry]'' then desktop_pairs sp True ls
         else desktop_pairs sp False ls)
      else if \<not> inDesktopEntry then desktop_pairs sp inDesktopEntry ls
      else if starts_with (trim sp line) ''#'' then desktop_pairs sp inDesktopEntry ls
      else
        (case index_of ''='' line of
           None \<Rightarrow> desktop_pairs sp inDesktopEntry ls
         | Some eqPos \<Rightarrow>
             (trim sp (take eqPos line), trim sp (drop (eqPos + 1) line)) # desktop_pairs sp inDesktopEntry ls))"

definition field :: "string \<Rightarrow> (string \<times> string) list \<Rightarrow> string" where
  "field k kvs = (case map_of (rev kvs) k of None \<Rightarrow> [] | Some v \<Rightarrow> v)"

lemma field_simps [simp]:
  "field k [] = []"
  "field k (kvs @ [(k, v)]) = v"
  by (simp_all add: field_def)

lemma desktop_pairs_other_section:
  "list_all (\<lambda>l. \<not> starts_with l ''['') ls \<Longrightarrow> desktop_pairs sp False (ls @ rest) = desktop_pairs sp False rest"
  by (induction ls) auto

lemma desktop_pairs_next_section:
  "starts_with s ''['' \<Longrightarrow> desktop_pairs sp True (ls @ s # rest) = desktop_pairs sp True ls"
  by (induction ls) (auto split: option.splits)


subsection \<open>Field codes\<close>

text \<open>The regular expression \<open>(?:%[uUfFdDnNvmick] ?)|(?:%%)\<close>, replaced by nothing.\<close>

definition field_codes :: string where
  "field_codes = ''uUfFdDnNvmick''"

definition drop_space :: "string \<Rightarrow> string" where
  "drop_space s = (if s \<noteq> [] \<and> hd s = CHR '' '' then tl s else s)"

lemma drop_space_length: "length (drop_space s) \<le> length s"
  by (simp add: drop_space_def)

function remove_codes :: "string \<Rightarrow> string" where
  "remove_codes [] = []"
| "remove_codes [c] = [c]"
| "remove_codes (c # d # s) =
     (if c = CHR ''%'' \<and> d \<in> set field_codes then remove_codes (drop_space s)
      else if c = CHR ''%'' \<and> d = CHR ''%'' then remove_codes s
      else c # remove_codes (d # s))"
  by pat_completeness auto

termination
  by (relation "measure length") (auto simp: less_Suc_eq_le le_SucI drop_space_length)

definition stripExecFieldCodes :: "(char \<Rightarrow> bool) \<Rightarrow> string \<Rightarrow> string" where
  "stripExecFieldCodes sp raw = trim sp (remove_codes raw)"

fun code_free :: "string \<Rightarrow> bool" where
  "code_free [] = True"
| "code_free [c] = True"
| "code_free (c # d # s) = (\<not> (c = CHR ''%'' \<and> (d \<in> set field_codes \<or> d = CHR ''%'')) \<and> code_free (d # s))"

lemma remove_codes_other: "c \<noteq> CHR ''%'' \<Longrightarrow> remove_codes (c # s) = c # remove_codes s"
  by (cases s) simp_all

lemma code_free_other: "c \<noteq> CHR ''%'' \<Longrightarrow> code_free (c # s) = code_free s"
  by (cases s) simp_all

lemma percent_no_code: "CHR ''%'' \<notin> set field_codes"
  by (simp add: field_codes_def)

lemma remove_codes_free: "code_free (remove_codes s)"
proof (induction s rule: remove_codes.induct)
  case (3 c d s)
  show ?case
  proof (cases "c = CHR ''%''")
    case False
    with 3 show ?thesis by (simp add: code_free_other)
  next
    case True
    show ?thesis
    proof (cases "d \<in> set field_codes \<or> d = CHR ''%''")
      case True
      with 3 \<open>c = CHR ''%''\<close> show ?thesis by auto
    next
      case False
      with 3 \<open>c = CHR ''%''\<close> have "code_free (remove_codes (d # s))" by simp
      with False \<open>c = CHR ''%''\<close> show ?thesis by (simp add: remove_codes_other)
    qed
  qed
qed simp_all

lemma remove_codes_same: "code_free s \<Longrightarrow> remove_codes s = s"
  by (induction s rule: remove_codes.induct) auto

lemma code_free_append: "code_free (xs @ ys) \<Longrightarrow> code_free xs \<and> code_free ys"
proof (induction xs rule: code_free.induct)
  case (2 c)
  then show ?case by (cases ys) simp_all
qed simp_all

lemma trim_infix: "\<exists>a b. s = a @ trim sp s @ b"
proof -
  have "s = takeWhile sp s @ dropWhile sp s" by simp
  moreover have "dropWhile sp s = trim sp s @ rev (takeWhile sp (rev (dropWhile sp s)))"
    unfolding trim_def by (metis rev_append rev_rev_ident takeWhile_dropWhile_id)
  ultimately show ?thesis by metis
qed

lemma code_free_trim: "code_free s \<Longrightarrow> code_free (trim sp s)"
  using trim_infix [of s sp] code_free_append by metis

text \<open>
  No field code reaches a command line. Whatever stands in the Exec key, the command
  that is kept has no field code and no doubled percent sign left, not even one that the
  removal of another brings together; it has no space at its ends, cleaning it again changes
  nothing, and a command without codes is kept as it is.
\<close>

theorem field_codes_removed:
  "code_free (stripExecFieldCodes sp raw) \<and>
   trim sp (stripExecFieldCodes sp raw) = stripExecFieldCodes sp raw \<and>
   stripExecFieldCodes sp (stripExecFieldCodes sp raw) = stripExecFieldCodes sp raw \<and>
   (if code_free raw then stripExecFieldCodes sp raw = trim sp raw else True)"
proof -
  have free: "code_free (stripExecFieldCodes sp raw)"
    unfolding stripExecFieldCodes_def by (rule code_free_trim [OF remove_codes_free])
  moreover have "stripExecFieldCodes sp (stripExecFieldCodes sp raw) = trim sp (stripExecFieldCodes sp raw)"
    unfolding stripExecFieldCodes_def [of sp "stripExecFieldCodes sp raw"] by (simp add: remove_codes_same free)
  ultimately show ?thesis by (simp add: stripExecFieldCodes_def remove_codes_same)
qed

text \<open>A doubled percent sign, which stands for one, is removed altogether.\<close>

lemma literal_percent_lost:
  "stripExecFieldCodes (\<lambda>c. c = CHR '' '') ''date +%%s %f'' = ''date +s''"
  by code_simp

end
