(* ===== verification/Launcher.thy ===== *)
theory Launcher
  imports DesktopFile StdSort RowModel
begin

text \<open>
  The application launcher: desktop/shell/src/AppModel.{h,cpp} (the applications found in the
  XDG directories), FilteredAppModel.{h,cpp} (the search) and ProcessLauncher.{h,cpp}.

  \<open>xdg\<close> holds what Qt and the machine answer: the application directories that exist with
  their readable .desktop files, the text of a file, collation, \<open>splitCommand\<close>,
  \<open>findExecutable\<close> and \<open>std::sort\<close>.
\<close>

record app_entry =
  ap_appId :: string
  ap_name :: string
  ap_genericName :: string
  ap_iconName :: string
  ap_exec :: string
  ap_categories :: "string list"

record xdg =
  xd_isSpace :: "char \<Rightarrow> bool"
  xd_dirs :: "path list"                        \<comment> \<open>standardLocations(ApplicationsLocation)\<close>
  xd_userDir :: path                            \<comment> \<open>~/.local/share/applications\<close>
  xd_desktopFiles :: "path \<Rightarrow> path list option" \<comment> \<open>readable *.desktop files; None when the directory is missing\<close>
  xd_lines :: "path \<Rightarrow> string list option"      \<comment> \<open>None when the file cannot be opened\<close>
  xd_completeBase :: "path \<Rightarrow> string"
  xd_compareCI :: "string \<Rightarrow> string \<Rightarrow> int"
  xd_splitCommand :: "string \<Rightarrow> string list"
  xd_findExecutable :: "string \<Rightarrow> path"
  xd_isAbsolute :: "path \<Rightarrow> bool"
  xd_isExecutable :: "path \<Rightarrow> bool"
  xd_toLower :: "string \<Rightarrow> string"
  xd_sort :: "(app_entry \<Rightarrow> app_entry \<Rightarrow> bool) \<Rightarrow> app_entry list \<Rightarrow> app_entry list"

definition parseDesktopFile :: "xdg \<Rightarrow> path \<Rightarrow> app_entry option" where
  "parseDesktopFile X p =
     (case xd_lines X p of
        None \<Rightarrow> None
      | Some ls \<Rightarrow>
          (let kvs = desktop_pairs (xd_isSpace X) False ls;
               f = (\<lambda>k. field k kvs);
               onlyDesktops = split_skip_empty CHR '';'' (f ''OnlyShowIn'');
               exec = stripExecFieldCodes (xd_isSpace X) (f ''Exec'')
           in
           if f ''Type'' \<noteq> ''Application'' then None
           else if xd_compareCI X (f ''NoDisplay'') ''true'' = 0 \<or> xd_compareCI X (f ''Hidden'') ''true'' = 0 then None
           else if onlyDesktops \<noteq> [] \<and> ''NiraOS'' \<notin> set onlyDesktops then None
           else if ''NiraOS'' \<in> set (split_skip_empty CHR '';'' (f ''NotShowIn'')) then None
           else if f ''TryExec'' \<noteq> [] \<and>
             (xd_splitCommand X (f ''TryExec'') = [] \<or>
              xd_findExecutable X (hd (xd_splitCommand X (f ''TryExec''))) = []) then None
           else if exec = [] then None
           else Some
             \<lparr>ap_appId = xd_completeBase X p,
              ap_name = (if f ''Name'' = [] then xd_completeBase X p else f ''Name''),
              ap_genericName = f ''GenericName'', ap_iconName = f ''Icon'',
              ap_exec = (if xd_compareCI X (f ''Terminal'') ''true'' = 0 then ''qterminal -e '' @ exec else exec),
              ap_categories = split_skip_empty CHR '';'' (f ''Categories'')\<rparr>))"

text \<open>The files of one directory: each one that was not seen is parsed.\<close>

fun scan_files :: "xdg \<Rightarrow> path list \<Rightarrow> path list \<times> app_entry list \<Rightarrow> path list \<times> app_entry list" where
  "scan_files X [] (seen, apps) = (seen, apps)"
| "scan_files X (p # ps) (seen, apps) =
     (if p \<in> set seen then scan_files X ps (seen, apps)
      else scan_files X ps
        (p # seen, apps @ (case parseDesktopFile X p of None \<Rightarrow> [] | Some a \<Rightarrow> [a])))"

definition scan_dir :: "xdg \<Rightarrow> path \<Rightarrow> path list \<times> app_entry list \<Rightarrow> path list \<times> app_entry list" where
  "scan_dir X d acc = (case xd_desktopFiles X d of None \<Rightarrow> acc | Some ps \<Rightarrow> scan_files X ps acc)"

definition scanDirectories :: "xdg \<Rightarrow> app_entry list" where
  "scanDirectories X = snd (scan_dir X (xd_userDir X) (fold (scan_dir X) (xd_dirs X) ([], [])))"

definition name_less :: "xdg \<Rightarrow> app_entry \<Rightarrow> app_entry \<Rightarrow> bool" where
  "name_less X a b \<longleftrightarrow> xd_compareCI X (ap_name a) (ap_name b) < 0"

definition init_apps :: "xdg \<Rightarrow> app_entry list" where
  "init_apps X = xd_sort X (name_less X) (scanDirectories X)"


subsection \<open>The model interface\<close>

datatype ap_role = ApNameRole | ApIconNameRole | ApExecRole | ApGenericNameRole | ApAppIdRole | ApOtherRole

definition ap_rowCount :: "app_entry list \<Rightarrow> nat option \<Rightarrow> nat" where
  "ap_rowCount apps parent = (if parent \<noteq> None then 0 else length apps)"

fun ap_cell :: "app_entry \<Rightarrow> ap_role \<Rightarrow> variant" where
  "ap_cell a ApNameRole = VStr (ap_name a)"
| "ap_cell a ApIconNameRole = VStr (ap_iconName a)"
| "ap_cell a ApExecRole = VStr (ap_exec a)"
| "ap_cell a ApGenericNameRole = VStr (ap_genericName a)"
| "ap_cell a ApAppIdRole = VStr (ap_appId a)"
| "ap_cell a ApOtherRole = VInvalid"

definition ap_data :: "app_entry list \<Rightarrow> nat option \<Rightarrow> ap_role \<Rightarrow> variant" where
  "ap_data apps index role =
     (case index of
        None \<Rightarrow> VInvalid
      | Some row \<Rightarrow> if row \<ge> length apps then VInvalid else ap_cell (apps ! row) role)"

definition ap_roleNames :: "(ap_role \<times> string) list" where
  "ap_roleNames =
     [(ApNameRole, ''name''), (ApIconNameRole, ''iconName''), (ApExecRole, ''exec''),
      (ApGenericNameRole, ''genericName''), (ApAppIdRole, ''appId'')]"

definition execAt :: "app_entry list \<Rightarrow> int \<Rightarrow> string" where
  "execAt apps row = (if row < 0 \<or> row \<ge> int (length apps) then [] else ap_exec (apps ! nat row))"

interpretation app_items: item_model "\<lambda>apps. apps" ap_rowCount ap_data ap_cell ap_roleNames
  by unfold_locales (auto simp: ap_rowCount_def ap_data_def ap_roleNames_def)


subsection \<open>The search\<close>

definition filterAcceptsRow :: "xdg \<Rightarrow> string \<Rightarrow> app_entry \<Rightarrow> bool" where
  "filterAcceptsRow X flt a =
     (if trim (xd_isSpace X) flt = [] then True
      else
        let lower = xd_toLower X flt in
        str_contains (xd_toLower X (ap_name a)) lower \<or> str_contains (xd_toLower X (ap_genericName a)) lower
        \<or> str_contains (xd_toLower X (ap_appId a)) lower)"

text \<open>The rows of a QSortFilterProxyModel that does not sort: the accepted source rows in order.\<close>

definition proxy_rows :: "xdg \<Rightarrow> string \<Rightarrow> app_entry list \<Rightarrow> nat list" where
  "proxy_rows X flt apps = filter (\<lambda>i. filterAcceptsRow X flt (apps ! i)) [0..<length apps]"

definition proxy_execAt :: "xdg \<Rightarrow> string \<Rightarrow> app_entry list \<Rightarrow> int \<Rightarrow> string" where
  "proxy_execAt X flt apps proxyRow =
     (let rows = proxy_rows X flt apps in
      if proxyRow < 0 \<or> proxyRow \<ge> int (length rows) then []
      else execAt apps (int (rows ! nat proxyRow)))"

definition setFilter :: "string \<Rightarrow> string \<Rightarrow> string \<times> bool" where
  "setFilter f old = (if old = f then (old, False) else (f, True))"


subsection \<open>Starting a program\<close>

definition launch_command :: "xdg \<Rightarrow> string \<Rightarrow> (path \<times> string list) option" where
  "launch_command X command =
     (case xd_splitCommand X command of
        [] \<Rightarrow> None
      | prog # args \<Rightarrow>
          (let executable = (if xd_isAbsolute X prog then prog else xd_findExecutable X prog) in
           if executable = [] \<or> \<not> xd_isExecutable X executable then None
           else Some (executable, args)))"


subsection \<open>The catalogue\<close>

definition app_files :: "xdg \<Rightarrow> path list" where
  "app_files X =
     concat (map (\<lambda>d. case xd_desktopFiles X d of None \<Rightarrow> [] | Some ps \<Rightarrow> ps) (xd_dirs X @ [xd_userDir X]))"

definition scanned :: "xdg \<Rightarrow> path list \<Rightarrow> path list \<times> app_entry list \<Rightarrow> bool" where
  "scanned X ps acc \<longleftrightarrow> set (fst acc) = set ps \<and> distinct (fst acc) \<and>
     mset (snd acc) = mset (List.map_filter (parseDesktopFile X) (fst acc))"

lemma scan_files_scanned: "scanned X qs acc \<Longrightarrow> scanned X (qs @ ps) (scan_files X ps acc)"
proof (induction ps arbitrary: qs acc)
  case Nil
  then show ?case by (cases acc) simp
next
  case (Cons p ps)
  obtain seen apps where acc: "acc = (seen, apps)" by (cases acc)
  show ?case
  proof (cases "p \<in> set seen")
    case True
    with Cons.prems acc have "scanned X (qs @ [p]) (seen, apps)" by (auto simp: scanned_def)
    from Cons.IH [OF this] True acc show ?thesis by simp
  next
    case False
    with Cons.prems acc
    have "scanned X (qs @ [p]) (p # seen, apps @ (case parseDesktopFile X p of None \<Rightarrow> [] | Some a \<Rightarrow> [a]))"
      by (auto simp: scanned_def List.map_filter_simps split: option.splits)
    from Cons.IH [OF this] False acc show ?thesis by simp
  qed
qed

lemma scan_dir_scanned:
  "scanned X ps acc \<Longrightarrow>
    scanned X (ps @ (case xd_desktopFiles X d of None \<Rightarrow> [] | Some qs \<Rightarrow> qs)) (scan_dir X d acc)"
  using scan_files_scanned [of X ps acc] by (auto simp: scan_dir_def split: option.splits)

lemma scan_dirs_scanned:
  "scanned X ps acc \<Longrightarrow>
    scanned X (ps @ concat (map (\<lambda>d. case xd_desktopFiles X d of None \<Rightarrow> [] | Some qs \<Rightarrow> qs) ds))
      (fold (scan_dir X) ds acc)"
proof (induction ds arbitrary: ps acc)
  case Nil
  then show ?case by simp
next
  case (Cons d ds)
  from Cons.IH [OF scan_dir_scanned [OF Cons.prems]] show ?case by simp
qed

lemma map_filter_set_mset:
  "set xs = set ys \<Longrightarrow> distinct xs \<Longrightarrow> distinct ys \<Longrightarrow> mset (List.map_filter f xs) = mset (List.map_filter f ys)"
proof -
  assume "set xs = set ys" and "distinct xs" and "distinct ys"
  then have "mset xs = mset ys" by (simp add: set_eq_iff_mset_eq_distinct)
  then show ?thesis by (simp add: List.map_filter_def)
qed

lemma scanDirectories_mset:
  "mset (scanDirectories X) = mset (List.map_filter (parseDesktopFile X) (remdups (app_files X)))"
proof -
  have "scanned X [] ([], [])" by (simp add: scanned_def List.map_filter_def)
  from scan_dirs_scanned [OF this, of "xd_dirs X"] have
    "scanned X (app_files X) (scan_dir X (xd_userDir X) (fold (scan_dir X) (xd_dirs X) ([], [])))"
    using scan_dir_scanned by (fastforce simp: app_files_def)
  then show ?thesis
    unfolding scanDirectories_def scanned_def
    by (metis distinct_remdups map_filter_set_mset set_remdups)
qed

text \<open>
  C26. The launcher lists every application once, by name. The catalogue holds exactly the
  entries parsed from the .desktop files of the application directories, each file once
  however many directories list it, in the order of their names; every entry has a command.
  A search shows exactly the entries that match, in the same order, a blank search all of
  them, and the command started from a row of the search is that of the entry shown there.
\<close>

theorem catalogue:
  assumes "compare_ok (xd_compareCI X)" and "sort_ok (xd_sort X)"
  shows "mset (init_apps X) = mset (List.map_filter (parseDesktopFile X) (remdups (app_files X))) \<and>
    in_order (name_less X) (init_apps X) \<and> (\<forall>a \<in> set (init_apps X). ap_exec a \<noteq> []) \<and>
    map (\<lambda>i. init_apps X ! i) (proxy_rows X flt (init_apps X)) = filter (filterAcceptsRow X flt) (init_apps X) \<and>
    map (\<lambda>k. proxy_execAt X flt (init_apps X) (int k)) [0..<length (proxy_rows X flt (init_apps X))] =
      map ap_exec (filter (filterAcceptsRow X flt) (init_apps X)) \<and>
    (trim (xd_isSpace X) flt = [] \<longrightarrow> filter (filterAcceptsRow X flt) (init_apps X) = init_apps X)"
proof -
  have less: "strict_weak (name_less X)"
    using strict_weak_compare [OF compare_ok_by [OF assms(1), of ap_name]] by (simp add: name_less_def [abs_def])
  note sorted = sort_okD [OF assms(2) less, of "scanDirectories X"]
  have m: "mset (init_apps X) = mset (List.map_filter (parseDesktopFile X) (remdups (app_files X)))"
    using sorted(1) scanDirectories_mset [of X] by (simp add: init_apps_def)
  have "ap_exec a \<noteq> []" if "a \<in> set (init_apps X)" for a
  proof -
    from that m have "a \<in> set (List.map_filter (parseDesktopFile X) (remdups (app_files X)))"
      by (metis set_mset_mset)
    then obtain p where "parseDesktopFile X p = Some a" by (auto simp: List.map_filter_def)
    then show ?thesis by (auto simp: parseDesktopFile_def Let_def split: option.splits if_splits)
  qed
  moreover have rows: "map (\<lambda>i. as ! i) (proxy_rows X flt as) = filter (filterAcceptsRow X flt) as" for as
  proof -
    have "filter (filterAcceptsRow X flt) (map (\<lambda>i. as ! i) [0..<length as]) =
        map (\<lambda>i. as ! i) (filter (\<lambda>i. filterAcceptsRow X flt (as ! i)) [0..<length as])"
      by (simp add: filter_map comp_def)
    then show ?thesis by (simp add: proxy_rows_def map_nth)
  qed
  moreover have "map (\<lambda>k. proxy_execAt X flt as (int k)) [0..<length (proxy_rows X flt as)] =
      map ap_exec (filter (filterAcceptsRow X flt) as)" for as
  proof -
    have "proxy_execAt X flt as (int k) = ap_exec (as ! (proxy_rows X flt as ! k))"
      if "k < length (proxy_rows X flt as)" for k
    proof -
      have "proxy_rows X flt as ! k \<in> set (proxy_rows X flt as)" using that by (rule nth_mem)
      then have "proxy_rows X flt as ! k < length as" by (simp add: proxy_rows_def)
      with that show ?thesis by (simp add: proxy_execAt_def execAt_def Let_def)
    qed
    then have "map (\<lambda>k. proxy_execAt X flt as (int k)) [0..<length (proxy_rows X flt as)] =
        map (\<lambda>i. ap_exec (as ! i)) (proxy_rows X flt as)"
      by (intro nth_equalityI) simp_all
    then show ?thesis using arg_cong [OF rows [of as], of "map ap_exec"] by (simp add: comp_def)
  qed
  moreover have "trim (xd_isSpace X) flt = [] \<Longrightarrow> filter (filterAcceptsRow X flt) as = as" for as
    by (simp add: filterAcceptsRow_def)
  ultimately show ?thesis using m sorted(2) by (simp add: init_apps_def)
qed

definition demo_xdg :: xdg where
  "demo_xdg = \<lparr>xd_isSpace = (\<lambda>c. c = CHR '' ''), xd_dirs = [''/s'', ''/u''], xd_userDir = ''/u'',
     xd_desktopFiles = (\<lambda>d. Some (if d = ''/s'' then [''/s/z'', ''/s/b''] else [''/u/a''])),
     xd_lines = (\<lambda>p. Some [''[Desktop Entry]'', ''Type=Application'', ''Name='' @ [last p], ''Exec=run %U'']),
     xd_completeBase = (\<lambda>p. p), xd_compareCI = demo_compare, xd_splitCommand = (\<lambda>c. [c]),
     xd_findExecutable = (\<lambda>e. e), xd_isAbsolute = (\<lambda>p. True), xd_isExecutable = (\<lambda>p. True),
     xd_toLower = (\<lambda>s. s), xd_sort = isort\<rparr>"

theorem catalogue_witness:
  "mset (map ap_name (init_apps demo_xdg)) = {# ''a'', ''b'', ''z'' #} \<and>
   in_order (name_less demo_xdg) (init_apps demo_xdg)"
proof -
  have "compare_ok (xd_compareCI demo_xdg)" and "sort_ok (xd_sort demo_xdg)"
    by (simp_all add: demo_xdg_def demo_compare_ok isort_ok)
  note catalogue [OF this, of "[]"]
  moreover have "mset (map ap_name (init_apps demo_xdg)) = {# ''a'', ''b'', ''z'' #}"
  proof -
    have "map ap_name (init_apps demo_xdg) = [''a'', ''b'', ''z'']" by code_simp
    then show ?thesis by simp
  qed
  ultimately show ?thesis by blast
qed

text \<open>A search text is matched as typed, spaces at its ends included, although a text of spaces
  only counts as none.\<close>

lemma trailing_space_hides:
  "filterAcceptsRow demo_xdg ''fire'' \<lparr>ap_appId = ''firefox'', ap_name = ''Firefox'', ap_genericName = [],
     ap_iconName = [], ap_exec = ''firefox'', ap_categories = []\<rparr>
   \<and> \<not> filterAcceptsRow demo_xdg ''fire '' \<lparr>ap_appId = ''firefox'', ap_name = ''Firefox'', ap_genericName = [],
     ap_iconName = [], ap_exec = ''firefox'', ap_categories = []\<rparr>"
  by code_simp

text \<open>Entries are told apart by path, not by desktop file id: a copy in the user's directory
  does not replace the system's entry but stands beside it.\<close>

lemma override_listed_twice:
  assumes "p \<in> set (app_files X)" and "q \<in> set (app_files X)" and "p \<noteq> q"
    and "parseDesktopFile X p = Some a" and "parseDesktopFile X q = Some b" and "ap_appId a = ap_appId b"
  shows "size {# e \<in># mset (scanDirectories X). ap_appId e = ap_appId a #} \<ge> 2"
proof -
  have "mset [p, q] \<subseteq># mset (remdups (app_files X))"
    using assms(1-3) by (auto simp: insert_subset_eq_iff in_diff_count count_greater_zero_iff)
  then have "filter_mset (\<lambda>x. parseDesktopFile X x \<noteq> None) {# p, q #} \<subseteq>#
      filter_mset (\<lambda>x. parseDesktopFile X x \<noteq> None) (mset (remdups (app_files X)))"
    by (intro multiset_filter_mono) simp
  from image_mset_subseteq_mono [OF this, of "the \<circ> parseDesktopFile X"]
  have "{# a, b #} \<subseteq># mset (scanDirectories X)"
    using assms(4,5) by (simp add: scanDirectories_mset List.map_filter_def)
  then have "{# e \<in># {# a, b #}. ap_appId e = ap_appId a #} \<subseteq># {# e \<in># mset (scanDirectories X). ap_appId e = ap_appId a #}"
    by (rule multiset_filter_mono)
  from size_mset_mono [OF this] assms(6) show ?thesis by simp
qed

end
