(* ===== verification/DesktopIcons.thy ===== *)
theory DesktopIcons
  imports DesktopFile RowModel Qfs FileInfo
begin

text \<open>
  The icons on the desktop, desktop/shell/src/DesktopIconModel.{h,cpp}: a list model over the
  entries of the Desktop directory, shortcuts parsed from .desktop files, and the actions on
  an entry. The file system is the parameter of \<^theory_text>\<open>Qfs\<close>; \<open>dt_env\<close> adds what a scan asks and
  the two operations that Qfs does not have (writing a text, running a command).
\<close>

record desktop_entry =
  de_name :: string
  de_filePath :: path
  de_targetPath :: path
  de_iconName :: string
  de_mimeType :: string
  de_exec :: string
  de_isDirectory :: bool
  de_isShortcut :: bool
  de_isExecutable :: bool
  de_isHidden :: bool
  de_fileSize :: int
  de_lastModified :: int

record desktop =
  dt_path :: path
  dt_entries :: "desktop_entry list"
  dt_showHidden :: bool
  dt_reloading :: bool
  dt_dirWatches :: "path list"
  dt_fileWatches :: "path list"

record dt_env =
  dv_dirExists :: bool
  dv_infos :: "qfileinfo list"                 \<comment> \<open>the listing, hidden entries included\<close>
  dv_exists :: "path \<Rightarrow> bool"
  dv_lines :: "path \<Rightarrow> string list option"     \<comment> \<open>None when the file cannot be opened\<close>
  dv_isSpace :: "char \<Rightarrow> bool"
  dv_equalCI :: "string \<Rightarrow> string \<Rightarrow> bool"
  dv_localFile :: "string \<Rightarrow> path option"      \<comment> \<open>QUrl(u): toLocalFile if isLocalFile\<close>
  dv_splitCommand :: "string \<Rightarrow> string list"

datatype dt_out = DtReset | IconCountChanged | ShowHiddenChanged


subsection \<open>Scanning\<close>

definition parse_shortcut :: "dt_env \<Rightarrow> desktop_entry \<Rightarrow> desktop_entry" where
  "parse_shortcut V e =
     (case dv_lines V (de_filePath e) of
        None \<Rightarrow> e\<lparr>de_iconName := ''text-x-generic''\<rparr>
      | Some ls \<Rightarrow>
          (let kvs = desktop_pairs (dv_isSpace V) False ls;
               f = (\<lambda>k. field k kvs);
               t1 = f ''Path'';
               t2 = (if t1 = [] \<and> f ''URL'' \<noteq> []
                     then (case dv_localFile V (f ''URL'') of Some p \<Rightarrow> p | None \<Rightarrow> f ''URL'') else t1);
               t3 = (if t2 = [] \<and> f ''Exec'' \<noteq> []
                     then (case dv_splitCommand V (f ''Exec'') of [] \<Rightarrow> t2 | p # ps \<Rightarrow> p) else t2)
           in e\<lparr>de_name := (if f ''Name'' \<noteq> [] then f ''Name'' else de_name e),
                de_iconName := (if f ''Icon'' = [] then ''application-x-desktop'' else f ''Icon''),
                de_exec := f ''Exec'', de_targetPath := t3\<rparr>))"

definition entryFromInfo :: "dt_env \<Rightarrow> qfileinfo \<Rightarrow> desktop_entry" where
  "entryFromInfo V fi =
     (let e = \<lparr>de_name = qi_fileName fi, de_filePath = qi_absoluteFilePath fi, de_targetPath = [], de_iconName = [],
               de_mimeType = qi_mimeName fi, de_exec = [], de_isDirectory = qi_isDir fi, de_isShortcut = False,
               de_isExecutable = qi_isExecutable fi, de_isHidden = qi_isHidden fi, de_fileSize = qi_size fi,
               de_lastModified = qi_lastModified fi\<rparr>
      in
        if dv_equalCI V (qi_suffix fi) ''desktop'' then parse_shortcut V (e\<lparr>de_isShortcut := True\<rparr>)
        else if qi_isDir fi then e\<lparr>de_iconName := ''folder''\<rparr>
        else if qi_isExecutable fi then e\<lparr>de_iconName := ''application-x-executable''\<rparr>
        else e\<lparr>de_iconName := qi_mimeIcon fi\<rparr>)"

definition scanDirectory :: "dt_env \<Rightarrow> desktop \<Rightarrow> desktop \<times> dt_out list" where
  "scanDirectory V m =
     (if \<not> dv_dirExists V then
        (if dt_entries m \<noteq> [] then (m\<lparr>dt_entries := []\<rparr>, [DtReset, IconCountChanged]) else (m, []))
      else
        let shown = filter (\<lambda>fi. dt_showHidden m \<or> \<not> qi_isHidden fi) (dv_infos V);
            kept = filter (dv_exists V) (dt_fileWatches m)
        in (m\<lparr>dt_dirWatches := List.insert (dt_path m) (dt_dirWatches m),
              dt_fileWatches :=
                fold (\<lambda>fi ws. if qi_isFile fi then List.insert (qi_absoluteFilePath fi) ws else ws) shown kept,
              dt_entries := map (entryFromInfo V) shown, dt_reloading := False\<rparr>,
            [DtReset, IconCountChanged]))"

definition init_desktop :: "path \<Rightarrow> dt_env \<Rightarrow> desktop \<times> dt_out list" where
  "init_desktop p V =
     scanDirectory V \<lparr>dt_path = p, dt_entries = [], dt_showHidden = False, dt_reloading = False,
       dt_dirWatches = [], dt_fileWatches = []\<rparr>"

definition dt_setShowHidden :: "dt_env \<Rightarrow> bool \<Rightarrow> desktop \<Rightarrow> desktop \<times> dt_out list" where
  "dt_setShowHidden V b m =
     (if b = dt_showHidden m then (m, [])
      else (case scanDirectory V (m\<lparr>dt_showHidden := b\<rparr>) of (m1, o1) \<Rightarrow> (m1, ShowHiddenChanged # o1)))"

definition dt_onDirectoryChanged :: "dt_env \<Rightarrow> desktop \<Rightarrow> desktop \<times> dt_out list" where
  "dt_onDirectoryChanged V m = (if dt_reloading m then (m, []) else scanDirectory V m)"

definition dt_onFileChanged :: "dt_env \<Rightarrow> desktop \<Rightarrow> desktop \<times> dt_out list" where
  "dt_onFileChanged V m = (if dt_reloading m then (m, []) else scanDirectory V m)"

definition dt_refresh :: "dt_env \<Rightarrow> desktop \<Rightarrow> desktop \<times> dt_out list" where
  "dt_refresh V m = scanDirectory V m"


subsection \<open>The model interface\<close>

definition de_map :: "desktop_entry \<Rightarrow> (string \<times> variant) list" where
  "de_map e =
     [(''name'', VStr (de_name e)), (''filePath'', VStr (de_filePath e)), (''targetPath'', VStr (de_targetPath e)),
      (''iconName'', VStr (de_iconName e)), (''mimeType'', VStr (de_mimeType e)), (''exec'', VStr (de_exec e)),
      (''isDirectory'', VBool (de_isDirectory e)), (''isShortcut'', VBool (de_isShortcut e)),
      (''isExecutable'', VBool (de_isExecutable e)), (''isHidden'', VBool (de_isHidden e)),
      (''fileSize'', VInt (de_fileSize e)), (''lastModified'', VTime (de_lastModified e))]"

datatype dt_role =
    DtNameRole | DtFilePathRole | DtTargetPathRole | DtIconNameRole | DtMimeTypeRole | DtExecRole
  | DtIsDirectoryRole | DtIsShortcutRole | DtIsExecutableRole | DtIsHiddenRole | DtFileSizeRole
  | DtLastModifiedRole | DtEntryRole | DtOtherRole

definition dt_rowCount :: "desktop \<Rightarrow> nat option \<Rightarrow> nat" where
  "dt_rowCount m parent = (if parent \<noteq> None then 0 else length (dt_entries m))"

fun dt_cell :: "desktop_entry \<Rightarrow> dt_role \<Rightarrow> variant" where
  "dt_cell e DtNameRole = VStr (de_name e)"
| "dt_cell e DtFilePathRole = VStr (de_filePath e)"
| "dt_cell e DtTargetPathRole = VStr (de_targetPath e)"
| "dt_cell e DtIconNameRole = VStr (de_iconName e)"
| "dt_cell e DtMimeTypeRole = VStr (de_mimeType e)"
| "dt_cell e DtExecRole = VStr (de_exec e)"
| "dt_cell e DtIsDirectoryRole = VBool (de_isDirectory e)"
| "dt_cell e DtIsShortcutRole = VBool (de_isShortcut e)"
| "dt_cell e DtIsExecutableRole = VBool (de_isExecutable e)"
| "dt_cell e DtIsHiddenRole = VBool (de_isHidden e)"
| "dt_cell e DtFileSizeRole = VInt (de_fileSize e)"
| "dt_cell e DtLastModifiedRole = VTime (de_lastModified e)"
| "dt_cell e DtEntryRole = VMap (de_map e)"
| "dt_cell e DtOtherRole = VInvalid"

definition dt_data :: "desktop \<Rightarrow> nat option \<Rightarrow> dt_role \<Rightarrow> variant" where
  "dt_data m index role =
     (case index of
        None \<Rightarrow> VInvalid
      | Some row \<Rightarrow> if row \<ge> length (dt_entries m) then VInvalid else dt_cell (dt_entries m ! row) role)"

definition dt_roleNames :: "(dt_role \<times> string) list" where
  "dt_roleNames =
     [(DtNameRole, ''name''), (DtFilePathRole, ''filePath''), (DtTargetPathRole, ''targetPath''),
      (DtIconNameRole, ''iconName''), (DtMimeTypeRole, ''mimeType''), (DtExecRole, ''exec''),
      (DtIsDirectoryRole, ''isDirectory''), (DtIsShortcutRole, ''isShortcut''),
      (DtIsExecutableRole, ''isExecutable''), (DtIsHiddenRole, ''isHidden''), (DtFileSizeRole, ''fileSize''),
      (DtLastModifiedRole, ''lastModified''), (DtEntryRole, ''entry'')]"

definition in_rows :: "int \<Rightarrow> desktop \<Rightarrow> bool" where
  "in_rows row m \<longleftrightarrow> \<not> (row < 0 \<or> row \<ge> int (length (dt_entries m)))"

definition dt_get :: "int \<Rightarrow> desktop \<Rightarrow> (string \<times> variant) list" where
  "dt_get row m = (if \<not> in_rows row m then [] else de_map (dt_entries m ! nat row))"

interpretation desktop_items: item_model dt_entries dt_rowCount dt_data dt_cell dt_roleNames
  by unfold_locales (auto simp: dt_rowCount_def dt_data_def dt_roleNames_def)


subsection \<open>Actions\<close>

text \<open>The command that launching a row starts.\<close>

definition launch :: "int \<Rightarrow> desktop \<Rightarrow> (string \<times> string list) option" where
  "launch row m =
     (if \<not> in_rows row m then None
      else
        let e = dt_entries m ! nat row in
        if de_isShortcut e \<and> de_exec e \<noteq> [] then Some (''sh'', [''-c'', remove_codes (de_exec e)])
        else if de_isDirectory e then Some (''xdg-open'', [de_filePath e])
        else Some (''xdg-open'', [de_filePath e]))"

definition openDesktopFolder :: "desktop \<Rightarrow> string \<times> string list" where
  "openDesktopFolder m = (''xdg-open'', [dt_path m])"

definition renameEntry :: "'fs qfs \<Rightarrow> int \<Rightarrow> string \<Rightarrow> desktop \<Rightarrow> 'fs \<Rightarrow> bool \<times> 'fs" where
  "renameEntry Q row newName m s =
     (if \<not> in_rows row m then (False, s)
      else if newName = [] then (False, s)
      else if str_contains newName ''/'' \<or> str_contains newName [CHR 0x5C] then (False, s)
      else
        let e = dt_entries m ! nat row; target = pJoin Q (pDir Q (de_filePath e)) newName in
        if fExists Q s target \<and> target \<noteq> de_filePath e then (False, s)
        else fRename Q s (de_filePath e) target)"

text \<open>The third copy of the move to the trash; \<open>run s prog args\<close> is \<open>QProcess::execute\<close>.\<close>

definition dt_trash_target :: "'fs qfs \<Rightarrow> path \<Rightarrow> 'fs \<Rightarrow> path" where
  "dt_trash_target Q p s =
     Qfs.probe (fExists Q s)
       (\<lambda>i. (dataHome Q @ ''/Trash/files'') @ ''/'' @
         (if i = 0 then pFileName Q p
          else argChain Q ''%1 (%2)%3'' [pCompleteBase Q p, numStr Q i,
            if pSuffix Q p = [] then [] else CHR ''.'' # pSuffix Q p])) 0 10000 []"

definition dt_moveToTrash ::
  "'fs qfs \<Rightarrow> ('fs \<Rightarrow> string \<Rightarrow> string list \<Rightarrow> int \<times> 'fs) \<Rightarrow> path \<Rightarrow> 'fs \<Rightarrow> bool \<times> 'fs" where
  "dt_moveToTrash Q run p s =
     (case gioTrash Q s p of (result, s1) \<Rightarrow>
      if result = GioExited 0 then (True, s1)
      else
        let s2 = snd (dMkpath Q s1 (dataHome Q @ ''/Trash/files'')); target = dt_trash_target Q p s2 in
        (case fRename Q s2 p target of
           (True, s3) \<Rightarrow> (True, s3)
         | (False, s3) \<Rightarrow>
             if fIsDir Q s3 p then
               (case run s3 ''cp'' [''-r'', p, target] of (c, s4) \<Rightarrow>
                if c \<noteq> 0 then (False, s4)
                else (case run s4 ''rm'' [''-rf'', p] of (c2, s5) \<Rightarrow> (c2 = 0, s5)))
             else
               (case fCopy Q s3 p target of
                  (False, s4) \<Rightarrow> (False, s4)
                | (True, s4) \<Rightarrow> fRemove Q s4 p)))"

definition trashEntry ::
  "'fs qfs \<Rightarrow> ('fs \<Rightarrow> string \<Rightarrow> string list \<Rightarrow> int \<times> 'fs) \<Rightarrow> int \<Rightarrow> desktop \<Rightarrow> 'fs \<Rightarrow> bool \<times> 'fs" where
  "trashEntry Q run row m s =
     (if \<not> in_rows row m then (False, s) else dt_moveToTrash Q run (de_filePath (dt_entries m ! nat row)) s)"

text \<open>uniqueName: \<open>n\<close> counts how many more names the loop may try.\<close>

primrec unique_from :: "(string \<Rightarrow> bool) \<Rightarrow> (nat \<Rightarrow> string) \<Rightarrow> nat \<Rightarrow> string \<Rightarrow> string" where
  "unique_from taken numbered 0 candidate = candidate"
| "unique_from taken numbered (Suc n) candidate =
     (if taken candidate then unique_from taken numbered n (numbered (10000 - n)) else candidate)"

definition uniqueName :: "'fs qfs \<Rightarrow> (string \<Rightarrow> bool) \<Rightarrow> string \<Rightarrow> string \<Rightarrow> string" where
  "uniqueName Q taken baseName suffix =
     unique_from taken (\<lambda>i. argChain Q ''%1 (%2)%3'' [baseName, numStr Q i, suffix]) 9999 (baseName @ suffix)"

definition createFolder :: "'fs qfs \<Rightarrow> desktop \<Rightarrow> 'fs \<Rightarrow> path \<times> 'fs" where
  "createFolder Q m s =
     (let full = pJoin Q (dt_path m) (uniqueName Q (\<lambda>n. fExists Q s (pJoin Q (dt_path m) n)) ''New Folder'' []) in
      case dMkpath Q s full of (ok, s1) \<Rightarrow> (if \<not> ok then [] else full, s1))"

definition createFile :: "'fs qfs \<Rightarrow> desktop \<Rightarrow> 'fs \<Rightarrow> path \<times> 'fs" where
  "createFile Q m s =
     (let full = pJoin Q (dt_path m) (uniqueName Q (\<lambda>n. fExists Q s (pJoin Q (dt_path m) n)) ''New File'' ''.txt'') in
      case fCreate Q s full of (None, s1) \<Rightarrow> (full, s1) | (Some e, s1) \<Rightarrow> ([], s1))"

definition shortcut_text :: "string \<Rightarrow> path \<Rightarrow> string" where
  "shortcut_text safeName targetPath =
     concat (map (\<lambda>l. l @ [CHR 0x0A])
       [''[Desktop Entry]'', ''Type=Link'', ''Name='' @ safeName, ''URL=file://'' @ targetPath, ''Icon=folder''])"

text \<open>\<open>write s p t\<close>: open truncated, write, close and set the permissions; \<open>None\<close> if the open
  fails.\<close>

definition createShortcut ::
  "'fs qfs \<Rightarrow> ('fs \<Rightarrow> path \<Rightarrow> string \<Rightarrow> 'fs option) \<Rightarrow> path \<Rightarrow> string \<Rightarrow> desktop \<Rightarrow> 'fs \<Rightarrow> bool \<times> 'fs" where
  "createShortcut Q write targetPath displayName m s =
     (if targetPath = [] then (False, s)
      else
        let safeName = (if displayName = [] then pFileName Q targetPath else displayName);
            file = pJoin Q (dt_path m)
              (uniqueName Q (\<lambda>n. fExists Q s (pJoin Q (dt_path m) n)) (safeName @ ''.desktop'') [])
        in case write s file (shortcut_text safeName targetPath) of None \<Rightarrow> (False, s) | Some s1 \<Rightarrow> (True, s1))"


subsection \<open>What the desktop shows\<close>

datatype dt_event = DtDirectoryChanged | DtFileChanged | DtRefresh | DtSetShowHidden bool

fun dt_step :: "dt_env \<times> dt_event \<Rightarrow> desktop \<Rightarrow> desktop \<times> dt_out list" where
  "dt_step (V, DtDirectoryChanged) m = dt_onDirectoryChanged V m"
| "dt_step (V, DtFileChanged) m = dt_onFileChanged V m"
| "dt_step (V, DtRefresh) m = dt_refresh V m"
| "dt_step (V, DtSetShowHidden b) m = dt_setShowHidden V b m"

definition dt_notifs :: "dt_out list \<Rightarrow> row_notif list" where
  "dt_notifs os = (if DtReset \<in> set os then [ModelReset] else [])"

interpretation desktop_rows:
  row_model dt_entries "\<lambda>e m. fst (dt_step e m)" "\<lambda>e m. dt_notifs (snd (dt_step e m))"
proof (unfold_locales)
  fix e :: "dt_env \<times> dt_event" and m
  obtain V ev where e: "e = (V, ev)" by (cases e)
  have scan: "DtReset \<notin> set (snd (scanDirectory V m)) \<Longrightarrow> dt_entries (fst (scanDirectory V m)) = dt_entries m" for m
    by (auto simp: scanDirectory_def Let_def split: if_splits)
  have "DtReset \<notin> set (snd (dt_step e m)) \<Longrightarrow> dt_entries (fst (dt_step e m)) = dt_entries m"
  proof (cases ev)
    case (DtSetShowHidden b)
    assume "DtReset \<notin> set (snd (dt_step e m))"
    then show ?thesis using scan [of "m\<lparr>dt_showHidden := b\<rparr>"] unfolding e DtSetShowHidden
      by (cases "b = dt_showHidden m") (simp_all add: dt_setShowHidden_def case_prod_beta del: not_None_eq)
  qed (use scan [of m] in \<open>auto simp: e dt_onDirectoryChanged_def dt_onFileChanged_def dt_refresh_def split: if_splits\<close>)
  then show "replay (dt_entries (fst (dt_step e m))) (dt_notifs (snd (dt_step e m))) (dt_entries m) =
      dt_entries (fst (dt_step e m))"
    by (auto simp: dt_notifs_def)
qed

lemma scan_entries:
  "dt_entries (fst (scanDirectory V m)) =
     (if dv_dirExists V then map (entryFromInfo V) (filter (\<lambda>fi. dt_showHidden m \<or> \<not> qi_isHidden fi) (dv_infos V))
      else [])"
  by (simp add: scanDirectory_def Let_def)

lemma scan_watches_directory:
  "dv_dirExists V \<Longrightarrow> dt_path m \<in> set (dt_dirWatches (fst (scanDirectory V m)))"
  by (simp add: scanDirectory_def Let_def)


subsection \<open>Shortcuts\<close>

definition one_line :: "(char \<Rightarrow> bool) \<Rightarrow> string \<Rightarrow> bool" where
  "one_line sp s \<longleftrightarrow> CHR 0x0A \<notin> set s \<and> CHR 0x0D \<notin> set s \<and> trim sp s = s"

lemma shortcut_lines:
  assumes "one_line sp name" and "one_line sp target"
  shows "text_lines (shortcut_text name target) =
    [''[Desktop Entry]'', ''Type=Link'', ''Name='' @ name, ''URL=file://'' @ target, ''Icon=folder'']"
  unfolding shortcut_text_def
  by (rule text_lines_concat) (use assms in \<open>auto simp: one_line_def\<close>)

definition spaces_ok :: "(char \<Rightarrow> bool) \<Rightarrow> bool" where
  "spaces_ok sp \<longleftrightarrow> (\<forall>c \<in> set ''TypeNameURLIconLinkfolderfile://[#''. \<not> sp c)"

lemma trim_prefix:
  "\<not> sp (hd pre) \<Longrightarrow> pre \<noteq> [] \<Longrightarrow> \<not> sp (last pre) \<Longrightarrow> trim sp s = s \<Longrightarrow> trim sp (pre @ s) = pre @ s"
  by (rule trim_idem_if) (metis append_is_Nil_conv append_self_conv hd_append2 last_appendL last_appendR trim_ends)

lemma shortcut_pairs:
  assumes sp: "spaces_ok sp" and name: "one_line sp name" and target: "one_line sp target"
  shows "desktop_pairs sp False (text_lines (shortcut_text name target)) =
    [(''Type'', ''Link''), (''Name'', name), (''URL'', ''file://'' @ target), (''Icon'', ''folder'')]"
proof -
  have idx: "index_of ''='' (k @ CHR ''='' # v) = Some (length k)" if "CHR ''='' \<notin> set k" for k v
    using index_of_append_sep [OF that] by simp
  have pair: "desktop_pairs sp True ((k @ CHR ''='' # v) # ls) = (k, v) # desktop_pairs sp True ls"
    if "CHR ''='' \<notin> set k" and "k \<noteq> []" and "hd k \<noteq> CHR ''[''" and "hd k \<noteq> CHR ''#''" and "\<not> sp (hd k)"
      and "trim sp k = k" and "trim sp v = v"
    for k v ls
  proof -
    obtain c k' where k: "k = c # k'" using \<open>k \<noteq> []\<close> by (cases k) auto
    have "\<not> starts_with (k @ CHR ''='' # v) ''[''" using \<open>hd k \<noteq> CHR ''[''\<close> k by (simp add: starts_with_def)
    moreover have "\<not> starts_with (trim sp (k @ CHR ''='' # v)) ''#''"
    proof -
      have "trim sp (k @ CHR ''='' # v) \<noteq> [] \<Longrightarrow> hd (trim sp (k @ CHR ''='' # v)) = c"
      proof -
        assume "trim sp (k @ CHR ''='' # v) \<noteq> []"
        obtain b where "dropWhile sp (k @ CHR ''='' # v) = trim sp (k @ CHR ''='' # v) @ b"
          unfolding trim_def by (metis rev_append rev_rev_ident takeWhile_dropWhile_id)
        moreover have "dropWhile sp (k @ CHR ''='' # v) = k @ CHR ''='' # v" using \<open>\<not> sp (hd k)\<close> k by simp
        ultimately show ?thesis using k \<open>trim sp (k @ CHR ''='' # v) \<noteq> []\<close> by (metis append_Cons hd_append2 list.sel(1))
      qed
      then show ?thesis using \<open>hd k \<noteq> CHR ''#''\<close> k by (cases "trim sp (k @ CHR ''='' # v)") (auto simp: starts_with_def)
    qed
    ultimately show ?thesis
      using idx [OF \<open>CHR ''='' \<notin> set k\<close>, of v] \<open>trim sp k = k\<close> \<open>trim sp v = v\<close> by simp
  qed
  have lit: "trim sp ''Type'' = ''Type''" "trim sp ''Name'' = ''Name''" "trim sp ''URL'' = ''URL''"
    "trim sp ''Icon'' = ''Icon''" "trim sp ''Link'' = ''Link''" "trim sp ''folder'' = ''folder''"
    using sp by (auto simp: spaces_ok_def intro!: trim_idem_if)
  have url: "trim sp (''file://'' @ target) = ''file://'' @ target"
    by (rule trim_prefix) (use sp target in \<open>auto simp: spaces_ok_def one_line_def\<close>)
  have lines: "text_lines (shortcut_text name target) =
      [''[Desktop Entry]'', ''Type'' @ CHR ''='' # ''Link'', ''Name'' @ CHR ''='' # name,
       ''URL'' @ CHR ''='' # (''file://'' @ target), ''Icon'' @ CHR ''='' # ''folder'']"
    using shortcut_lines [OF name target] by simp
  have head: "desktop_pairs sp False (''[Desktop Entry]'' # ls) = desktop_pairs sp True ls" for ls
    by (simp add: starts_with_def)
  show ?thesis
    unfolding lines head
    using pair [of "''Type''" "''Link''"] pair [of "''Name''" name] pair [of "''URL''" "''file://'' @ target"]
      pair [of "''Icon''" "''folder''"] lit url sp name
    by (simp add: spaces_ok_def one_line_def)
qed

text \<open>The URL class: the path of a \<open>file://\<close> URL is what follows, up to a \<open>?\<close> or \<open>#\<close> and with \<open>%XX\<close> decoded,
  so it is read back as written if it has none of these characters.\<close>

definition plain_target :: "path \<Rightarrow> bool" where
  "plain_target t \<longleftrightarrow> starts_with t ''/'' \<and> set t \<inter> {CHR ''#'', CHR ''?'', CHR ''%''} = {}"

definition reads_file_urls :: "dt_env \<Rightarrow> bool" where
  "reads_file_urls V \<longleftrightarrow> (\<forall>t. plain_target t \<longrightarrow> dv_localFile V (''file://'' @ t) = Some t)"

text \<open>
  C27. A shortcut leads where it was made to lead. Take a name that is one line, not empty and without
  spaces at its ends, and an absolute path that is one line without spaces at its ends and without
  the characters \<open>#\<close>, \<open>?\<close> and \<open>%\<close>, which mean something in a URL. Reading back the file that
  createShortcut writes for them gives an icon with that name, a folder icon, no command, and the
  path as its target. (What becomes of other names and targets is shown below.)
\<close>

theorem shortcut_roundtrip:
  assumes "spaces_ok (dv_isSpace V)" and "one_line (dv_isSpace V) name" and "name \<noteq> []"
    and "one_line (dv_isSpace V) target" and "plain_target target" and "reads_file_urls V"
    and "dv_lines V (de_filePath e) = Some (text_lines (shortcut_text name target))"
  shows "parse_shortcut V e =
    e\<lparr>de_name := name, de_iconName := ''folder'', de_exec := [], de_targetPath := target\<rparr>"
proof -
  have "dv_localFile V (''file://'' @ target) = Some target" and "target \<noteq> []"
    using assms(5,6) by (auto simp: reads_file_urls_def plain_target_def starts_with_def)
  then show ?thesis
    using assms(3,7) shortcut_pairs [OF assms(1,2,4)] by (simp add: parse_shortcut_def field_def Let_def)
qed

definition demo_dt_env :: dt_env where
  "demo_dt_env = \<lparr>dv_dirExists = True, dv_infos = [plain_info\<lparr>qi_absoluteFilePath := ''/d/x.desktop'', qi_suffix := ''desktop''\<rparr>],
     dv_exists = (\<lambda>p. True),
     dv_lines = (\<lambda>p. Some (text_lines (shortcut_text ''Docs'' ''/u/my docs''))),
     dv_isSpace = (\<lambda>c. c = CHR '' ''), dv_equalCI = (=), dv_localFile = (\<lambda>u. Some (drop 7 u)),
     dv_splitCommand = (\<lambda>c. [c])\<rparr>"

theorem shortcut_roundtrip_witness:
  "de_targetPath (entryFromInfo demo_dt_env (hd (dv_infos demo_dt_env))) = ''/u/my docs''"
proof -
  let ?e = "\<lparr>de_name = [], de_filePath = ''/d/x.desktop'', de_targetPath = [], de_iconName = [],
      de_mimeType = ''text/plain'', de_exec = [], de_isDirectory = False, de_isShortcut = True,
      de_isExecutable = False, de_isHidden = False, de_fileSize = 0, de_lastModified = 0\<rparr>"
  have "spaces_ok (dv_isSpace demo_dt_env)" by (simp add: spaces_ok_def demo_dt_env_def)
  moreover have "one_line (dv_isSpace demo_dt_env) ''Docs''" and "one_line (dv_isSpace demo_dt_env) ''/u/my docs''"
    by (simp_all add: one_line_def demo_dt_env_def trim_def)
  ultimately have "parse_shortcut demo_dt_env ?e =
      ?e\<lparr>de_name := ''Docs'', de_iconName := ''folder'', de_exec := [], de_targetPath := ''/u/my docs''\<rparr>"
    by (intro shortcut_roundtrip) (simp_all add: demo_dt_env_def reads_file_urls_def plain_target_def starts_with_def)
  moreover have "entryFromInfo demo_dt_env (hd (dv_infos demo_dt_env)) = parse_shortcut demo_dt_env ?e"
    by (simp add: entryFromInfo_def demo_dt_env_def plain_info_def Let_def)
  ultimately show ?thesis by simp
qed

text \<open>A name is written as it comes: one with a line feed adds keys of its own, here a command
  that launching the icon hands to a shell.\<close>

lemma shortcut_name_injects_command:
  "field ''Exec'' (desktop_pairs (\<lambda>c. c = CHR '' '') False
      (text_lines (shortcut_text (''x'' @ [CHR 0x0A] @ ''Exec=rm -rf /home'') ''/t''))) = ''rm -rf /home''"
  by code_simp

text \<open>The target is put into the URL as it is, not encoded: of a folder whose name has a \<open>#\<close> the URL class
  reads the part before it, and that is where the shortcut leads.\<close>

lemma shortcut_cut_at_hash:
  assumes "dv_isSpace V = (\<lambda>c. c = CHR '' '')" and "dv_localFile V ''file:///c#'' = Some ''/c''"
    and "dv_lines V (de_filePath e) = Some (text_lines (shortcut_text ''n'' ''/c#''))"
  shows "de_targetPath (parse_shortcut V e) = ''/c''"
proof -
  have "spaces_ok (dv_isSpace V)" by (simp add: spaces_ok_def assms(1))
  moreover have "one_line (dv_isSpace V) ''n''" "one_line (dv_isSpace V) ''/c#''"
    by (simp_all add: one_line_def assms(1) trim_def)
  ultimately show ?thesis using shortcut_pairs [of "dv_isSpace V" "''n''" "''/c#''"] assms(2,3)
    by (simp add: parse_shortcut_def field_def Let_def)
qed

text \<open>A second shortcut of the same name is not a .desktop file any more: the number goes behind
  the suffix.\<close>

lemma second_shortcut_loses_suffix:
  assumes "taken ''Docs.desktop''" and "\<not> taken (argChain Q ''%1 (%2)%3'' [''Docs.desktop'', numStr Q 2, []])"
  shows "uniqueName Q taken ''Docs.desktop'' [] = argChain Q ''%1 (%2)%3'' [''Docs.desktop'', numStr Q 2, []]"
proof -
  have "unique_from taken f (Suc (Suc n)) c = (if taken c then
      (if taken (f (9999 - n)) then unique_from taken f n (f (10000 - n)) else f (9999 - n)) else c)" for f n c
    by simp
  from this [of _ 9997] assms show ?thesis by (simp add: uniqueName_def)
qed


subsection \<open>New entries\<close>

lemma unique_from_first:
  assumes "n \<le> 10000" and "g 0 = c" and "\<And>j. f (10001 - n + j) = g (Suc j)"
    and "k \<le> n" and "\<not> taken (g k)" and "\<forall>j<k. taken (g j)"
  shows "unique_from taken f n c = g k"
  using assms
proof (induction n arbitrary: k c g)
  case 0
  then show ?case by simp
next
  case (Suc n)
  show ?case
  proof (cases k)
    case 0
    with Suc.prems(2,5) show ?thesis by auto
  next
    case (Suc m)
    from Suc.prems(6) Suc Suc.prems(2) have "taken c" by auto
    have "unique_from taken f n (f (10000 - n)) = g (Suc m)"
    proof (rule Suc.IH [where g = "\<lambda>j. g (Suc j)"])
      show "n \<le> 10000" using Suc.prems(1) by simp
      show "g (Suc 0) = f (10000 - n)" using Suc.prems(3) [of 0] by simp
      show "f (10001 - n + j) = g (Suc (Suc j))" for j
      proof -
        have "10001 - Suc n + Suc j = 10001 - n + j" using Suc.prems(1) by linarith
        then show ?thesis using Suc.prems(3) [of "Suc j"] by metis
      qed
      show "m \<le> n" using Suc Suc.prems(4) by simp
      show "\<not> taken (g (Suc m))" using Suc Suc.prems(5) by simp
      show "\<forall>j<m. taken (g (Suc j))" using Suc Suc.prems(6) by simp
    qed
    with \<open>taken c\<close> Suc show ?thesis by simp
  qed
qed

definition numbered_name :: "'fs qfs \<Rightarrow> string \<Rightarrow> string \<Rightarrow> nat \<Rightarrow> string" where
  "numbered_name Q baseName suffix k =
     (if k = 0 then baseName @ suffix else argChain Q ''%1 (%2)%3'' [baseName, numStr Q (1 + k), suffix])"

interpretation unique_names:
  fresh_name "\<lambda>taken. uniqueName Q taken baseName suffix" "numbered_name Q baseName suffix" 10000
  for Q baseName suffix
proof
  fix k and taken :: "string \<Rightarrow> bool"
  assume k: "k < 10000" and free: "\<not> taken (numbered_name Q baseName suffix k)"
    and below: "\<forall>j<k. taken (numbered_name Q baseName suffix j)"
  show "uniqueName Q taken baseName suffix = numbered_name Q baseName suffix k"
    unfolding uniqueName_def
  proof (rule unique_from_first)
    show "numbered_name Q baseName suffix 0 = baseName @ suffix" by (simp add: numbered_name_def)
    show "argChain Q ''%1 (%2)%3'' [baseName, numStr Q (10001 - 9999 + j), suffix] =
        numbered_name Q baseName suffix (Suc j)" for j
      by (simp add: numbered_name_def)
  qed (use k free below in simp_all)
qed

text \<open>
  A new file or folder replaces nothing. If one of the 10000 names New File.txt,
  New File (2).txt, ... is free on the desktop, createFile gives the path of an empty file where
  nothing was, everything else being as it was, or reports a failure and changes nothing;
  likewise createFolder keeps whatever exists and gives a directory where nothing was.
\<close>

theorem new_entries_fresh:
  assumes "qfs_laws Q canon node_at hidden" and "canon (dt_path m)" and "\<not> canon []"
    and "\<forall>n. plain_name (numbered_name Q ''New File'' ''.txt'' n) \<and> plain_name (numbered_name Q ''New Folder'' [] n)"
    and "k < 10000" and "node_at s (pJoin Q (dt_path m) (numbered_name Q ''New File'' ''.txt'' k)) = None"
    and "j < 10000" and "node_at s (pJoin Q (dt_path m) (numbered_name Q ''New Folder'' [] j)) = None"
  shows "(case createFile Q m s of (p, s1) \<Rightarrow>
      (if p = [] then node_at s1 = node_at s
       else node_at s p = None \<and> node_at s1 = (node_at s)(p \<mapsto> File []))) \<and>
    (case createFolder Q m s of (p, s2) \<Rightarrow>
      (\<forall>q v. node_at s q = Some v \<longrightarrow> node_at s2 q = Some v) \<and>
      (if p = [] then True else node_at s p = None \<and> node_at s2 p = Some Dir))"
proof
  note laws = assms(1)
  let ?at = "\<lambda>n. pJoin Q (dt_path m) n"
  let ?taken = "\<lambda>n. fExists Q s (?at n)"
  have full: "canon (?at n) \<and> ?at n \<noteq> []" if "plain_name n" for n
    using qfs_canon [OF laws assms(2) that] assms(3) by auto
  have uniq: "plain_name (uniqueName Q ?taken b x) \<and> node_at s (?at (uniqueName Q ?taken b x)) = None"
    if plain: "\<And>n. plain_name (numbered_name Q b x n)" and i: "i < 10000"
      and free: "node_at s (?at (numbered_name Q b x i)) = None" for b x i
  proof -
    have taken: "?taken (numbered_name Q b x i) \<longleftrightarrow> node_at s (?at (numbered_name Q b x i)) \<noteq> None" for i
      using qfs_queries(1) [OF laws] full [OF plain] by blast
    with free have "\<not> ?taken (numbered_name Q b x i)" by blast
    from unique_names.search_cand [where taken = ?taken, OF i this]
    obtain c where "uniqueName Q ?taken b x = numbered_name Q b x c" and "\<not> ?taken (numbered_name Q b x c)" by blast
    with taken [of c] plain show ?thesis by simp
  qed
  show "case createFile Q m s of (p, s1) \<Rightarrow>
      (if p = [] then node_at s1 = node_at s
       else node_at s p = None \<and> node_at s1 = (node_at s)(p \<mapsto> File []))"
  proof -
    let ?n = "uniqueName Q ?taken ''New File'' ''.txt''"
    have n: "plain_name ?n" "node_at s (?at ?n) = None"
      using uniq [of "''New File''" "''.txt''" k] assms(4-6) by blast+
    from full [OF n(1)] have c: "canon (?at ?n)" "?at ?n \<noteq> []" by blast+
    obtain r s1 where r: "fCreate Q s (?at ?n) = (r, s1)" by fastforce
    then have "createFile Q m s = (if r = None then ?at ?n else [], s1)"
      by (simp add: createFile_def Let_def split: option.splits)
    then show ?thesis using qfs_create [OF laws c(1)] r n(2) c(2) by (cases r) simp_all
  qed
  show "case createFolder Q m s of (p, s2) \<Rightarrow>
      (\<forall>q v. node_at s q = Some v \<longrightarrow> node_at s2 q = Some v) \<and>
      (if p = [] then True else node_at s p = None \<and> node_at s2 p = Some Dir)"
  proof -
    let ?n = "uniqueName Q ?taken ''New Folder'' []"
    have n: "plain_name ?n" "node_at s (?at ?n) = None"
      using uniq [of "''New Folder''" "[]" j] assms(4,7,8) by blast+
    from full [OF n(1)] have c: "canon (?at ?n)" by blast
    obtain ok s2 where r: "dMkpath Q s (?at ?n) = (ok, s2)" by fastforce
    then have eq: "createFolder Q m s = (if \<not> ok then [] else ?at ?n, s2)"
      by (simp add: createFolder_def Let_def)
    note mk = qfs_mkpath [OF laws c r]
    have "node_at s2 q = Some v" if "node_at s q = Some v" for q v using mk(2) [of q] that by fastforce
    then show ?thesis unfolding eq using mk(1) n(2) by simp
  qed
qed

definition demo_desktop :: desktop where
  "demo_desktop = \<lparr>dt_path = ''/d'', dt_entries = [], dt_showHidden = False, dt_reloading = False,
     dt_dirWatches = [], dt_fileWatches = []\<rparr>"

definition demo_desktop_tree :: mem where
  "demo_desktop_tree = [(''/d'', Dir), (''/d/New Folder'', Dir), (''/d/New File.txt'', File ''kept'')]"

lemma numbered_plain_mem:
  "plain_name (numbered_name mem_fs ''New File'' ''.txt'' n) \<and> plain_name (numbered_name mem_fs ''New Folder'' [] n)"
  by (auto simp: numbered_name_def mem_fs_def plain_name_def)

theorem new_entries_fresh_witness:
  "fst (createFile mem_fs demo_desktop demo_desktop_tree) \<noteq> ''/d/New File.txt'' \<and>
   map_of (snd (createFolder mem_fs demo_desktop demo_desktop_tree)) ''/d/New File.txt'' = Some (File ''kept'')"
proof -
  have "mem_canon (dt_path demo_desktop)" and "\<not> mem_canon []"
    by (simp_all add: mem_canon_def demo_desktop_def)
  moreover have "map_of demo_desktop_tree (pJoin mem_fs (dt_path demo_desktop) (numbered_name mem_fs ''New File'' ''.txt'' 1)) = None"
    and "map_of demo_desktop_tree (pJoin mem_fs (dt_path demo_desktop) (numbered_name mem_fs ''New Folder'' [] 1)) = None"
    by (simp_all add: demo_desktop_tree_def demo_desktop_def numbered_name_def mem_fs_def mem_join_def)
  ultimately have all: "(case createFile mem_fs demo_desktop demo_desktop_tree of (p, s1) \<Rightarrow>
      (if p = [] then map_of s1 = map_of demo_desktop_tree
       else map_of demo_desktop_tree p = None \<and> map_of s1 = (map_of demo_desktop_tree)(p \<mapsto> File []))) \<and>
    (case createFolder mem_fs demo_desktop demo_desktop_tree of (p, s2) \<Rightarrow>
      (\<forall>q v. map_of demo_desktop_tree q = Some v \<longrightarrow> map_of s2 q = Some v) \<and>
      (if p = [] then True else map_of demo_desktop_tree p = None \<and> map_of s2 p = Some Dir))"
    using numbered_plain_mem
    by (intro new_entries_fresh [OF mem_fs_laws, where k = 1 and j = 1]) simp_all
  have old: "map_of demo_desktop_tree ''/d/New File.txt'' = Some (File ''kept'')"
    by (simp add: demo_desktop_tree_def)
  show ?thesis
    using all old by (cases "createFile mem_fs demo_desktop demo_desktop_tree";
      cases "createFolder mem_fs demo_desktop demo_desktop_tree") (auto split: if_splits)
qed

end
