(* ===== verification/Users.thy ===== *)
theory Users
  imports RowModel StdSort
begin

text \<open>
  The list of accounts on the login screen, desktop/greeter/src/UserModel.{h,cpp}: the lines of
  /etc/passwd that describe people who can log in, in the order of their user ids.
  \<open>passwd_env\<close> holds the text of the file, what counts as white space, \<open>QString::toUInt\<close>, which
  paths exist, and \<open>std::sort\<close>.
\<close>

record user_entry =
  us_username :: string
  us_displayName :: string
  us_uid :: "32 word"
  us_homeDir :: path
  us_shell :: path
  us_avatarPath :: string

record passwd_env =
  pw_lines :: "string list option"             \<comment> \<open>None when /etc/passwd cannot be opened\<close>
  pw_isSpace :: "char \<Rightarrow> bool"
  pw_toUInt :: "string \<Rightarrow> 32 word option"
  pw_exists :: "path \<Rightarrow> bool"
  pw_sort :: "(user_entry \<Rightarrow> user_entry \<Rightarrow> bool) \<Rightarrow> user_entry list \<Rightarrow> user_entry list"

definition VALID_SHELLS :: "path list" where
  "VALID_SHELLS = [''/bin/bash'', ''/bin/zsh'', ''/bin/fish'', ''/bin/sh'', ''/bin/dash'', ''/usr/bin/bash'',
     ''/usr/bin/zsh'', ''/usr/bin/fish'', ''/usr/bin/sh'']"

definition DEFAULT_AVATAR :: string where
  "DEFAULT_AVATAR = ''file:///usr/share/niraos/avatar-default.jpg''"

definition isValidShell :: "passwd_env \<Rightarrow> path \<Rightarrow> bool" where
  "isValidShell P shell =
     (if shell = [] \<or> shell = ''/sbin/nologin'' \<or> shell = ''/usr/sbin/nologin'' \<or> shell = ''/usr/bin/nologin''
         \<or> shell = ''/bin/false'' \<or> shell = ''/usr/bin/false'' then False
      else if shell \<in> set VALID_SHELLS then True
      else pw_exists P shell)"

definition user_of :: "passwd_env \<Rightarrow> string \<Rightarrow> user_entry option" where
  "user_of P text =
     (let line = trim (pw_isSpace P) text in
      if line = [] \<or> starts_with line ''#'' then None
      else
        let parts = split_on CHR '':'' line in
        if length parts < 7 then None
        else
          (case pw_toUInt P (parts ! 2) of
             None \<Rightarrow> None
           | Some uid \<Rightarrow>
               if uid < 1000 \<or> uid \<ge> 60000 then None
               else
                 let shell = trim (pw_isSpace P) (parts ! 6) in
                 if \<not> isValidShell P shell then None
                 else
                   let display = hd (split_on CHR '','' (trim (pw_isSpace P) (parts ! 4))) in
                   Some \<lparr>us_username = parts ! 0,
                     us_displayName = (if display = [] then parts ! 0 else display),
                     us_uid = uid, us_homeDir = parts ! 5, us_shell = shell, us_avatarPath = DEFAULT_AVATAR\<rparr>))"

definition parsePasswd :: "passwd_env \<Rightarrow> user_entry list" where
  "parsePasswd P = (case pw_lines P of None \<Rightarrow> [] | Some ls \<Rightarrow> List.map_filter (user_of P) ls)"

definition uid_less :: "user_entry \<Rightarrow> user_entry \<Rightarrow> bool" where
  "uid_less a b \<longleftrightarrow> us_uid a < us_uid b"

definition init_users :: "passwd_env \<Rightarrow> user_entry list" where
  "init_users P = pw_sort P uid_less (parsePasswd P)"


subsection \<open>The model interface\<close>

datatype us_role = UsUsernameRole | UsDisplayNameRole | UsUidRole | UsHomeDirRole | UsAvatarPathRole | UsOtherRole

definition us_rowCount :: "user_entry list \<Rightarrow> nat option \<Rightarrow> nat" where
  "us_rowCount users parent = (if parent \<noteq> None then 0 else length users)"

fun us_cell :: "user_entry \<Rightarrow> us_role \<Rightarrow> variant" where
  "us_cell u UsUsernameRole = VStr (us_username u)"
| "us_cell u UsDisplayNameRole = VStr (us_displayName u)"
| "us_cell u UsUidRole = VUInt (us_uid u)"
| "us_cell u UsHomeDirRole = VStr (us_homeDir u)"
| "us_cell u UsAvatarPathRole = VStr (us_avatarPath u)"
| "us_cell u UsOtherRole = VInvalid"

definition us_data :: "user_entry list \<Rightarrow> nat option \<Rightarrow> us_role \<Rightarrow> variant" where
  "us_data users index role =
     (case index of
        None \<Rightarrow> VInvalid
      | Some row \<Rightarrow> if row \<ge> length users then VInvalid else us_cell (users ! row) role)"

definition us_roleNames :: "(us_role \<times> string) list" where
  "us_roleNames =
     [(UsUsernameRole, ''username''), (UsDisplayNameRole, ''displayName''), (UsUidRole, ''uid''),
      (UsHomeDirRole, ''homeDir''), (UsAvatarPathRole, ''avatarPath'')]"

interpretation user_items: item_model "\<lambda>us. us" us_rowCount us_data us_cell us_roleNames
  by unfold_locales (auto simp: us_rowCount_def us_data_def us_roleNames_def)


subsection \<open>Who is listed\<close>

text \<open>An account and its line in the file.\<close>

record account =
  ac_name :: string
  ac_password :: string
  ac_uid_text :: string
  ac_uid :: "32 word"
  ac_gid :: string
  ac_gecos :: string
  ac_home :: path
  ac_shell :: path

definition ac_fields :: "account \<Rightarrow> string list" where
  "ac_fields a = [ac_name a, ac_password a, ac_uid_text a, ac_gid a, ac_gecos a, ac_home a, ac_shell a]"

definition passwd_line :: "account \<Rightarrow> string" where
  "passwd_line a = join_with CHR '':'' (ac_fields a)"

definition account_ok :: "passwd_env \<Rightarrow> account \<Rightarrow> bool" where
  "account_ok P a \<longleftrightarrow>
     (\<forall>f \<in> set (ac_fields a). CHR '':'' \<notin> set f) \<and> pw_toUInt P (ac_uid_text a) = Some (ac_uid a) \<and>
     ac_name a \<noteq> [] \<and> hd (ac_name a) \<noteq> CHR ''#'' \<and> \<not> pw_isSpace P (hd (ac_name a)) \<and>
     trim (pw_isSpace P) (ac_gecos a) = ac_gecos a \<and> ac_shell a \<noteq> [] \<and> trim (pw_isSpace P) (ac_shell a) = ac_shell a"

definition can_login :: "passwd_env \<Rightarrow> account \<Rightarrow> bool" where
  "can_login P a \<longleftrightarrow> 1000 \<le> ac_uid a \<and> ac_uid a < 60000 \<and> isValidShell P (ac_shell a)"

definition listed_as :: "account \<Rightarrow> user_entry" where
  "listed_as a =
     (let full = takeWhile (\<lambda>c. c \<noteq> CHR '','') (ac_gecos a) in
      \<lparr>us_username = ac_name a, us_displayName = (if full = [] then ac_name a else full), us_uid = ac_uid a,
       us_homeDir = ac_home a, us_shell = ac_shell a, us_avatarPath = DEFAULT_AVATAR\<rparr>)"

lemma user_of_line:
  assumes ok: "account_ok P a"
  shows "user_of P (passwd_line a) = (if can_login P a then Some (listed_as a) else None)"
proof -
  have shell: "ac_shell a \<noteq> []" "trim (pw_isSpace P) (ac_shell a) = ac_shell a" using ok by (simp_all add: account_ok_def)
  have ends: "hd (passwd_line a) = hd (ac_name a)" "last (passwd_line a) = last (ac_shell a)" "passwd_line a \<noteq> []"
    using ok by (simp_all add: passwd_line_def ac_fields_def account_ok_def)
  have "\<not> pw_isSpace P (last (ac_shell a))" using trim_ends [of "pw_isSpace P" "ac_shell a"] shell by simp
  then have line: "trim (pw_isSpace P) (passwd_line a) = passwd_line a"
    using ok ends by (intro trim_idem_if) (simp add: account_ok_def)
  have "\<not> starts_with (passwd_line a) ''#''"
    using ends ok by (cases "passwd_line a") (auto simp: starts_with_def account_ok_def)
  moreover have "split_on CHR '':'' (passwd_line a) = ac_fields a"
    unfolding passwd_line_def by (rule split_join) (use ok in \<open>simp_all add: ac_fields_def account_ok_def\<close>)
  ultimately show ?thesis
    using ok ends line
    by (auto simp: user_of_def account_ok_def can_login_def listed_as_def ac_fields_def hd_split_on Let_def
        not_less not_le)
qed

lemma strict_weak_uid: "strict_weak uid_less"
  by (auto simp: strict_weak_def uid_less_def)

text \<open>
  C29. The login screen lists exactly the people who can log in. For a well-formed /etc/passwd the
  list has, for every account with a user id from 1000 to 59999 and a login shell, one
  entry with its name, its full name (the account name if there is none), home and shell,
  and no entry for any other account; entries are in the order of their user ids.
\<close>

theorem login_users:
  assumes "pw_lines P = Some (map passwd_line accounts)" and "list_all (account_ok P) accounts"
    and "sort_ok (pw_sort P)"
  shows "mset (init_users P) = mset (map listed_as (filter (can_login P) accounts)) \<and>
    sorted_wrt (\<lambda>u v. us_uid u \<le> us_uid v) (init_users P)"
proof -
  note sorted = sort_okD [OF assms(3) strict_weak_uid, of "parsePasswd P"]
  have "List.map_filter (user_of P) (map passwd_line as) = map listed_as (filter (can_login P) as)"
    if "list_all (account_ok P) as" for as
    using that by (induction as) (simp_all add: List.map_filter_simps user_of_line)
  then have "parsePasswd P = map listed_as (filter (can_login P) accounts)"
    using assms(1,2) by (simp add: parsePasswd_def)
  moreover have "in_order uid_less (init_users P)" using sorted(2) by (simp add: init_users_def)
  ultimately show ?thesis
    using sorted(1) by (simp add: init_users_def in_order_def uid_less_def not_less)
qed

definition demo_accounts :: "account list" where
  "demo_accounts =
     [\<lparr>ac_name = ''root'', ac_password = ''x'', ac_uid_text = ''0'', ac_uid = 0, ac_gid = ''0'', ac_gecos = [],
        ac_home = ''/root'', ac_shell = ''/bin/bash''\<rparr>,
      \<lparr>ac_name = ''bob'', ac_password = ''x'', ac_uid_text = ''1001'', ac_uid = 1001, ac_gid = ''1'',
        ac_gecos = ''Bob B,room 1'', ac_home = ''/home/bob'', ac_shell = ''/bin/bash''\<rparr>,
      \<lparr>ac_name = ''ann'', ac_password = ''x'', ac_uid_text = ''1000'', ac_uid = 1000, ac_gid = ''1'', ac_gecos = [],
        ac_home = ''/home/ann'', ac_shell = ''/bin/zsh''\<rparr>]"

definition demo_passwd :: passwd_env where
  "demo_passwd = \<lparr>pw_lines = Some (map passwd_line demo_accounts), pw_isSpace = (\<lambda>c. c = CHR '' ''),
     pw_toUInt = (\<lambda>s. if s = ''0'' then Some 0 else if s = ''1000'' then Some 1000 else if s = ''1001'' then Some 1001 else None),
     pw_exists = (\<lambda>p. False), pw_sort = isort\<rparr>"

theorem login_users_witness:
  "mset (map us_displayName (init_users demo_passwd)) = {# ''Bob B'', ''ann'' #} \<and>
   sorted_wrt (\<lambda>u v. us_uid u \<le> us_uid v) (init_users demo_passwd)"
proof -
  have lines: "pw_lines demo_passwd = Some (map passwd_line demo_accounts)" by (simp add: demo_passwd_def)
  have ok: "list_all (account_ok demo_passwd) demo_accounts"
    by code_simp
  have st: "sort_ok (pw_sort demo_passwd)" by (simp add: demo_passwd_def isort_ok)
  note all = login_users [OF lines ok st]
  have "map us_displayName (map listed_as (filter (can_login demo_passwd) demo_accounts)) = [''Bob B'', ''ann'']"
    by (simp add: demo_accounts_def can_login_def isValidShell_def VALID_SHELLS_def listed_as_def demo_passwd_def)
  then have "mset (map us_displayName (map listed_as (filter (can_login demo_passwd) demo_accounts))) = {# ''Bob B'', ''ann'' #}"
    by (simp only: mset.simps)
  moreover have "mset (map us_displayName (init_users demo_passwd)) =
      mset (map us_displayName (map listed_as (filter (can_login demo_passwd) demo_accounts)))"
    using all by (simp only: mset_map)
  ultimately show ?thesis using all by (simp only: simp_thms)
qed

end
