(* ===== verification/Wallpapers.thy ===== *)
theory Wallpapers
  imports RowModel
begin

text \<open>
  Wallpapers: the picker of the shell, desktop/shell/src/WallpaperModel.{h,cpp}, and the
  watcher of the compositor, desktop/compositor/src/WallpaperWatcher.{h,cpp}. QUrl is a
  parameter (\<open>url_ops\<close>); so are the directories at the time of a scan and the settings file.
\<close>

type_synonym url = string

record url_ops =
  ur_of :: "string \<Rightarrow> url"          \<comment> \<open>QUrl(text)\<close>
  ur_string :: "url \<Rightarrow> string"      \<comment> \<open>toString\<close>
  ur_local :: "path \<Rightarrow> url"         \<comment> \<open>QUrl::fromLocalFile\<close>


subsection \<open>The picker\<close>

record wall_entry =
  we_name :: string
  we_path :: path
  we_isUser :: bool

record wallpapers =
  wp_entries :: "wall_entry list"
  wp_current :: url
  wp_watches :: "path list"
  wp_reloading :: bool

record wall_file =
  wf_suffixLower :: string
  wf_completeBase :: string
  wf_absolutePath :: path

record wall_env =
  wv_home :: path
  wv_files :: "path \<Rightarrow> wall_file list option"   \<comment> \<open>readable files; None when the directory is missing\<close>

datatype wp_out = WpReset | WpCountChanged | WpCurrentChanged

definition kImageSuffixes :: "string list" where
  "kImageSuffixes = [''jpg'', ''jpeg'', ''png'', ''webp'', ''bmp'']"

definition system_dir :: path where
  "system_dir = ''/usr/share/niraos/wallpapers''"

definition user_dir :: "path \<Rightarrow> path" where
  "user_dir home = home @ ''/.local/share/niraos/wallpapers''"

definition addDir :: "wall_env \<Rightarrow> path \<Rightarrow> bool \<Rightarrow> wall_entry list \<Rightarrow> wall_entry list" where
  "addDir E dirPath isUser acc =
     (case wv_files E dirPath of
        None \<Rightarrow> acc
      | Some fs \<Rightarrow>
          acc @ map (\<lambda>f. \<lparr>we_name = wf_completeBase f, we_path = wf_absolutePath f, we_isUser = isUser\<rparr>)
            (filter (\<lambda>f. wf_suffixLower f \<in> set kImageSuffixes) fs))"

definition scanAll :: "wall_env \<Rightarrow> wallpapers \<Rightarrow> wallpapers \<times> wp_out list" where
  "scanAll E m =
     (m\<lparr>wp_entries := addDir E (user_dir (wv_home E)) True (addDir E system_dir False []), wp_reloading := False\<rparr>,
      [WpReset, WpCountChanged])"

definition wp_onDirectoryChanged :: "wall_env \<Rightarrow> wallpapers \<Rightarrow> wallpapers \<times> wp_out list" where
  "wp_onDirectoryChanged E m = (if wp_reloading m then (m, []) else scanAll E m)"

definition setCurrentWallpaper :: "url \<Rightarrow> wallpapers \<Rightarrow> wallpapers \<times> wp_out list" where
  "setCurrentWallpaper u m = (if u = wp_current m then (m, []) else (m\<lparr>wp_current := u\<rparr>, [WpCurrentChanged]))"

text \<open>The value of Shell/wallpaper in the settings is a string, empty when there is none.\<close>

definition saveCurrent :: "url_ops \<Rightarrow> wallpapers \<Rightarrow> string" where
  "saveCurrent U m = ur_string U (wp_current m)"

definition loadCurrent :: "url_ops \<Rightarrow> string \<Rightarrow> wallpapers \<Rightarrow> wallpapers \<times> wp_out list" where
  "loadCurrent U saved m = (if saved \<noteq> [] then setCurrentWallpaper (ur_of U saved) m else (m, []))"

text \<open>The constructor: \<open>E0\<close> are the directories it finds, \<open>E\<close> those after it has made the missing
  ones. The missing ones are made but not watched.\<close>

definition init_wallpapers :: "url_ops \<Rightarrow> wall_env \<Rightarrow> wall_env \<Rightarrow> string \<Rightarrow> wallpapers \<times> wp_out list" where
  "init_wallpapers U E0 E saved =
     (let dirs = [system_dir, user_dir (wv_home E0)];
          m0 = \<lparr>wp_entries = [], wp_current = [], wp_watches = filter (\<lambda>d. wv_files E0 d \<noteq> None) dirs, wp_reloading = False\<rparr>
      in
        case scanAll E m0 of (m1, o1) \<Rightarrow>
        case loadCurrent U saved m1 of (m2, o2) \<Rightarrow>
          if wp_current m2 = [] then
            (case setCurrentWallpaper (ur_of U ''file:///usr/share/niraos/wallpaper-default.jpg'') m2 of
               (m3, o3) \<Rightarrow> (m3, o1 @ o2 @ o3))
          else (m2, o1 @ o2))"

datatype wp_role = WpNameRole | WpPathRole | WpIsUserRole | WpOtherRole

definition wp_rowCount :: "wallpapers \<Rightarrow> nat option \<Rightarrow> nat" where
  "wp_rowCount m parent = (if parent \<noteq> None then 0 else length (wp_entries m))"

fun wp_cell :: "url_ops \<Rightarrow> wall_entry \<Rightarrow> wp_role \<Rightarrow> variant" where
  "wp_cell U e WpNameRole = VStr (we_name e)"
| "wp_cell U e WpPathRole = VUrl (ur_of U (''file://'' @ we_path e))"
| "wp_cell U e WpIsUserRole = VBool (we_isUser e)"
| "wp_cell U e WpOtherRole = VInvalid"

definition wp_data :: "url_ops \<Rightarrow> wallpapers \<Rightarrow> nat option \<Rightarrow> wp_role \<Rightarrow> variant" where
  "wp_data U m index role =
     (case index of
        None \<Rightarrow> VInvalid
      | Some row \<Rightarrow> if row \<ge> length (wp_entries m) then VInvalid else wp_cell U (wp_entries m ! row) role)"

definition wp_roleNames :: "(wp_role \<times> string) list" where
  "wp_roleNames = [(WpNameRole, ''name''), (WpPathRole, ''path''), (WpIsUserRole, ''isUser'')]"

interpretation wallpaper_items: item_model wp_entries wp_rowCount "wp_data U" "wp_cell U" wp_roleNames for U
  by unfold_locales (auto simp: wp_rowCount_def wp_data_def wp_roleNames_def)

datatype wp_event = WpDirectoryChanged wall_env | WpSet url | WpLoad string

fun wp_step :: "url_ops \<Rightarrow> wp_event \<Rightarrow> wallpapers \<Rightarrow> wallpapers \<times> wp_out list" where
  "wp_step U (WpDirectoryChanged E) m = wp_onDirectoryChanged E m"
| "wp_step U (WpSet u) m = setCurrentWallpaper u m"
| "wp_step U (WpLoad saved) m = loadCurrent U saved m"

definition wp_notifs :: "wp_out list \<Rightarrow> row_notif list" where
  "wp_notifs os = (if WpReset \<in> set os then [ModelReset] else [])"

interpretation wallpaper_rows:
  row_model wp_entries "\<lambda>e m. fst (wp_step (fst e) (snd e) m)" "\<lambda>e m. wp_notifs (snd (wp_step (fst e) (snd e) m))"
proof (unfold_locales)
  fix e :: "url_ops \<times> wp_event" and m
  show "replay (wp_entries (fst (wp_step (fst e) (snd e) m))) (wp_notifs (snd (wp_step (fst e) (snd e) m)))
      (wp_entries m) = wp_entries (fst (wp_step (fst e) (snd e) m))"
    by (cases e; cases "snd e") (simp_all add: wp_notifs_def wp_onDirectoryChanged_def scanAll_def loadCurrent_def
        setCurrentWallpaper_def)
qed

fun wp_run :: "url_ops \<Rightarrow> wp_event list \<Rightarrow> wallpapers \<Rightarrow> wallpapers" where
  "wp_run U [] m = m"
| "wp_run U (e # es) m = wp_run U es (fst (wp_step U e m))"

definition images :: "wall_env \<Rightarrow> path \<Rightarrow> path list" where
  "images E d =
     (case wv_files E d of None \<Rightarrow> []
      | Some fs \<Rightarrow> map wf_absolutePath (filter (\<lambda>f. wf_suffixLower f \<in> set kImageSuffixes) fs))"

lemma scanAll_paths:
  "map (\<lambda>e. (we_path e, we_isUser e)) (wp_entries (fst (scanAll E m))) =
     map (\<lambda>p. (p, False)) (images E system_dir) @ map (\<lambda>p. (p, True)) (images E (user_dir (wv_home E)))"
  by (auto simp: scanAll_def addDir_def images_def split: option.splits)

lemma wp_step_idle: "wp_reloading m = False \<Longrightarrow> wp_reloading (fst (wp_step U e m)) = False"
  by (cases e) (simp_all add: wp_onDirectoryChanged_def scanAll_def loadCurrent_def setCurrentWallpaper_def)

lemma wp_run_idle: "wp_reloading m = False \<Longrightarrow> wp_reloading (wp_run U es m) = False"
  by (induction es arbitrary: m) (simp_all add: wp_step_idle)

lemma init_entries:
  "wp_entries (fst (init_wallpapers U E0 E saved)) = wp_entries (fst (scanAll E m)) \<and>
   wp_reloading (fst (init_wallpapers U E0 E saved)) = False"
  by (auto simp: init_wallpapers_def Let_def scanAll_def loadCurrent_def setCurrentWallpaper_def)

lemma init_current:
  "wp_current (fst (init_wallpapers U E0 E saved)) =
     (if saved \<noteq> [] \<and> ur_of U saved \<noteq> [] then ur_of U saved
      else ur_of U ''file:///usr/share/niraos/wallpaper-default.jpg'')"
  by (auto simp: init_wallpapers_def Let_def scanAll_def loadCurrent_def setCurrentWallpaper_def)

text \<open>
  The picker shows the wallpapers there are and keeps the choice. Whatever has happened
  since the start, one more change of the directories leaves exactly the image files of the
  system directory and then of the user's in the list, the latter marked; and if the choice
  is saved, the next start comes up with it and with the images it finds.
\<close>

theorem wallpaper_choice_kept:
  assumes "m = wp_run U es (fst (init_wallpapers U E0 E1 saved))" and "wp_current m \<noteq> []"
    and "ur_string U (wp_current m) \<noteq> []" and "ur_of U (ur_string U (wp_current m)) = wp_current m"
  shows "let rows = (\<lambda>m. map (\<lambda>e. (we_path e, we_isUser e)) (wp_entries m));
      found = (\<lambda>E. map (\<lambda>p. (p, False)) (images E system_dir) @ map (\<lambda>p. (p, True)) (images E (user_dir (wv_home E))));
      m' = fst (wp_onDirectoryChanged E m); next_start = fst (init_wallpapers U E2 E3 (saveCurrent U m)) in
    rows m' = found E \<and> wp_current m' = wp_current m \<and>
    rows next_start = found E3 \<and> wp_current next_start = wp_current m"
proof -
  have "wp_reloading m = False"
    unfolding assms(1) by (rule wp_run_idle) (simp add: init_entries)
  then have changed: "fst (wp_onDirectoryChanged E m) = fst (scanAll E m)" by (simp add: wp_onDirectoryChanged_def)
  have "wp_current (fst (scanAll E m)) = wp_current m" by (simp add: scanAll_def)
  then show ?thesis
    unfolding Let_def changed using init_entries [of U E2 E3 "saveCurrent U m" m] scanAll_paths assms(2-4)
    by (simp add: init_current saveCurrent_def)
qed

definition demo_wall :: wall_env where
  "demo_wall = \<lparr>wv_home = ''/u'', wv_files = (\<lambda>d. if d = ''/usr/share/niraos/wallpapers''
     then Some [\<lparr>wf_suffixLower = ''png'', wf_completeBase = ''a'', wf_absolutePath = ''/s/a.png''\<rparr>,
                \<lparr>wf_suffixLower = ''txt'', wf_completeBase = ''b'', wf_absolutePath = ''/s/b.txt''\<rparr>] else None)\<rparr>"

definition demo_url :: url_ops where
  "demo_url = \<lparr>ur_of = (\<lambda>s. s), ur_string = (\<lambda>s. s), ur_local = (\<lambda>p. ''file://'' @ p)\<rparr>"

theorem wallpaper_choice_kept_witness:
  "let m = wp_run demo_url [WpSet ''file:///s/a.png''] (fst (init_wallpapers demo_url demo_wall demo_wall [])) in
   map we_path (wp_entries (fst (wp_onDirectoryChanged demo_wall m))) = [''/s/a.png''] \<and>
   wp_current (fst (init_wallpapers demo_url demo_wall demo_wall (saveCurrent demo_url m))) = ''file:///s/a.png''"
proof -
  let ?m = "wp_run demo_url [WpSet ''file:///s/a.png''] (fst (init_wallpapers demo_url demo_wall demo_wall []))"
  have cur: "wp_current ?m = ''file:///s/a.png''" by (simp add: setCurrentWallpaper_def)
  have id: "ur_string demo_url u = u" "ur_of demo_url u = u" for u by (simp_all add: demo_url_def)
  have im: "images demo_wall system_dir = [''/s/a.png'']" "images demo_wall (user_dir (wv_home demo_wall)) = []"
    by (simp_all add: images_def demo_wall_def system_dir_def user_dir_def kImageSuffixes_def)
  have "wp_current ?m \<noteq> []" and "ur_string demo_url (wp_current ?m) \<noteq> []"
    and "ur_of demo_url (ur_string demo_url (wp_current ?m)) = wp_current ?m"
    unfolding id cur by simp_all
  note all = wallpaper_choice_kept [OF refl this, of demo_wall demo_wall demo_wall]
  have paths: "map (\<lambda>e. (we_path e, we_isUser e)) es = [(x, False)] \<Longrightarrow> map we_path es = [x]" for es x by auto
  show ?thesis
    unfolding Let_def
  proof
    show "map we_path (wp_entries (fst (wp_onDirectoryChanged demo_wall ?m))) = [''/s/a.png'']"
      by (rule paths) (use all im in \<open>simp add: Let_def\<close>)
    show "wp_current (fst (init_wallpapers demo_url demo_wall demo_wall (saveCurrent demo_url ?m))) = ''file:///s/a.png''"
      using all cur by (simp add: Let_def)
  qed
qed

text \<open>Choosing a wallpaper does not save it: without a call of saveCurrent the next start comes up
  with the old one.\<close>

lemma choice_not_saved:
  assumes "saved \<noteq> []" and "ur_of U saved \<noteq> []"
  shows "wp_current (fst (setCurrentWallpaper u m)) = u \<and>
    wp_current (fst (init_wallpapers U E0 E saved)) = ur_of U saved"
  using assms by (simp add: setCurrentWallpaper_def init_current)

text \<open>A directory that is missing at the start is made and never watched.\<close>

lemma new_directory_not_watched:
  "wv_files E0 d = None \<Longrightarrow> d \<notin> set (wp_watches (wp_run U es (fst (init_wallpapers U E0 E saved))))"
proof -
  assume none: "wv_files E0 d = None"
  have "wp_watches (fst (wp_step U e m)) = wp_watches m" for e m
    by (cases e) (simp_all add: wp_onDirectoryChanged_def scanAll_def loadCurrent_def setCurrentWallpaper_def)
  then have "wp_watches (wp_run U es m) = wp_watches m" for m by (induction es arbitrary: m) simp_all
  moreover have "wp_watches (fst (init_wallpapers U E0 E saved)) =
      filter (\<lambda>d. wv_files E0 d \<noteq> None) [system_dir, user_dir (wv_home E0)]"
    by (simp add: init_wallpapers_def Let_def scanAll_def loadCurrent_def setCurrentWallpaper_def)
  ultimately show ?thesis using none by auto
qed


subsection \<open>The watcher of the compositor\<close>

record wall_watcher =
  ww_directoryPath :: path
  ww_wallpaperPath :: path
  ww_fallbackPath :: path
  ww_directories :: "path list"
  ww_files :: "path list"
  ww_cachedSource :: url

definition armWatches :: "(path \<Rightarrow> bool) \<Rightarrow> wall_watcher \<Rightarrow> wall_watcher" where
  "armWatches ex w =
     (let w1 = (if ex (ww_directoryPath w) \<and> ww_directoryPath w \<notin> set (ww_directories w)
                then w\<lparr>ww_directories := ww_directories w @ [ww_directoryPath w]\<rparr> else w)
      in if ex (ww_wallpaperPath w1) \<and> ww_wallpaperPath w1 \<notin> set (ww_files w1)
         then w1\<lparr>ww_files := ww_files w1 @ [ww_wallpaperPath w1]\<rparr> else w1)"

definition refreshCache :: "url_ops \<Rightarrow> (path \<Rightarrow> bool) \<Rightarrow> wall_watcher \<Rightarrow> wall_watcher" where
  "refreshCache U ex w =
     w\<lparr>ww_cachedSource := ur_local U (if ex (ww_wallpaperPath w) then ww_wallpaperPath w else ww_fallbackPath w)\<rparr>"

definition init_wall_watcher :: "url_ops \<Rightarrow> (path \<Rightarrow> bool) \<Rightarrow> wall_watcher" where
  "init_wall_watcher U ex =
     refreshCache U ex (armWatches ex
       \<lparr>ww_directoryPath = ''/var/lib/niraos/desktop'', ww_wallpaperPath = ''/var/lib/niraos/desktop/wallpaper.png'',
        ww_fallbackPath = ''/usr/share/niraos/wallpapers/default.png'', ww_directories = [], ww_files = [],
        ww_cachedSource = []\<rparr>)"

text \<open>The result is the new state; the signal wallpaperChanged is emitted every time.\<close>

definition onPathChanged :: "url_ops \<Rightarrow> (path \<Rightarrow> bool) \<Rightarrow> wall_watcher \<Rightarrow> wall_watcher" where
  "onPathChanged U ex w = refreshCache U ex (armWatches ex w)"

text \<open>A change on disk: a QFileSystemWatcher reports it if it watches the path, and drops the
  watches of paths that are gone.\<close>

definition disk_change :: "url_ops \<Rightarrow> (path \<Rightarrow> bool) \<times> path \<Rightarrow> wall_watcher \<Rightarrow> wall_watcher" where
  "disk_change U c w =
     (let ex = fst c; p = snd c;
          w1 = w\<lparr>ww_directories := filter ex (ww_directories w), ww_files := filter ex (ww_files w)\<rparr>
      in if p \<in> set (ww_directories w) \<or> p \<in> set (ww_files w) then onPathChanged U ex w1 else w1)"

definition ww_run :: "url_ops \<Rightarrow> ((path \<Rightarrow> bool) \<times> path) list \<Rightarrow> wall_watcher \<Rightarrow> wall_watcher" where
  "ww_run U cs w = fold (disk_change U) cs w"

definition ww_ok :: "url_ops \<Rightarrow> (path \<Rightarrow> bool) \<Rightarrow> wall_watcher \<Rightarrow> bool" where
  "ww_ok U ex w \<longleftrightarrow>
     ww_directoryPath w = ''/var/lib/niraos/desktop'' \<and>
     ww_wallpaperPath w = ''/var/lib/niraos/desktop/wallpaper.png'' \<and>
     ww_fallbackPath w = ''/usr/share/niraos/wallpapers/default.png'' \<and>
     ''/var/lib/niraos/desktop'' \<in> set (ww_directories w) \<and>
     (ex (ww_wallpaperPath w) \<longrightarrow> ww_wallpaperPath w \<in> set (ww_files w)) \<and>
     ww_cachedSource w = ur_local U (if ex (ww_wallpaperPath w) then ww_wallpaperPath w else ww_fallbackPath w)"

lemma ww_okE:
  assumes "ww_ok U ex w"
  obtains "ww_cachedSource w = ur_local U (if ex ''/var/lib/niraos/desktop/wallpaper.png''
      then ''/var/lib/niraos/desktop/wallpaper.png'' else ''/usr/share/niraos/wallpapers/default.png'')"
    and "''/var/lib/niraos/desktop'' \<in> set (ww_directories w)"
    and "ex ''/var/lib/niraos/desktop/wallpaper.png'' \<longrightarrow> ''/var/lib/niraos/desktop/wallpaper.png'' \<in> set (ww_files w)"
  using assms by (auto simp: ww_ok_def)

lemma armed_ok:
  assumes "ww_directoryPath w = ''/var/lib/niraos/desktop''"
    and "ww_wallpaperPath w = ''/var/lib/niraos/desktop/wallpaper.png''"
    and "ww_fallbackPath w = ''/usr/share/niraos/wallpapers/default.png''" and "ex ''/var/lib/niraos/desktop''"
  shows "ww_ok U ex (refreshCache U ex (armWatches ex w))"
  using assms by (simp add: ww_ok_def refreshCache_def armWatches_def Let_def)

text \<open>
  The desktop shows the installed wallpaper. If the directory of the action manager exists from
  the start of the compositor on, then after every change in it, in any order, the source
  shown is the installed wallpaper if there is one and the default otherwise, and the
  directory and the wallpaper are watched.
\<close>

theorem wallpaper_follows_disk:
  assumes "at_start ''/var/lib/niraos/desktop''" and "\<forall>c \<in> set cs. fst c ''/var/lib/niraos/desktop'' \<and> snd c = ''/var/lib/niraos/desktop''"
  shows "let ex = (if cs = [] then at_start else fst (last cs)); w = ww_run U cs (init_wall_watcher U at_start) in
    ww_cachedSource w = ur_local U (if ex ''/var/lib/niraos/desktop/wallpaper.png'' then ''/var/lib/niraos/desktop/wallpaper.png''
      else ''/usr/share/niraos/wallpapers/default.png'') \<and>
    ''/var/lib/niraos/desktop'' \<in> set (ww_directories w) \<and>
    (ex ''/var/lib/niraos/desktop/wallpaper.png'' \<longrightarrow> ''/var/lib/niraos/desktop/wallpaper.png'' \<in> set (ww_files w))"
proof -
  have "ww_ok U (if cs = [] then at_start else fst (last cs)) (ww_run U cs (init_wall_watcher U at_start))"
    using assms(2)
  proof (induction cs rule: rev_induct)
    case Nil
    then show ?case
      unfolding ww_run_def init_wall_watcher_def using assms(1) by (simp add: armed_ok)
  next
    case (snoc c cs)
    let ?w = "ww_run U cs (init_wall_watcher U at_start)"
    from snoc have "ww_ok U (if cs = [] then at_start else fst (last cs)) ?w" by simp
    with snoc.prems have "ww_ok U (fst c) (disk_change U c ?w)"
      by (auto simp: disk_change_def onPathChanged_def Let_def ww_ok_def [of U "if cs = [] then at_start else fst (last cs)"]
          intro!: armed_ok)
    then show ?case by (simp add: ww_run_def)
  qed
  then show ?thesis
    unfolding Let_def by (elim ww_okE) (intro conjI)
qed

theorem wallpaper_follows_disk_witness:
  "ww_cachedSource (ww_run demo_url [(\<lambda>p. True, ''/var/lib/niraos/desktop'')]
     (init_wall_watcher demo_url (\<lambda>p. p = ''/var/lib/niraos/desktop''))) =
   ''file:///var/lib/niraos/desktop/wallpaper.png''"
proof -
  have "(\<lambda>p. p = ''/var/lib/niraos/desktop'') ''/var/lib/niraos/desktop''" by simp
  from wallpaper_follows_disk [where at_start = "\<lambda>p. p = ''/var/lib/niraos/desktop''" and U = demo_url
      and cs = "[(\<lambda>p. True, ''/var/lib/niraos/desktop'')]"]
  show ?thesis by (simp add: Let_def demo_url_def)
qed

text \<open>If the directory is missing when the compositor starts, nothing is ever watched and an
  installed wallpaper is never shown.\<close>

lemma late_directory_ignored:
  assumes "\<not> at_start ''/var/lib/niraos/desktop''" and "\<not> at_start ''/var/lib/niraos/desktop/wallpaper.png''"
  shows "ww_cachedSource (ww_run U cs (init_wall_watcher U at_start)) = ur_local U ''/usr/share/niraos/wallpapers/default.png''"
proof -
  have "ww_directories (ww_run U cs (init_wall_watcher U at_start)) = [] \<and> ww_files (ww_run U cs (init_wall_watcher U at_start)) = [] \<and>
      ww_cachedSource (ww_run U cs (init_wall_watcher U at_start)) = ur_local U ''/usr/share/niraos/wallpapers/default.png''"
    using assms by (induction cs rule: rev_induct)
      (simp_all add: ww_run_def init_wall_watcher_def armWatches_def refreshCache_def disk_change_def Let_def)
  then show ?thesis by simp
qed

end
