(* ===== verification/Notepad.thy ===== *)
theory Notepad
  imports Qfs RowModel
begin

text \<open>
  The files of the notepad, class FileDialogHelper and main of apps/notepad/src/main.cpp. The
  file system is the parameter of \<^theory_text>\<open>Qfs\<close>; \<open>note_io\<close> adds writing and reading a text, which
  Qfs does not have. Messages are values of \<open>note_error\<close>, one constructor per message.
\<close>

datatype put_result = PutNotOpened string | PutFailed string | PutDone
datatype get_result = GetNotOpened string | GetFailed string | GetDone string

record 'fs note_io =
  nf_put :: "'fs \<Rightarrow> path \<Rightarrow> string \<Rightarrow> put_result \<times> 'fs"   \<comment> \<open>open truncated, write, flush, close\<close>
  nf_get :: "'fs \<Rightarrow> path \<Rightarrow> get_result"                \<comment> \<open>open as text, read all, check the status\<close>
  nf_size :: "'fs \<Rightarrow> path \<Rightarrow> int"
  nf_isFile :: "'fs \<Rightarrow> path \<Rightarrow> bool"
  nf_mime :: "'fs \<Rightarrow> path \<Rightarrow> string"

datatype note_error =
    EmptyPath
  | CouldNotWrite path string
  | FailedWriting path string
  | CouldNotReplace path
  | CouldNotFinalize path
  | NoSuchFile path
  | TooLarge int
  | CouldNotOpen path string
  | ReadError path string

definition too_large :: int where
  "too_large = 32 * 1024 * 1024"

record read_result =
  rr_success :: bool
  rr_content :: string
  rr_size :: "int option"
  rr_too_large :: bool
  rr_error :: "note_error option"

definition readFile :: "'fs qfs \<Rightarrow> 'fs note_io \<Rightarrow> path \<Rightarrow> 'fs \<Rightarrow> read_result" where
  "readFile Q N p s =
     (if \<not> fExists Q s p then
        \<lparr>rr_success = False, rr_content = [], rr_size = None, rr_too_large = False, rr_error = Some (NoSuchFile p)\<rparr>
      else
        let n = nf_size N s p;
            failed = (\<lambda>big e. \<lparr>rr_success = False, rr_content = [], rr_size = Some n, rr_too_large = big, rr_error = Some e\<rparr>)
        in if n > too_large then failed True (TooLarge (n div (1024 * 1024)))
        else
          (case nf_get N s p of
             GetNotOpened e \<Rightarrow> failed False (CouldNotOpen p e)
           | GetFailed e \<Rightarrow> failed False (ReadError p e)
           | GetDone c \<Rightarrow>
               \<lparr>rr_success = True, rr_content = c, rr_size = Some n, rr_too_large = False, rr_error = None\<rparr>))"

definition tmp_of :: "'fs qfs \<Rightarrow> path \<Rightarrow> path" where
  "tmp_of Q p = pAbs Q p @ ''.nira-tmp''"

definition writeFile ::
  "'fs qfs \<Rightarrow> 'fs note_io \<Rightarrow> path \<Rightarrow> string \<Rightarrow> 'fs \<Rightarrow> bool \<times> note_error option \<times> 'fs" where
  "writeFile Q N p content s =
     (if p = [] then (False, Some EmptyPath, s)
      else
        let tmp = tmp_of Q p in
        (case nf_put N s tmp content of
           (PutNotOpened e, s1) \<Rightarrow> (False, Some (CouldNotWrite p e), s1)
         | (PutFailed e, s1) \<Rightarrow> (False, Some (FailedWriting p e), snd (fRemove Q s1 tmp))
         | (PutDone, s1) \<Rightarrow>
             (case (if fExists Q s1 p then fRemove Q s1 p else (True, s1)) of
                (False, s2) \<Rightarrow> (False, Some (CouldNotReplace p), snd (fRemove Q s2 tmp))
              | (True, s2) \<Rightarrow>
                  (case fRename Q s2 tmp p of
                     (False, s3) \<Rightarrow> (False, Some (CouldNotFinalize p), snd (fRemove Q s3 tmp))
                   | (True, s3) \<Rightarrow> (True, None, s3)))))"

definition note_fileExists :: "'fs qfs \<Rightarrow> 'fs note_io \<Rightarrow> path \<Rightarrow> 'fs \<Rightarrow> bool" where
  "note_fileExists Q N p s \<longleftrightarrow> fExists Q s p \<and> nf_isFile N s p"

definition note_fileSize :: "'fs qfs \<Rightarrow> 'fs note_io \<Rightarrow> path \<Rightarrow> 'fs \<Rightarrow> int" where
  "note_fileSize Q N p s = (if fExists Q s p then nf_size N s p else -1)"

definition note_mimeType :: "'fs qfs \<Rightarrow> 'fs note_io \<Rightarrow> path \<Rightarrow> 'fs \<Rightarrow> string" where
  "note_mimeType Q N p s = (if \<not> fExists Q s p then [] else nf_mime N s p)"

text \<open>\<open>suffix\<close> is the suffix of the path in lower case.\<close>

definition languageForFile :: "string \<Rightarrow> string" where
  "languageForFile suffix =
     (if suffix = ''cpp'' \<or> suffix = ''cxx'' \<or> suffix = ''cc'' then ''cpp''
      else if suffix = ''h'' \<or> suffix = ''hpp'' then ''cpp''
      else if suffix = ''c'' then ''c''
      else if suffix = ''rs'' then ''rust''
      else if suffix = ''py'' then ''python''
      else if suffix = ''qml'' then ''qml''
      else if suffix = ''js'' \<or> suffix = ''mjs'' then ''js''
      else if suffix = ''json'' then ''json''
      else if suffix = ''sh'' \<or> suffix = ''bash'' then ''sh''
      else [])"

text \<open>The file named on the command line: the first argument that is not an option.\<close>

fun initialFile :: "(path \<Rightarrow> path) \<Rightarrow> string list \<Rightarrow> path" where
  "initialFile absolute [] = []"
| "initialFile absolute (a # as) = (if \<not> starts_with a ''-'' then absolute a else initialFile absolute as)"


subsection \<open>Saving\<close>

text \<open>What writing and reading promise: a write that fails touches at most its own file; text
  without carriage returns is read as it is stored.\<close>

definition note_laws :: "(path \<Rightarrow> bool) \<Rightarrow> ('fs \<Rightarrow> path \<Rightarrow> node option) \<Rightarrow> 'fs note_io \<Rightarrow> bool" where
  "note_laws canon node_at N \<longleftrightarrow>
     (\<forall>s p c s'. canon p \<longrightarrow> nf_put N s p c = (PutDone, s') \<longrightarrow> node_at s' = (node_at s)(p \<mapsto> File c)) \<and>
     (\<forall>s p c e s'. canon p \<longrightarrow> nf_put N s p c = (PutNotOpened e, s') \<longrightarrow> node_at s' = node_at s) \<and>
     (\<forall>s p c e s' q. canon p \<longrightarrow> nf_put N s p c = (PutFailed e, s') \<longrightarrow> q \<noteq> p \<longrightarrow> node_at s' q = node_at s q) \<and>
     (\<forall>s p c. canon p \<longrightarrow> node_at s p = Some (File c) \<longrightarrow> CHR 0x0D \<notin> set c \<longrightarrow>
        nf_get N s p = GetDone c)"

lemma note_lawsD:
  assumes "note_laws canon node_at N" and "canon p"
  shows "nf_put N s p c = (PutDone, s') \<Longrightarrow> node_at s' = (node_at s)(p \<mapsto> File c)"
    and "nf_put N s p c = (PutNotOpened e, s') \<Longrightarrow> node_at s' = node_at s"
    and "nf_put N s p c = (PutFailed e, s') \<Longrightarrow> q \<noteq> p \<Longrightarrow> node_at s' q = node_at s q"
    and "node_at s p = Some (File c) \<Longrightarrow> CHR 0x0D \<notin> set c \<Longrightarrow> nf_get N s p = GetDone c"
  using assms unfolding note_laws_def by blast+

lemma remove_elsewhere:
  assumes "qfs_laws Q canon node_at hidden" and "canon p" and "q \<noteq> p"
  shows "node_at (snd (fRemove Q s p)) q = node_at s q"
proof (cases "fRemove Q s p")
  case (Pair b s')
  then show ?thesis using qfs_remove(1,2) [OF assms(1,2)] assms(3) by (cases b) auto
qed

text \<open>The steps after the temporary file was written: \<open>s1\<close> differs from \<open>s\<close> only at it.\<close>

lemma finish_save:
  assumes laws: "qfs_laws Q canon node_at hidden" and cp: "canon p" and ct: "canon t" and ne: "t \<noteq> p"
    and s1: "node_at s1 = (node_at s)(t \<mapsto> File content)"
    and done_save: "(case (if fExists Q s1 p then fRemove Q s1 p else (True, s1)) of
                (False, s2) \<Rightarrow> (False, Some (CouldNotReplace p), snd (fRemove Q s2 t))
              | (True, s2) \<Rightarrow>
                  (case fRename Q s2 t p of
                     (False, s3) \<Rightarrow> (False, Some (CouldNotFinalize p), snd (fRemove Q s3 t))
                   | (True, s3) \<Rightarrow> (True, None, s3))) = (ok, err, s')"
  shows "if ok then node_at s' = (node_at s)(t := None, p \<mapsto> File content)
    else (\<forall>q. q \<noteq> p \<longrightarrow> q \<noteq> t \<longrightarrow> node_at s' q = node_at s q) \<and>
      (node_at s' p = node_at s p \<or> err = Some (CouldNotFinalize p))"
proof (cases "if fExists Q s1 p then fRemove Q s1 p else (True, s1)")
  case (Pair b s2)
  show ?thesis
  proof (cases b)
    case False
    with Pair have "fRemove Q s1 p = (False, s2)" by (simp split: if_splits)
    then have "node_at s2 = node_at s1" by (rule qfs_remove(2) [OF laws cp])
    moreover from Pair False done_save have "ok = False" "s' = snd (fRemove Q s2 t)" by auto
    ultimately show ?thesis using remove_elsewhere [OF laws ct, of _ s2] s1 ne by simp
  next
    case True
    have s2: "node_at s2 q = node_at s1 q" if "q \<noteq> p" for q
      using Pair True that qfs_remove(1) [OF laws cp, of s1 s2] by (auto split: if_splits)
    obtain r s3 where r: "fRename Q s2 t p = (r, s3)" by fastforce
    show ?thesis
    proof (cases r)
      case True
      with Pair \<open>b\<close> r done_save have ok: "ok = True" "s' = s3" by auto
      have "node_at s2 t = Some (File content)" using s2 [OF ne] s1 by simp
      moreover have "fRename Q s2 t p = (True, s3)" using r True by simp
      ultimately have "node_at s3 = (node_at s2)(t := None, p \<mapsto> File content)"
        using qfs_rename(2) [OF laws ct cp] by blast
      with s2 s1 ne ok show ?thesis by (auto simp: fun_eq_iff)
    next
      case False
      with Pair \<open>b\<close> r done_save have res: "ok = False" "err = Some (CouldNotFinalize p)" "s' = snd (fRemove Q s3 t)"
        by auto
      from r False have "fRename Q s2 t p = (False, s3)" by simp
      then have "node_at s3 = node_at s2" by (rule qfs_rename(3) [OF laws ct cp])
      with res s2 s1 remove_elsewhere [OF laws ct, of _ s3] show ?thesis by auto
    qed
  qed
qed

text \<open>
  C31. Saving keeps the user's work. A save that reports success has put the text into the file,
  left no temporary file (the file's name with \<open>.nira-tmp\<close>) and changed nothing else, and opening the
  file gives the text back if it has no carriage returns and the file is within 32 MiB. A save that
  reports failure leaves every file other than the temporary one and the saved one as it was, and
  the saved one too unless the error is that the new file could not be put in its place. (A file
  that already has the temporary name is overwritten or removed.)
\<close>

theorem save_keeps_work:
  assumes "qfs_laws Q canon node_at hidden" and "note_laws canon node_at N"
    and "canon p" and "pAbs Q p = p" and "canon (tmp_of Q p)"
    and "writeFile Q N p content s = (ok, err, s')"
  shows "if ok then
      node_at s' = (node_at s)(tmp_of Q p := None, p \<mapsto> File content) \<and>
      (CHR 0x0D \<notin> set content \<and> nf_size N s' p \<le> too_large \<longrightarrow>
         rr_success (readFile Q N p s') \<and> rr_content (readFile Q N p s') = content)
    else (\<forall>q. q \<noteq> p \<longrightarrow> q \<noteq> tmp_of Q p \<longrightarrow> node_at s' q = node_at s q) \<and>
      (node_at s' p = node_at s p \<or> err = Some (CouldNotFinalize p))"
proof (cases "p = []")
  case True
  with assms(6) show ?thesis by (auto simp: writeFile_def)
next
  case False
  let ?t = "tmp_of Q p"
  have ne: "?t \<noteq> p" using assms(4) by (simp add: tmp_of_def)
  note put = note_lawsD [OF assms(2,5), where c = content and s = s]
  obtain r s1 where r: "nf_put N s ?t content = (r, s1)" by fastforce
  show ?thesis
  proof (cases r)
    case (PutNotOpened e)
    with False r assms(6) have "ok = False" "s' = s1" by (auto simp: writeFile_def Let_def)
    with put(2) r PutNotOpened show ?thesis by simp
  next
    case (PutFailed e)
    with False r assms(6) have "ok = False" "s' = snd (fRemove Q s1 ?t)" by (auto simp: writeFile_def Let_def)
    with put(3) r PutFailed remove_elsewhere [OF assms(1,5), of _ s1] ne show ?thesis by auto
  next
    case PutDone
    have s1: "node_at s1 = (node_at s)(?t \<mapsto> File content)" using put(1) r PutDone by blast
    have "(case (if fExists Q s1 p then fRemove Q s1 p else (True, s1)) of
                (False, s2) \<Rightarrow> (False, Some (CouldNotReplace p), snd (fRemove Q s2 ?t))
              | (True, s2) \<Rightarrow>
                  (case fRename Q s2 ?t p of
                     (False, s3) \<Rightarrow> (False, Some (CouldNotFinalize p), snd (fRemove Q s3 ?t))
                   | (True, s3) \<Rightarrow> (True, None, s3))) = (ok, err, s')"
      using assms(6) r PutDone False by (simp add: writeFile_def Let_def)
    note fin = finish_save [OF assms(1,3,5) ne s1 this]
    show ?thesis
    proof (cases ok)
      case True
      with fin have at: "node_at s' = (node_at s)(?t := None, p \<mapsto> File content)" by simp
      then have f: "node_at s' p = Some (File content)" by simp
      from qfs_queries(1) [OF assms(1,3), of s'] f have "fExists Q s' p" by simp
      with note_lawsD(4) [OF assms(2,3) f] at True show ?thesis by (auto simp: readFile_def Let_def)
    qed (use fin in simp)
  qed
qed

definition mem_io :: "mem note_io" where
  "mem_io = \<lparr>nf_put = (\<lambda>s p c. if map_of s p = Some Dir then (PutNotOpened ''Is a directory'', s) else (PutDone, (p, File c) # mem_del s p)),
     nf_get = (\<lambda>s p. case map_of s p of Some (File c) \<Rightarrow> GetDone c | _ \<Rightarrow> GetNotOpened ''cannot open''),
     nf_size = (\<lambda>s p. case map_of s p of Some (File c) \<Rightarrow> int (length c) | _ \<Rightarrow> 0),
     nf_isFile = (\<lambda>s p. case map_of s p of Some (File c) \<Rightarrow> True | _ \<Rightarrow> False), nf_mime = (\<lambda>s p. ''text/plain'')\<rparr>"

lemma mem_io_laws: "note_laws mem_canon map_of mem_io"
  by (auto simp: note_laws_def mem_io_def split: if_splits)

theorem save_keeps_work_witness:
  "rr_content (readFile mem_fs mem_io ''/n'' (snd (snd (writeFile mem_fs mem_io ''/n'' ''new'' [(''/n'', File ''old'')])))) = ''new''"
proof -
  let ?s = "[(''/n'', File ''old'')]"
  obtain ok err s' where w: "writeFile mem_fs mem_io ''/n'' ''new'' ?s = (ok, err, s')" by (metis prod_cases3)
  then have ok: ok by (auto simp: writeFile_def mem_fs_def mem_io_def tmp_of_def Let_def mem_del_def)
  have can: "mem_canon ''/n''" "pAbs mem_fs ''/n'' = ''/n''" "mem_canon (tmp_of mem_fs ''/n'')"
    by (simp_all add: mem_canon_def mem_fs_def tmp_of_def)
  from can w ok have "map_of s' ''/n'' = Some (File ''new'')"
    using save_keeps_work [OF mem_fs_laws mem_io_laws, of "''/n''" "''new''" ?s ok err s'] by simp
  then have "nf_size mem_io s' ''/n'' \<le> too_large" by (simp add: mem_io_def too_large_def)
  with can ok show ?thesis using save_keeps_work [OF mem_fs_laws mem_io_laws, of "''/n''" "''new''" ?s ok err s'] w
    by simp
qed

text \<open>If the renaming fails, the file and the text are both gone: the old file was removed
  before, and the temporary file is removed then.\<close>

lemma failed_rename_loses_both:
  assumes "qfs_laws Q canon node_at hidden" and "note_laws canon node_at N"
    and "canon p" and "pAbs Q p = p" and "canon (tmp_of Q p)" and "p \<noteq> []"
    and "nf_put N s (tmp_of Q p) content = (PutDone, s1)" and "node_at s p = Some (File old)"
    and "fRemove Q s1 p = (True, s2)" and "fRename Q s2 (tmp_of Q p) p = (False, s3)"
    and "fRemove Q s3 (tmp_of Q p) = (True, s4)"
  shows "writeFile Q N p content s = (False, Some (CouldNotFinalize p), s4) \<and>
    node_at s4 p = None \<and> node_at s4 (tmp_of Q p) = None"
proof -
  have ne: "tmp_of Q p \<noteq> p" using assms(4) by (simp add: tmp_of_def)
  have "node_at s1 = (node_at s)(tmp_of Q p \<mapsto> File content)" using note_lawsD(1) [OF assms(2,5,7)] .
  then have "fExists Q s1 p" using qfs_queries(1) [OF assms(1,3), of s1] assms(8) ne by simp
  moreover have "node_at s2 = (node_at s1)(p := None)" using qfs_remove(1) [OF assms(1,3,9)] .
  moreover have "node_at s3 = node_at s2" using qfs_rename(3) [OF assms(1,5,3,10)] .
  moreover have "node_at s4 = (node_at s3)(tmp_of Q p := None)" using qfs_remove(1) [OF assms(1,5,11)] .
  ultimately show ?thesis using assms(6,7,9,10,11) by (simp add: writeFile_def Let_def)
qed


subsection \<open>Recent files\<close>

function while_long :: "path list \<Rightarrow> path list" where
  "while_long xs = (if length xs > 10 then while_long (butlast xs) else xs)"
  by auto

termination
  by (relation "measure length") auto

declare while_long.simps [simp del]

text \<open>The stored list after the operation, and whether recentFilesChanged is emitted.\<close>

definition addRecentFile :: "path \<Rightarrow> path list \<Rightarrow> path list \<times> bool" where
  "addRecentFile p stored =
     (if p = [] then (stored, False) else (while_long (p # removeAll p stored), True))"

definition clearRecentFiles :: "path list \<Rightarrow> path list \<times> bool" where
  "clearRecentFiles stored = ([], True)"

definition recentFiles :: "path list \<Rightarrow> path list" where
  "recentFiles stored = stored"

lemma while_long_take: "while_long xs = take 10 xs"
proof (induction xs rule: while_long.induct)
  case (1 xs)
  then show ?case
    by (cases "10 < length xs"; subst while_long.simps) (auto simp: butlast_conv_take min_absorb1)
qed

lemma take_removeAll:
  "distinct xs \<Longrightarrow> take n (removeAll x (take (Suc n) xs)) = take n (removeAll x xs)"
proof (induction xs arbitrary: n)
  case Nil
  then show ?case by simp
next
  case (Cons y ys)
  show ?case
  proof (cases "y = x")
    case True
    with Cons.prems have "x \<notin> set ys" and "x \<notin> set (take n ys)" by (auto dest: in_set_takeD)
    then have "removeAll x ys = ys" and "removeAll x (take n ys) = take n ys" by (simp_all add: removeAll_id)
    with True show ?thesis by simp
  next
    case False
    with Cons show ?thesis by (cases n) auto
  qed
qed

lemma rev_remdups_snoc: "rev (remdups (ps @ [p])) = p # removeAll p (rev (remdups ps))"
  by (induction ps) (auto simp: removeAll_filter_not_eq)

datatype recent_op = AddRecent path | ClearRecent

fun recent_run :: "recent_op list \<Rightarrow> path list \<Rightarrow> path list" where
  "recent_run [] l = l"
| "recent_run (AddRecent p # es) l = recent_run es (fst (addRecentFile p l))"
| "recent_run (ClearRecent # es) l = recent_run es (fst (clearRecentFiles l))"

text \<open>What was opened since the list was last cleared, oldest first.\<close>

fun opened :: "path list \<Rightarrow> recent_op list \<Rightarrow> path list" where
  "opened acc [] = acc"
| "opened acc (AddRecent p # es) = opened (if p = [] then acc else acc @ [p]) es"
| "opened acc (ClearRecent # es) = opened [] es"

text \<open>
  The recent files are the last ten. After any sequence of openings and clearings the list
  holds the paths opened since it was last cleared, each once, the one opened last first, and
  at most ten of them.
\<close>

theorem recent_files_are_last_ten:
  "recentFiles (recent_run es []) = take 10 (rev (remdups (opened [] es)))"
proof -
  have add: "fst (addRecentFile p (take 10 (rev (remdups acc)))) = take 10 (rev (remdups (acc @ [p])))" if "p \<noteq> []" for p acc
    using that take_removeAll [of "rev (remdups acc)" 9 p]
    by (simp add: addRecentFile_def while_long_take rev_remdups_snoc del: remdups_append)
  have "recent_run es (take 10 (rev (remdups acc))) = take 10 (rev (remdups (opened acc es)))" for acc
  proof (induction es arbitrary: acc)
    case Nil
    then show ?case by simp
  next
    case (Cons e es)
    show ?case
    proof (cases e)
      case (AddRecent p)
      then show ?thesis
        using Cons [of acc] Cons [of "acc @ [p]"] add [of p acc] by (cases "p = []") (simp_all add: addRecentFile_def)
    next
      case ClearRecent
      then show ?thesis using Cons [of "[]"] by (simp add: clearRecentFiles_def)
    qed
  qed
  from this [of "[]"] show ?thesis by (simp add: recentFiles_def)
qed

end
