(* ===== verification/Highlighter.thy ===== *)
theory Highlighter
  imports Prelude
begin

text \<open>
  The syntax highlighter of the notepad, class SyntaxHighlighter of apps/notepad/src/main.cpp.
  The formats of one line of text (a block) are a list with an entry per character; where a
  regular expression matches is the argument \<open>gm\<close>. What Qt keeps per block is one number, the
  block state, -1 for a new block.
\<close>

datatype format = KeywordF | StringF | CommentF | NumberF

datatype pattern = WholeWord string | DoubleQuoted | SingleQuoted | Number

record highlighter =
  hl_rules :: "(pattern \<times> format) list"
  hl_lineComments :: "string list"
  hl_blockStart :: string
  hl_blockEnd :: string

definition init_highlighter :: highlighter where
  "init_highlighter = \<lparr>hl_rules = [], hl_lineComments = [], hl_blockStart = [], hl_blockEnd = []\<rparr>"

definition keywords_cpp :: "string list" where
  "keywords_cpp =
     [''alignas'', ''alignof'', ''and'', ''auto'', ''bool'', ''break'', ''case'', ''catch'', ''char'',
      ''class'', ''const'', ''constexpr'', ''continue'', ''decltype'', ''default'', ''delete'', ''do'',
      ''double'', ''else'', ''enum'', ''explicit'', ''export'', ''extern'', ''false'', ''float'',
      ''for'', ''friend'', ''goto'', ''if'', ''inline'', ''int'', ''long'', ''mutable'', ''namespace'',
      ''new'', ''noexcept'', ''nullptr'', ''operator'', ''or'', ''private'', ''protected'', ''public'',
      ''register'', ''reinterpret_cast'', ''return'', ''short'', ''signed'', ''sizeof'', ''static'',
      ''static_cast'', ''struct'', ''switch'', ''template'', ''this'', ''throw'', ''true'', ''try'',
      ''typedef'', ''typename'', ''union'', ''unsigned'', ''using'', ''virtual'', ''void'', ''volatile'',
      ''while'']"

definition keywords_rust :: "string list" where
  "keywords_rust =
     [''as'', ''async'', ''await'', ''break'', ''const'', ''continue'', ''crate'', ''dyn'', ''else'',
      ''enum'', ''extern'', ''false'', ''fn'', ''for'', ''if'', ''impl'', ''in'', ''let'', ''loop'',
      ''match'', ''mod'', ''move'', ''mut'', ''pub'', ''ref'', ''return'', ''self'', ''Self'',
      ''static'', ''struct'', ''super'', ''trait'', ''true'', ''type'', ''unsafe'', ''use'', ''where'',
      ''while'']"

definition keywords_python :: "string list" where
  "keywords_python =
     [''False'', ''None'', ''True'', ''and'', ''as'', ''assert'', ''async'', ''await'', ''break'',
      ''class'', ''continue'', ''def'', ''del'', ''elif'', ''else'', ''except'', ''finally'', ''for'',
      ''from'', ''global'', ''if'', ''import'', ''in'', ''is'', ''lambda'', ''nonlocal'', ''not'',
      ''or'', ''pass'', ''raise'', ''return'', ''try'', ''while'', ''with'', ''yield'']"

definition keywords_js :: "string list" where
  "keywords_js =
     [''var'', ''let'', ''const'', ''function'', ''return'', ''if'', ''else'', ''for'', ''while'',
      ''do'', ''switch'', ''case'', ''break'', ''continue'', ''new'', ''delete'', ''typeof'',
      ''instanceof'', ''in'', ''of'', ''this'', ''true'', ''false'', ''null'', ''undefined'', ''try'',
      ''catch'', ''finally'', ''throw'', ''class'', ''extends'', ''super'', ''import'', ''export'',
      ''default'', ''async'', ''await'', ''yield'', ''property'', ''alias'', ''signal'', ''Component'',
      ''on'', ''readonly'', ''id'']"

definition keywords_json :: "string list" where
  "keywords_json =
     [''true'', ''false'', ''null'']"

definition keywords_sh :: "string list" where
  "keywords_sh =
     [''if'', ''then'', ''else'', ''elif'', ''fi'', ''for'', ''do'', ''done'', ''while'', ''case'',
      ''esac'', ''function'', ''return'', ''local'', ''export'', ''unset'', ''echo'', ''printf'',
      ''read'', ''set'', ''shift'', ''in'']"

text \<open>Keywords, line comments, block start and block end of a language; \<open>None\<close> for a language
  that is not known.\<close>

definition language_rules :: "string \<Rightarrow> (string list \<times> string list \<times> string \<times> string) option" where
  "language_rules lang =
     (if lang \<in> {''cpp'', ''c'', ''h'', ''cxx'', ''hpp'', ''cc''} then Some (keywords_cpp, [''//''], ''/*'', ''*/'')
      else if lang \<in> {''rust'', ''rs''} then Some (keywords_rust, [''//''], ''/*'', ''*/'')
      else if lang \<in> {''python'', ''py''} then
        Some (keywords_python, [''#''], replicate 3 (CHR 0x22), replicate 3 (CHR 0x22))
      else if lang \<in> {''qml'', ''js'', ''javascript''} then Some (keywords_js, [''//''], ''/*'', ''*/'')
      else if lang = ''json'' then Some (keywords_json, [], [], [])
      else if lang \<in> {''sh'', ''bash'', ''shell''} then Some (keywords_sh, [''#''], [], [])
      else None)"

text \<open>\<open>lang\<close> is the language id in lower case.\<close>

definition setLanguage :: "string \<Rightarrow> highlighter \<Rightarrow> highlighter" where
  "setLanguage lang h =
     (case language_rules lang of
        None \<Rightarrow> h\<lparr>hl_rules := []\<rparr>
      | Some (keywords, lineComments, blockStart, blockEnd) \<Rightarrow>
          \<lparr>hl_rules = map (\<lambda>kw. (WholeWord kw, KeywordF)) keywords @
             [(DoubleQuoted, StringF), (SingleQuoted, StringF), (Number, NumberF)],
           hl_lineComments = lineComments, hl_blockStart = blockStart, hl_blockEnd = blockEnd\<rparr>)"

definition setFormat :: "nat \<Rightarrow> nat \<Rightarrow> format \<Rightarrow> format option list \<Rightarrow> format option list" where
  "setFormat start count f fs =
     map (\<lambda>i. if start \<le> i \<and> i < start + count then Some f else fs ! i) [0..<length fs]"

definition apply_rule ::
  "(pattern \<Rightarrow> string \<Rightarrow> (nat \<times> nat) list) \<Rightarrow> string \<Rightarrow> pattern \<times> format \<Rightarrow> format option list \<Rightarrow> format option list" where
  "apply_rule gm line r fs = fold (\<lambda>(start, count). setFormat start count (snd r)) (gm (fst r) line) fs"

fun first_comment :: "string list \<Rightarrow> string \<Rightarrow> nat option" where
  "first_comment [] line = None"
| "first_comment (lc # lcs) line = (case index_of lc line of Some idx \<Rightarrow> Some idx | None \<Rightarrow> first_comment lcs line)"

definition index_from :: "string \<Rightarrow> string \<Rightarrow> nat \<Rightarrow> nat option" where
  "index_from p s i = map_option ((+) i) (index_of p (drop i s))"

text \<open>The loop over the block comments of a line; \<open>None\<close> if \<open>fuel\<close> rounds are not enough.\<close>

primrec block_loop ::
  "nat \<Rightarrow> string \<Rightarrow> string \<Rightarrow> int \<Rightarrow> string \<Rightarrow> nat option \<Rightarrow> format option list \<Rightarrow> int
    \<Rightarrow> (format option list \<times> int) option" where
  "block_loop 0 bs be prev line start fs st = None"
| "block_loop (Suc fuel) bs be prev line start fs st =
     (case start of
        None \<Rightarrow> Some (fs, st)
      | Some a \<Rightarrow>
          (let e = (if prev = 1 \<and> a = 0 then index_of be line else index_from be line (a + length bs));
               count = (case e of Some i \<Rightarrow> i + length be - a | None \<Rightarrow> length line - a)
           in block_loop fuel bs be prev line (index_from bs line (a + count)) (setFormat a count CommentF fs)
                (case e of Some i \<Rightarrow> 0 | None \<Rightarrow> 1)))"

text \<open>One block: \<open>prev\<close> is the state of the block before, \<open>cur\<close> the state the block has; the result
  has the formats and the new state.\<close>

definition highlightBlock ::
  "(pattern \<Rightarrow> string \<Rightarrow> (nat \<times> nat) list) \<Rightarrow> highlighter \<Rightarrow> int \<Rightarrow> int \<Rightarrow> string \<Rightarrow> (format option list \<times> int) option" where
  "highlightBlock gm h prev cur line =
     (let fs = fold (apply_rule gm line) (hl_rules h) (replicate (length line) None) in
      case first_comment (hl_lineComments h) line of
        Some idx \<Rightarrow> Some (setFormat idx (length line - idx) CommentF fs, cur)
      | None \<Rightarrow>
          if hl_blockStart h \<noteq> [] then
            block_loop (length line + 2) (hl_blockStart h) (hl_blockEnd h) prev line
              (if prev \<noteq> 1 then index_of (hl_blockStart h) line else Some 0) fs cur
          else Some (fs, cur))"

text \<open>A document: the blocks are highlighted in order, each with the state the one before was
  left in.\<close>

fun rehighlight ::
  "(pattern \<Rightarrow> string \<Rightarrow> (nat \<times> nat) list) \<Rightarrow> highlighter \<Rightarrow> int \<Rightarrow> (string \<times> int) list \<Rightarrow> (format option list \<times> int) list option" where
  "rehighlight gm h prev [] = Some []"
| "rehighlight gm h prev ((line, cur) # blocks) =
     (case highlightBlock gm h prev cur line of
        None \<Rightarrow> None
      | Some (fs, st) \<Rightarrow> map_option ((#) (fs, st)) (rehighlight gm h st blocks))"

text \<open>A highlighter and the document it is set on, if any: \<open>attach\<close> does nothing without a document, and
  the factory gives every editor a highlighter of its own.\<close>

record editor_highlighter =
  eh_rules :: highlighter
  eh_document :: "nat option"

definition hl_attach :: "nat option \<Rightarrow> string \<Rightarrow> editor_highlighter \<Rightarrow> editor_highlighter" where
  "hl_attach qdoc lang h =
     (case qdoc of
        None \<Rightarrow> h
      | Some doc \<Rightarrow> h\<lparr>eh_rules := setLanguage lang (eh_rules h), eh_document := Some doc\<rparr>)"

definition hl_detach :: "editor_highlighter \<Rightarrow> editor_highlighter" where
  "hl_detach h = h\<lparr>eh_document := None\<rparr>"

definition createHighlighter :: "nat option \<Rightarrow> string \<Rightarrow> editor_highlighter" where
  "createHighlighter qdoc lang = hl_attach qdoc lang \<lparr>eh_rules = init_highlighter, eh_document = None\<rparr>"

lemma detach_then_attach:
  "hl_attach (Some doc) lang (hl_detach h) = hl_attach (Some doc) lang h"
  by (simp add: hl_attach_def hl_detach_def)


subsection \<open>Comments by the book\<close>

text \<open>The reference: read the text once from left to right, in a comment or not. \<open>skip\<close> counts the
  characters of a delimiter that are still to pass.\<close>

fun comment_mask :: "string \<Rightarrow> string \<Rightarrow> nat \<Rightarrow> bool \<Rightarrow> string \<Rightarrow> bool list" where
  "comment_mask bs be skip inside [] = []"
| "comment_mask bs be (Suc k) inside (c # cs) = True # comment_mask bs be k inside cs"
| "comment_mask bs be 0 True (c # cs) =
     True # (if starts_with (c # cs) be then comment_mask bs be (length be - 1) False cs else comment_mask bs be 0 True cs)"
| "comment_mask bs be 0 False (c # cs) =
     (if starts_with (c # cs) bs then True # comment_mask bs be (length bs - 1) True cs
      else False # comment_mask bs be 0 False cs)"

fun comment_state :: "string \<Rightarrow> string \<Rightarrow> nat \<Rightarrow> bool \<Rightarrow> string \<Rightarrow> bool" where
  "comment_state bs be skip inside [] = inside"
| "comment_state bs be (Suc k) inside (c # cs) = comment_state bs be k inside cs"
| "comment_state bs be 0 True (c # cs) =
     (if starts_with (c # cs) be then comment_state bs be (length be - 1) False cs else comment_state bs be 0 True cs)"
| "comment_state bs be 0 False (c # cs) =
     (if starts_with (c # cs) bs then comment_state bs be (length bs - 1) True cs else comment_state bs be 0 False cs)"

fun document_mask :: "string \<Rightarrow> string \<Rightarrow> bool \<Rightarrow> string list \<Rightarrow> bool list list" where
  "document_mask bs be inside [] = []"
| "document_mask bs be inside (l # ls) = comment_mask bs be 0 inside l # document_mask bs be (comment_state bs be 0 inside l) ls"

lemma mask_length [simp]: "length (comment_mask bs be k inside s) = length s"
  by (induction bs be k inside s rule: comment_mask.induct) simp_all

lemma mask_skip:
  "k \<le> length s \<Longrightarrow> comment_mask bs be k inside s = replicate k True @ comment_mask bs be 0 inside (drop k s) \<and>
     comment_state bs be k inside s = comment_state bs be 0 inside (drop k s)"
proof (induction k arbitrary: s)
  case 0
  then show ?case by simp
next
  case (Suc k)
  then obtain c cs where "s = c # cs" by (cases s) auto
  with Suc show ?case by simp
qed

lemma starts_with_length: "starts_with s p \<Longrightarrow> length p \<le> length s"
  by (auto simp: starts_with_iff)

text \<open>Inside a comment everything is coloured up to the end of the next closing delimiter.\<close>

lemma mask_inside:
  assumes "be \<noteq> []"
  shows "comment_mask bs be 0 True s = (case index_of be s of None \<Rightarrow> replicate (length s) True
      | Some e \<Rightarrow> replicate (e + length be) True @ comment_mask bs be 0 False (drop (e + length be) s)) \<and>
    comment_state bs be 0 True s = (case index_of be s of None \<Rightarrow> True
      | Some e \<Rightarrow> comment_state bs be 0 False (drop (e + length be) s))"
proof (induction s)
  case Nil
  then show ?case using assms by simp
next
  case (Cons c cs)
  show ?case
  proof (cases "starts_with (c # cs) be")
    case True
    obtain n where n: "length be = Suc n" using assms by (cases be) auto
    have "n \<le> length cs" using starts_with_length [OF True] n by simp
    from mask_skip [OF this] True n show ?thesis by simp
  next
    case False
    with Cons show ?thesis by (auto split: option.splits)
  qed
qed

text \<open>Outside, nothing is coloured before the next opening delimiter.\<close>

lemma mask_outside:
  assumes "bs \<noteq> []"
  shows "comment_mask bs be 0 False s = (case index_of bs s of None \<Rightarrow> replicate (length s) False
      | Some e \<Rightarrow> replicate e False @ replicate (length bs) True @ comment_mask bs be 0 True (drop (e + length bs) s)) \<and>
    comment_state bs be 0 False s = (case index_of bs s of None \<Rightarrow> False
      | Some e \<Rightarrow> comment_state bs be 0 True (drop (e + length bs) s))"
proof (induction s)
  case Nil
  then show ?case using assms by simp
next
  case (Cons c cs)
  show ?case
  proof (cases "starts_with (c # cs) bs")
    case True
    obtain n where n: "length bs = Suc n" using assms by (cases bs) auto
    have "n \<le> length cs" using starts_with_length [OF True] n by simp
    from mask_skip [OF this] True n show ?thesis by simp
  next
    case False
    with Cons show ?thesis by (auto split: option.splits)
  qed
qed


subsection \<open>The loop finds the comments of the book\<close>

lemma setFormat_length [simp]: "length (setFormat a n f fs) = length fs"
  by (simp add: setFormat_def)

lemma setFormat_nth [simp]:
  "i < length fs \<Longrightarrow> setFormat a n f fs ! i = (if a \<le> i \<and> i < a + n then Some f else fs ! i)"
  by (simp add: setFormat_def)

definition painted :: "nat \<Rightarrow> bool list \<Rightarrow> format option list \<Rightarrow> format option list \<Rightarrow> bool" where
  "painted p cols fs fs' \<longleftrightarrow> length fs' = length fs \<and>
     (\<forall>i<length fs. fs' ! i = (if i \<ge> p \<and> cols ! (i - p) then Some CommentF else fs ! i))"

lemma painted_none: "length fs = p + n \<Longrightarrow> painted p (replicate n False) fs fs"
  by (auto simp: painted_def)

lemma painted_rest: "length fs = p + j + n \<Longrightarrow>
  painted p (replicate j False @ replicate n True) fs (setFormat (p + j) n CommentF fs)"
  by (auto simp: painted_def nth_append)

lemma painted_step:
  assumes "painted (p + j + n) cols (setFormat (p + j) n CommentF fs) fs'"
  shows "painted p (replicate j False @ replicate n True @ cols) fs fs'"
  unfolding painted_def
proof (intro conjI allI impI)
  show len: "length fs' = length fs" using assms by (simp add: painted_def)
  fix i
  assume i: "i < length fs"
  then have fs': "fs' ! i = (if i \<ge> p + j + n \<and> cols ! (i - (p + j + n)) then Some CommentF
      else if p + j \<le> i \<and> i < p + j + n then Some CommentF else fs ! i)"
    using assms by (simp add: painted_def)
  have m: "(replicate j False @ replicate n True @ cols) ! (i - p) =
      (if i - p < j then False else if i - p < j + n then True else cols ! (i - p - j - n))"
    by (auto simp: nth_append)
  have d: "i - (p + j + n) = i - p - j - n" by simp
  show "fs' ! i = (if i \<ge> p \<and> (replicate j False @ replicate n True @ cols) ! (i - p) then Some CommentF else fs ! i)"
    unfolding fs' m d by auto
qed

lemma index_from_end: "bs \<noteq> [] \<Longrightarrow> index_from bs line (length line) = None"
  by (simp add: index_from_def)

lemma block_done: "block_loop (Suc fuel) bs be prev line None fs st = Some (fs, st)"
  by simp

lemma block_open:
  assumes "(if prev = 1 \<and> a = 0 then index_of be line else index_from be line (a + length bs)) = None"
  shows "block_loop (Suc fuel) bs be prev line (Some a) fs st =
    block_loop fuel bs be prev line (index_from bs line (a + (length line - a))) (setFormat a (length line - a) CommentF fs) 1"
  unfolding block_loop.simps option.case Let_def assms ..

lemma block_closed:
  assumes "(if prev = 1 \<and> a = 0 then index_of be line else index_from be line (a + length bs)) = Some i"
  shows "block_loop (Suc fuel) bs be prev line (Some a) fs st =
    block_loop fuel bs be prev line (index_from bs line (a + (i + length be - a))) (setFormat a (i + length be - a) CommentF fs) 0"
  unfolding block_loop.simps option.case Let_def assms ..

lemma loop_ok:
  assumes bs: "bs \<noteq> []" and be: "be \<noteq> []"
  shows "prev \<noteq> 1 \<or> 0 < p \<Longrightarrow> p \<le> length line \<Longrightarrow> length fs = length line \<Longrightarrow> length line - p + 2 \<le> fuel \<Longrightarrow>
    \<exists>fs'. block_loop fuel bs be prev line (index_from bs line p) fs st =
        Some (fs', if index_from bs line p = None then st else if comment_state bs be 0 False (drop p line) then 1 else 0) \<and>
      painted p (comment_mask bs be 0 False (drop p line)) fs fs'"
proof (induction fuel arbitrary: p fs st)
  case 0
  then show ?case by simp
next
  case (Suc fuel)
  note out = mask_outside [OF bs, of be "drop p line"]
  show ?case
  proof (cases "index_of bs (drop p line)")
    case None
    with out Suc.prems show ?thesis by (auto simp: index_from_def intro!: painted_none)
  next
    case (Some j)
    have "j + length bs \<le> length line - p" using index_of_Some [OF Some] by simp
    with \<open>p \<le> length line\<close> have j: "p + j + length bs \<le> length line" by linarith
    have start: "index_from bs line p = Some (p + j)" using Some by (simp add: index_from_def)
    let ?q = "p + j + length bs"
    have "\<not> (prev = 1 \<and> p + j = 0)" using Suc.prems(1) by auto
    then have later: "(if prev = 1 \<and> p + j = 0 then index_of be line else index_from be line ?q) = index_from be line ?q"
      by (rule if_not_P)
    have rest: "drop (j + length bs) (drop p line) = drop ?q line" by (simp add: add.commute add.left_commute)
    have out: "comment_mask bs be 0 False (drop p line) =
          replicate j False @ replicate (length bs) True @ comment_mask bs be 0 True (drop ?q line)"
      "comment_state bs be 0 False (drop p line) = comment_state bs be 0 True (drop ?q line)"
      using out unfolding Some option.case rest by blast+
    note inn = mask_inside [OF be, of bs "drop ?q line"]
    show ?thesis
    proof (cases "index_of be (drop ?q line)")
      case None
      then have e: "index_from be line ?q = None" by (simp add: index_from_def)
      obtain f where f: "fuel = Suc f" using Suc.prems(4) by (cases fuel) auto
      have mask: "comment_mask bs be 0 False (drop p line) = replicate j False @ replicate (length line - (p + j)) True"
      proof -
        have "length line - (p + j) = length bs + (length line - ?q)" using j by simp
        then show ?thesis using out(1) inn None by (simp add: replicate_add)
      qed
      have state: "comment_state bs be 0 False (drop p line)" using out(2) inn None by simp
      have next_start: "index_from bs line (p + j + (length line - (p + j))) = None" using j index_from_end [OF bs] by simp
      have "block_loop (Suc fuel) bs be prev line (index_from bs line p) fs st =
          Some (setFormat (p + j) (length line - (p + j)) CommentF fs, 1)"
        unfolding start block_open [OF trans [OF later e]] next_start f block_done ..
      moreover have "painted p (comment_mask bs be 0 False (drop p line)) fs (setFormat (p + j) (length line - (p + j)) CommentF fs)"
        unfolding mask using Suc.prems j by (intro painted_rest) simp
      ultimately show ?thesis using start state by simp
    next
      case (Some k)
      let ?n = "length bs + k + length be"
      have e: "index_from be line ?q = Some (?q + k)" using Some by (simp add: index_from_def)
      have "k + length be \<le> length line - ?q" using index_of_Some [OF Some] by simp
      with j have k: "?q + k + length be \<le> length line" by linarith
      have tail: "drop (k + length be) (drop ?q line) = drop (p + j + ?n) line"
        by (simp add: add.commute add.left_commute)
      have inn: "comment_mask bs be 0 True (drop ?q line) =
            replicate (k + length be) True @ comment_mask bs be 0 False (drop (p + j + ?n) line)"
        "comment_state bs be 0 True (drop ?q line) = comment_state bs be 0 False (drop (p + j + ?n) line)"
        using inn unfolding Some option.case tail by blast+
      have mask: "comment_mask bs be 0 False (drop p line) =
          replicate j False @ replicate ?n True @ comment_mask bs be 0 False (drop (p + j + ?n) line)"
        using out(1) inn(1) by (simp add: replicate_add)
      have state: "comment_state bs be 0 False (drop p line) = comment_state bs be 0 False (drop (p + j + ?n) line)"
        using out(2) inn(2) by simp
      have pos: "0 < length bs" "0 < length be" using bs be by simp_all
      have "\<exists>fs'. block_loop fuel bs be prev line (index_from bs line (p + j + ?n)) (setFormat (p + j) ?n CommentF fs) 0 =
          Some (fs', if index_from bs line (p + j + ?n) = None then 0
            else if comment_state bs be 0 False (drop (p + j + ?n) line) then 1 else 0) \<and>
        painted (p + j + ?n) (comment_mask bs be 0 False (drop (p + j + ?n) line)) (setFormat (p + j) ?n CommentF fs) fs'"
      proof (rule Suc.IH)
        show "prev \<noteq> 1 \<or> 0 < p + j + ?n" using pos by simp
        show "p + j + ?n \<le> length line" using k by simp
        show "length (setFormat (p + j) ?n CommentF fs) = length line" using Suc.prems(3) by simp
        show "length line - (p + j + ?n) + 2 \<le> fuel" using pos k Suc.prems(2,4) by linarith
      qed
      then obtain fs' where fs': "block_loop fuel bs be prev line (index_from bs line (p + j + ?n)) (setFormat (p + j) ?n CommentF fs) 0 =
          Some (fs', if index_from bs line (p + j + ?n) = None then 0
            else if comment_state bs be 0 False (drop (p + j + ?n) line) then 1 else 0)"
        and paint: "painted (p + j + ?n) (comment_mask bs be 0 False (drop (p + j + ?n) line)) (setFormat (p + j) ?n CommentF fs) fs'"
        by blast
      have "index_from bs line (p + j + ?n) = None \<Longrightarrow> \<not> comment_state bs be 0 False (drop (p + j + ?n) line)"
        using mask_outside [OF bs, of be "drop (p + j + ?n) line"] by (simp add: index_from_def)
      with fs' have "block_loop fuel bs be prev line (index_from bs line (p + j + ?n)) (setFormat (p + j) ?n CommentF fs) 0 =
          Some (fs', if comment_state bs be 0 False (drop p line) then 1 else 0)"
        unfolding state by (cases "index_from bs line (p + j + ?n) = None") simp_all
      moreover have cnt: "?q + k + length be - (p + j) = ?n" by simp
      ultimately have "block_loop (Suc fuel) bs be prev line (index_from bs line p) fs st =
          Some (fs', if comment_state bs be 0 False (drop p line) then 1 else 0)"
        unfolding start block_closed [OF trans [OF later e]] cnt by simp
      with painted_step [OF paint] start show ?thesis unfolding mask by simp
    qed
  qed
qed


subsection \<open>Lines and documents\<close>

definition hl_ok :: "highlighter \<Rightarrow> bool" where
  "hl_ok h \<longleftrightarrow> (hl_blockStart h = [] \<longleftrightarrow> hl_blockEnd h = []) \<and> (\<forall>r \<in> set (hl_rules h). snd r \<noteq> CommentF)"

lemma setLanguage_ok: "hl_ok h \<Longrightarrow> hl_ok (setLanguage lang h)"
  by (auto simp: hl_ok_def setLanguage_def language_rules_def split: option.splits if_splits)

lemma languages_ok: "hl_ok (fold setLanguage langs init_highlighter)"
  by (induction langs rule: rev_induct) (simp_all add: setLanguage_ok, simp add: hl_ok_def init_highlighter_def)

definition no_comment :: "format option list \<Rightarrow> bool" where
  "no_comment fs \<longleftrightarrow> Some CommentF \<notin> set fs"

lemma setFormat_no_comment: "no_comment fs \<Longrightarrow> f \<noteq> CommentF \<Longrightarrow> no_comment (setFormat a n f fs)"
  by (auto simp: no_comment_def in_set_conv_nth)

lemma apply_rule_keeps:
  assumes "snd r \<noteq> CommentF"
  shows "no_comment fs \<Longrightarrow> no_comment (apply_rule gm line r fs) \<and> length (apply_rule gm line r fs) = length fs"
proof -
  have "no_comment fs \<Longrightarrow> no_comment (fold (\<lambda>(a, n). setFormat a n (snd r)) ms fs) \<and>
      length (fold (\<lambda>(a, n). setFormat a n (snd r)) ms fs) = length fs" for ms
    by (induction ms arbitrary: fs) (auto simp: setFormat_no_comment [OF _ assms])
  then show "no_comment fs \<Longrightarrow> no_comment (apply_rule gm line r fs) \<and> length (apply_rule gm line r fs) = length fs"
    unfolding apply_rule_def .
qed

lemma apply_rules_keep:
  "\<forall>r \<in> set rs. snd r \<noteq> CommentF \<Longrightarrow> no_comment fs \<Longrightarrow>
    no_comment (fold (apply_rule gm line) rs fs) \<and> length (fold (apply_rule gm line) rs fs) = length fs"
  by (induction rs arbitrary: fs) (simp_all add: apply_rule_keeps)

lemma painted_comments:
  assumes "painted 0 cols fs fs'" and "no_comment fs"
  shows "length fs' = length fs" and "i < length fs \<Longrightarrow> fs' ! i = Some CommentF \<longleftrightarrow> cols ! i"
  using assms by (auto simp: painted_def no_comment_def in_set_conv_nth)

lemma loop_line:
  assumes bs: "bs \<noteq> []" and be: "be \<noteq> []" and len: "length fs = length line" and cur: "cur \<noteq> 1"
  shows "\<exists>fs' st. block_loop (length line + 2) bs be prev line
      (if prev \<noteq> 1 then index_of bs line else Some 0) fs cur = Some (fs', st) \<and>
    painted 0 (comment_mask bs be 0 (prev = 1) line) fs fs' \<and> (st = 1 \<longleftrightarrow> comment_state bs be 0 (prev = 1) line)"
proof (cases "prev = 1")
  case False
  have start: "index_from bs line 0 = index_of bs line" by (cases "index_of bs line") (simp_all add: index_from_def)
  have "index_of bs line = None \<Longrightarrow> \<not> comment_state bs be 0 False line"
    using mask_outside [OF bs, of be line] by simp
  with loop_ok [OF bs be, of prev 0 line fs "length line + 2" cur] False len cur start show ?thesis
    by (auto split: if_splits)
next
  case True
  note inn = mask_inside [OF be, of bs line]
  show ?thesis
  proof (cases "index_of be line")
    case None
    have nxt: "index_from bs line (0 + (length line - 0)) = None" using index_from_end [OF bs] by simp
    have e: "(if prev = 1 \<and> (0::nat) = 0 then index_of be line else index_from be line (0 + length bs)) = None"
      using None True by simp
    have "block_loop (length line + 2) bs be prev line (Some 0) fs cur = Some (setFormat 0 (length line - 0) CommentF fs, 1)"
      using block_open [OF e, of "Suc (length line)"] unfolding nxt block_done by simp
    moreover have "painted 0 (comment_mask bs be 0 True line) fs (setFormat 0 (length line - 0) CommentF fs)"
      using inn None len painted_rest [of fs 0 0 "length line"] by simp
    ultimately show ?thesis using True inn None by simp
  next
    case (Some i)
    define c where "c = i + length be - 0"
    have c: "0 < c" "c \<le> length line" using be index_of_Some [OF Some] by (simp_all add: c_def)
    have e: "(if prev = 1 \<and> (0::nat) = 0 then index_of be line else index_from be line (0 + length bs)) = Some i"
      using Some True by simp
    have "prev \<noteq> 1 \<or> 0 < c" and "length (setFormat 0 c CommentF fs) = length line"
      and "length line - c + 2 \<le> Suc (length line)" using c len by (simp, simp, linarith)
    from loop_ok [OF bs be this(1) c(2) this(2,3), of 0]
    obtain fs' where fs': "block_loop (Suc (length line)) bs be prev line (index_from bs line c) (setFormat 0 c CommentF fs) 0 =
        Some (fs', if index_from bs line c = None then 0 else if comment_state bs be 0 False (drop c line) then 1 else 0)"
      and paint: "painted c (comment_mask bs be 0 False (drop c line)) (setFormat 0 c CommentF fs) fs'" by blast
    have closed: "block_loop (length line + 2) bs be prev line (Some 0) fs cur =
        block_loop (Suc (length line)) bs be prev line (index_from bs line c) (setFormat 0 c CommentF fs) 0"
      using block_closed [OF e, of "Suc (length line)" fs cur] unfolding c_def add_0 by simp
    have none: "index_from bs line c = None \<Longrightarrow> \<not> comment_state bs be 0 False (drop c line)"
      using mask_outside [OF bs, of be "drop c line"] by (simp add: index_from_def)
    have inn: "comment_state bs be 0 True line = comment_state bs be 0 False (drop c line)"
      "comment_mask bs be 0 True line = replicate c True @ comment_mask bs be 0 False (drop c line)"
      using inn Some by (simp_all add: c_def)
    have "painted 0 (comment_mask bs be 0 True line) fs fs'"
      using painted_step [of 0 0 c, simplified, OF paint] inn(2) by simp
    then show ?thesis using True closed fs' none inn(1) by (cases "index_from bs line c = None") simp_all
  qed
qed

lemma highlightBlock_comments:
  assumes "hl_ok h" and bs: "hl_blockStart h \<noteq> []" and "first_comment (hl_lineComments h) line = None" and "cur \<noteq> 1"
  shows "\<exists>fs st. highlightBlock gm h prev cur line = Some (fs, st) \<and>
    map (\<lambda>f. f = Some CommentF) fs = comment_mask (hl_blockStart h) (hl_blockEnd h) 0 (prev = 1) line \<and>
    (st = 1 \<longleftrightarrow> comment_state (hl_blockStart h) (hl_blockEnd h) 0 (prev = 1) line)"
proof -
  have be: "hl_blockEnd h \<noteq> []" using assms(1) bs by (simp add: hl_ok_def)
  let ?fs = "fold (apply_rule gm line) (hl_rules h) (replicate (length line) None)"
  have fs: "no_comment ?fs" "length ?fs = length line"
    using apply_rules_keep [of "hl_rules h" "replicate (length line) None"] assms(1)
    by (simp_all add: hl_ok_def no_comment_def)
  from loop_line [OF bs be fs(2) assms(4), of prev] obtain fs' st where
    l: "block_loop (length line + 2) (hl_blockStart h) (hl_blockEnd h) prev line
      (if prev \<noteq> 1 then index_of (hl_blockStart h) line else Some 0) ?fs cur = Some (fs', st)"
    and p: "painted 0 (comment_mask (hl_blockStart h) (hl_blockEnd h) 0 (prev = 1) line) ?fs fs'"
    and s: "st = 1 \<longleftrightarrow> comment_state (hl_blockStart h) (hl_blockEnd h) 0 (prev = 1) line" by blast
  have "highlightBlock gm h prev cur line = Some (fs', st)"
    using l assms(3) bs by (simp add: highlightBlock_def Let_def del: block_loop.simps)
  moreover have "map (\<lambda>f. f = Some CommentF) fs' = comment_mask (hl_blockStart h) (hl_blockEnd h) 0 (prev = 1) line"
    using painted_comments [OF p fs(1)] fs(2) by (intro nth_equalityI) simp_all
  ultimately show ?thesis using s by blast
qed

text \<open>
  C32. Comments are coloured where they are. For any languages chosen one after the other, the last
  with block comments, highlighting a new document without line comment marks ends, and colours
  as comment exactly the characters that a single reading of the text finds inside block
  comments, across lines; and a line with a line comment mark is coloured as comment from the
  first mark to its end whatever the rules matched there.
\<close>

theorem comments_coloured:
  assumes "h = fold setLanguage langs init_highlighter" and "hl_blockStart h \<noteq> []"
    and "\<forall>l \<in> set doc. first_comment (hl_lineComments h) l = None"
  shows "(\<exists>blocks. rehighlight gm h (-1) (map (\<lambda>l. (l, -1)) doc) = Some blocks \<and>
      map (map (\<lambda>f. f = Some CommentF)) (map fst blocks) =
        document_mask (hl_blockStart h) (hl_blockEnd h) False doc) \<and>
    (case first_comment (hl_lineComments h) line of
       None \<Rightarrow> True
     | Some idx \<Rightarrow> map_option (\<lambda>(fs, st). map (\<lambda>f. f = Some CommentF) (drop idx fs)) (highlightBlock gm h prev cur line) =
         Some (replicate (length line - idx) True))"
proof
  have ok: "hl_ok h" unfolding assms(1) by (rule languages_ok)
  have "\<exists>blocks. rehighlight gm h prev (map (\<lambda>l. (l, -1)) doc) = Some blocks \<and>
      map (map (\<lambda>f. f = Some CommentF)) (map fst blocks) =
        document_mask (hl_blockStart h) (hl_blockEnd h) (prev = 1) doc" for prev
    using assms(3)
  proof (induction doc arbitrary: prev)
    case Nil
    then show ?case by simp
  next
    case (Cons l ls)
    then have "first_comment (hl_lineComments h) l = None" by simp
    from highlightBlock_comments [OF ok assms(2) this, of "-1" gm prev] obtain fs st where
      b: "highlightBlock gm h prev (-1) l = Some (fs, st)"
      "map (\<lambda>f. f = Some CommentF) fs = comment_mask (hl_blockStart h) (hl_blockEnd h) 0 (prev = 1) l"
      "st = 1 \<longleftrightarrow> comment_state (hl_blockStart h) (hl_blockEnd h) 0 (prev = 1) l" by auto
    from Cons obtain blocks where "rehighlight gm h st (map (\<lambda>l. (l, -1)) ls) = Some blocks"
      and "map (map (\<lambda>f. f = Some CommentF)) (map fst blocks) =
        document_mask (hl_blockStart h) (hl_blockEnd h) (st = 1) ls" by fastforce
    with b show ?case by simp
  qed
  from this [of "-1"] show "\<exists>blocks. rehighlight gm h (-1) (map (\<lambda>l. (l, -1)) doc) = Some blocks \<and>
      map (map (\<lambda>f. f = Some CommentF)) (map fst blocks) =
        document_mask (hl_blockStart h) (hl_blockEnd h) False doc" by simp
  let ?fs = "fold (apply_rule gm line) (hl_rules h) (replicate (length line) None)"
  have "length ?fs = length line"
    using apply_rules_keep [of "hl_rules h" "replicate (length line) None"] ok by (simp add: hl_ok_def no_comment_def)
  then have "map (\<lambda>f. f = Some CommentF) (drop idx (setFormat idx (length line - idx) CommentF ?fs)) =
      replicate (length line - idx) True" for idx
    by (intro nth_equalityI) (auto simp: less_diff_conv add.commute)
  then show "case first_comment (hl_lineComments h) line of
       None \<Rightarrow> True
     | Some idx \<Rightarrow> map_option (\<lambda>(fs, st). map (\<lambda>f. f = Some CommentF) (drop idx fs)) (highlightBlock gm h prev cur line) =
         Some (replicate (length line - idx) True)"
    by (simp add: highlightBlock_def Let_def split: option.splits)
qed

theorem comments_coloured_witness:
  "map_option (map (\<lambda>b. map (\<lambda>f. f = Some CommentF) (fst b)))
     (rehighlight (\<lambda>r l. []) (fold setLanguage [''cpp''] init_highlighter) (-1) [(''a/*b'', -1), (''c*/d'', -1)]) =
   Some [[False, True, True, True], [True, True, True, False]]"
proof -
  let ?h = "fold setLanguage [''cpp''] init_highlighter"
  have h: "hl_blockStart ?h = ''/*''" "hl_blockEnd ?h = ''*/''" "hl_lineComments ?h = [''//'']"
    by (simp_all add: setLanguage_def language_rules_def)
  have "\<forall>l \<in> set [''a/*b'', ''c*/d'']. first_comment (hl_lineComments ?h) l = None"
    unfolding h by (simp add: starts_with_def)
  moreover have "hl_blockStart ?h \<noteq> []" unfolding h by simp
  moreover have "document_mask ''/*'' ''*/'' False [''a/*b'', ''c*/d''] = [[False, True, True, True], [True, True, True, False]]"
    by (simp add: starts_with_def)
  ultimately show ?thesis
    using comments_coloured [OF refl, where langs = "[''cpp'']" and doc = "[''a/*b'', ''c*/d'']" and gm = "\<lambda>r l. []"] unfolding h
    by (auto simp: comp_def)
qed

text \<open>A line comment mark inside a block comment ends it for the rest of the document: the line
  returns before the block state is set.\<close>

lemma line_comment_ends_block_comment:
  "map_option (map (\<lambda>b. map (\<lambda>f. f = Some CommentF) (fst b)))
     (rehighlight (\<lambda>r l. []) \<lparr>hl_rules = [], hl_lineComments = [''//''], hl_blockStart = ''/*'', hl_blockEnd = ''*/''\<rparr> (-1)
       [(''/*'', -1), (''a//'', -1), (''b'', -1)]) = Some [[True, True], [False, True, True], [False]] \<and>
   document_mask ''/*'' ''*/'' False [''/*'', ''a//'', ''b''] = [[True, True], [True, True, True], [True]]"
  by code_simp

text \<open>The state of a block is never taken back: after its comment was deleted, the line still tells
  the next one that a comment is open.\<close>

lemma stale_block_state:
  "map_option (map (\<lambda>b. map (\<lambda>f. f = Some CommentF) (fst b)))
     (rehighlight (\<lambda>r l. []) \<lparr>hl_rules = [], hl_lineComments = [''//''], hl_blockStart = ''/*'', hl_blockEnd = ''*/''\<rparr> (-1)
       [(''x'', 1), (''b'', -1)]) = Some [[False], [True]]"
  by code_simp

text \<open>A language that is not known keeps the comments of the one before.\<close>

lemma unknown_language_keeps_comments:
  "language_rules lang = None \<Longrightarrow>
    hl_lineComments (setLanguage lang h) = hl_lineComments h \<and> hl_blockStart (setLanguage lang h) = hl_blockStart h"
  by (simp add: setLanguage_def)

end
