(* ===== verification/Exporter.thy ===== *)
theory Exporter
  imports Prelude
begin

text \<open>
  The identity of the active window, written to a file for other programs:
  desktop/compositor/src/ContextExporter.{h,cpp}. Setters restart a timer; when it fires the
  file is written by a worker thread, whose end is reported back to the main thread. The model
  has the tasks of the thread pool and the file as parts of the state and one event per step of
  either thread; the tasks run in any order;
  \<open>json\<close> is the compact JSON text of an object.
\<close>

record snapshot =
  sn_path :: path
  sn_appId :: string
  sn_title :: string
  sn_seat :: string

text \<open>A task of the thread pool: it writes, or it has ended and its continuation is on its way to the main
  thread.\<close>

datatype worker = WorkerWriting snapshot | WorkerFinished

record exporter =
  ce_activeAppId :: string
  ce_activeTitle :: string
  ce_filePath :: path
  ce_seatName :: string
  ce_timer :: bool             \<comment> \<open>flushTimer_ is running\<close>
  ce_pendingFlush :: bool
  ce_workers :: "worker list"  \<comment> \<open>the tasks handed to QtConcurrent::run, oldest first\<close>
  ce_file :: "string option"   \<comment> \<open>the contents of the file at filePath_\<close>

datatype ce_signal = ActiveWindowChanged

definition defaultRuntimeDir :: "string \<Rightarrow> path \<Rightarrow> path" where
  "defaultRuntimeDir XDG_RUNTIME_DIR tempPath = (if XDG_RUNTIME_DIR = [] then tempPath else XDG_RUNTIME_DIR)"

definition init_exporter :: "string \<Rightarrow> path \<Rightarrow> string option \<Rightarrow> exporter" where
  "init_exporter XDG_RUNTIME_DIR tempPath old =
     \<lparr>ce_activeAppId = [], ce_activeTitle = [],
      ce_filePath = defaultRuntimeDir XDG_RUNTIME_DIR tempPath @ ''/nira-active-window.json'',
      ce_seatName = ''default'', ce_timer = False, ce_pendingFlush = False, ce_workers = [], ce_file = old\<rparr>"

definition setActiveAppId :: "string \<Rightarrow> exporter \<Rightarrow> exporter \<times> ce_signal list" where
  "setActiveAppId appId e =
     (if ce_activeAppId e = appId then (e, [])
      else (e\<lparr>ce_activeAppId := appId, ce_timer := True\<rparr>, [ActiveWindowChanged]))"

definition setActiveTitle :: "string \<Rightarrow> exporter \<Rightarrow> exporter \<times> ce_signal list" where
  "setActiveTitle title e =
     (if ce_activeTitle e = title then (e, [])
      else (e\<lparr>ce_activeTitle := title, ce_timer := True\<rparr>, [ActiveWindowChanged]))"

definition snapshot_of :: "exporter \<Rightarrow> snapshot" where
  "snapshot_of e = \<lparr>sn_path = ce_filePath e, sn_appId = ce_activeAppId e, sn_title = ce_activeTitle e, sn_seat = ce_seatName e\<rparr>"

definition onFlushTimer :: "exporter \<Rightarrow> exporter" where
  "onFlushTimer e =
     (if ce_pendingFlush e then e
      else e\<lparr>ce_pendingFlush := True, ce_workers := ce_workers e @ [WorkerWriting (snapshot_of e)]\<rparr>)"

definition ce_flush :: "exporter \<Rightarrow> exporter" where
  "ce_flush e = onFlushTimer (e\<lparr>ce_timer := False\<rparr>)"

text \<open>The contents of the file after the write; the file is replaced as a whole when the commit
  succeeds.\<close>

definition export_text :: "((string \<times> string) list \<Rightarrow> string) \<Rightarrow> snapshot \<Rightarrow> string" where
  "export_text json x =
     json [(''app_id'', sn_appId x), (''title'', sn_title x), (''seat'', sn_seat x)] @ [CHR 0x0A]"

definition writeToDisk ::
  "((string \<times> string) list \<Rightarrow> string) \<Rightarrow> bool \<Rightarrow> bool \<Rightarrow> snapshot \<Rightarrow> string option \<Rightarrow> string option" where
  "writeToDisk json opened committed x old =
     (if \<not> opened then old else if \<not> committed then old else Some (export_text json x))"

text \<open>Events: the setters, the timer, an explicit flush, the end of the write of a task, and its
  continuation in the main thread.\<close>

datatype ce_event = SetAppId string | SetTitle string | FlushTimer | FlushNow | Written nat bool bool | WriteReported nat

definition delete_at :: "nat \<Rightarrow> 'a list \<Rightarrow> 'a list" where
  "delete_at i xs = take i xs @ drop (Suc i) xs"

fun ce_step :: "((string \<times> string) list \<Rightarrow> string) \<Rightarrow> ce_event \<Rightarrow> exporter \<Rightarrow> exporter" where
  "ce_step json (SetAppId a) e = fst (setActiveAppId a e)"
| "ce_step json (SetTitle t) e = fst (setActiveTitle t e)"
| "ce_step json FlushTimer e = (if ce_timer e then onFlushTimer (e\<lparr>ce_timer := False\<rparr>) else e)"
| "ce_step json FlushNow e = ce_flush e"
| "ce_step json (Written i opened committed) e =
     (if i < length (ce_workers e) then
        (case ce_workers e ! i of
           WorkerWriting x \<Rightarrow> e\<lparr>ce_file := writeToDisk json opened committed x (ce_file e),
                               ce_workers := (ce_workers e)[i := WorkerFinished]\<rparr>
         | WorkerFinished \<Rightarrow> e)
      else e)"
| "ce_step json (WriteReported i) e =
     (if i < length (ce_workers e) \<and> ce_workers e ! i = WorkerFinished
      then e\<lparr>ce_pendingFlush := False, ce_workers := delete_at i (ce_workers e)\<rparr> else e)"

definition ce_run :: "((string \<times> string) list \<Rightarrow> string) \<Rightarrow> ce_event list \<Rightarrow> exporter \<Rightarrow> exporter" where
  "ce_run json es e = fold (ce_step json) es e"

lemma ce_run_simps [simp]:
  "ce_run json [] e = e"
  "ce_run json (ev # es) e = ce_run json es (ce_step json ev e)"
  "ce_run json (es @ fs) e = ce_run json fs (ce_run json es e)"
  by (simp_all add: ce_run_def)

text \<open>The exporter as one writer at a time: the guard is up exactly while a task lives, and there is
  one task at most.\<close>

definition one_writer :: "exporter \<Rightarrow> bool" where
  "one_writer e \<longleftrightarrow> (ce_pendingFlush e \<longleftrightarrow> ce_workers e \<noteq> []) \<and> length (ce_workers e) \<le> 1"

definition of_worker :: "ce_event \<Rightarrow> bool" where
  "of_worker ev = (case ev of Written i a b \<Rightarrow> True | WriteReported i \<Rightarrow> True | _ \<Rightarrow> False)"

lemma one_writer_cases:
  assumes "one_writer e"
  obtains "ce_workers e = []" "\<not> ce_pendingFlush e"
    | x where "ce_workers e = [WorkerWriting x]" "ce_pendingFlush e"
    | "ce_workers e = [WorkerFinished]" "ce_pendingFlush e"
proof (cases "ce_workers e")
  case Nil
  then show ?thesis using assms that(1) by (simp add: one_writer_def)
next
  case (Cons w ws)
  then have "ws = []" "ce_pendingFlush e" using assms by (auto simp: one_writer_def)
  then show ?thesis using Cons that(2,3) by (cases w) auto
qed

lemmas ce_defs = setActiveAppId_def setActiveTitle_def onFlushTimer_def ce_flush_def snapshot_of_def

lemma one_writer_step: "one_writer e \<Longrightarrow> one_writer (ce_step json ev e)"
  by (erule one_writer_cases; cases ev) (simp_all add: one_writer_def ce_defs delete_at_def)

text \<open>What a step does to the file and to the identity being written: a task that starts has the identity
  of the moment.\<close>

lemma ce_step_file:
  assumes "one_writer e"
  shows "ce_file (ce_step json ev e) = ce_file e \<or>
    (\<exists>x. ce_workers e = [WorkerWriting x] \<and> ce_file (ce_step json ev e) = Some (export_text json x) \<and>
         ce_workers (ce_step json ev e) = [WorkerFinished])"
  using assms
  by (rule one_writer_cases; cases ev) (simp_all add: ce_defs writeToDisk_def)

lemma ce_step_writing:
  assumes "one_writer e" "ce_workers (ce_step json ev e) = [WorkerWriting x]"
  shows "ce_workers e = [WorkerWriting x] \<or> x = snapshot_of (ce_step json ev e)"
  using assms
  by (elim one_writer_cases; cases ev) (auto simp: ce_defs delete_at_def split: if_splits)

text \<open>The moment of the run whose identity the file has: \<open>when k\<close> for the file after \<open>k\<close> events, 0 for
  the old file.\<close>

definition dated :: "((string \<times> string) list \<Rightarrow> string) \<Rightarrow> ce_event list \<Rightarrow> exporter \<Rightarrow> (nat \<Rightarrow> nat) \<Rightarrow> bool" where
  "dated json es e0 when \<longleftrightarrow>
     mono when \<and>
     (\<forall>k. when k \<le> k \<and>
        ce_file (ce_run json (take k es) e0) =
          (if when k = 0 then ce_file e0
           else Some (export_text json (snapshot_of (ce_run json (take (when k) es) e0)))))"

definition date_pending :: "((string \<times> string) list \<Rightarrow> string) \<Rightarrow> ce_event list \<Rightarrow> exporter \<Rightarrow> nat \<Rightarrow> bool" where
  "date_pending json es e0 lo \<longleftrightarrow>
     (\<forall>x. ce_workers (ce_run json es e0) = [WorkerWriting x] \<longrightarrow>
        (\<exists>w. 0 < w \<and> lo \<le> w \<and> w \<le> length es \<and> x = snapshot_of (ce_run json (take w es) e0)))"

lemma dated_snoc:
  assumes d: "dated json es e0 when"
    and v: "when (length es) \<le> v" "v \<le> Suc (length es)"
    and f: "ce_file (ce_run json (es @ [ev]) e0) =
      (if v = 0 then ce_file e0 else Some (export_text json (snapshot_of (ce_run json (take v (es @ [ev])) e0))))"
  shows "dated json (es @ [ev]) e0 (\<lambda>k. if k \<le> length es then when k else v)"
proof -
  have m: "mono when" and le: "\<And>k. when k \<le> k" using d by (auto simp: dated_def)
  have "mono (\<lambda>k. if k \<le> length es then when k else v)"
    using m v(1) by (auto simp: mono_def intro: order_trans)
  moreover have "take (when k) (es @ [ev]) = take (when k) es" if "k \<le> length es" for k
    using le [of k] that by simp
  ultimately show ?thesis using d v f by (auto simp: dated_def le_Suc_eq)
qed

lemma dated_init: "ce_workers e0 = [] \<Longrightarrow> dated json [] e0 (\<lambda>k. 0) \<and> date_pending json [] e0 0"
  by (simp add: dated_def date_pending_def mono_def)

lemma date_pending_snoc:
  assumes one: "one_writer (ce_run json es e0)" and p: "date_pending json es e0 lo" and lo: "lo \<le> length es"
  shows "date_pending json (es @ [ev]) e0 lo"
  unfolding date_pending_def
proof (intro allI impI)
  fix x assume "ce_workers (ce_run json (es @ [ev]) e0) = [WorkerWriting x]"
  then consider "ce_workers (ce_run json es e0) = [WorkerWriting x]" | "x = snapshot_of (ce_run json (es @ [ev]) e0)"
    using ce_step_writing [OF one, of json ev x] by auto
  then show "\<exists>w. 0 < w \<and> lo \<le> w \<and> w \<le> length (es @ [ev]) \<and> x = snapshot_of (ce_run json (take w (es @ [ev])) e0)"
  proof cases
    case 1
    then obtain w where "0 < w" "lo \<le> w" "w \<le> length es" "x = snapshot_of (ce_run json (take w es) e0)"
      using p by (auto simp: date_pending_def)
    then show ?thesis by (intro exI [of _ w]) simp
  next
    case 2
    then show ?thesis using lo by (intro exI [of _ "Suc (length es)"]) simp
  qed
qed

lemma one_writer_run: "one_writer e0 \<Longrightarrow> one_writer (ce_run json es e0)"
  by (induction es arbitrary: e0) (simp_all add: one_writer_step)

lemma dated_run:
  assumes "one_writer e0" "ce_workers e0 = []"
  shows "\<exists>when. dated json es e0 when \<and> date_pending json es e0 (when (length es))"
proof (induction es rule: rev_induct)
  case Nil
  then show ?case using dated_init [OF assms(2), of json] by blast
next
  case (snoc ev es)
  let ?e = "ce_run json es e0"
  from snoc obtain "when" where d: "dated json es e0 when" and p: "date_pending json es e0 (when (length es))" by blast
  have one: "one_writer ?e" using assms(1) by (rule one_writer_run)
  have le: "when (length es) \<le> length es" using d by (simp add: dated_def)
  have content: "ce_file ?e = (if when (length es) = 0 then ce_file e0
      else Some (export_text json (snapshot_of (ce_run json (take (when (length es)) es) e0))))"
    using d unfolding dated_def by (metis order_refl take_all)
  from ce_step_file [OF one, of json ev] show ?case
  proof (elim disjE exE conjE)
    assume "ce_file (ce_step json ev ?e) = ce_file ?e"
    then have "dated json (es @ [ev]) e0 (\<lambda>k. if k \<le> length es then when k else when (length es))"
      using le content by (intro dated_snoc [OF d]) auto
    then show ?thesis using date_pending_snoc [OF one p le] by (intro exI) auto
  next
    fix x assume x: "ce_workers ?e = [WorkerWriting x]" "ce_file (ce_step json ev ?e) = Some (export_text json x)"
      "ce_workers (ce_step json ev ?e) = [WorkerFinished]"
    then obtain w where w: "0 < w" "when (length es) \<le> w" "w \<le> length es" "x = snapshot_of (ce_run json (take w es) e0)"
      using p by (auto simp: date_pending_def)
    then have "dated json (es @ [ev]) e0 (\<lambda>k. if k \<le> length es then when k else w)"
      using x by (intro dated_snoc [OF d]) auto
    moreover have "date_pending json (es @ [ev]) e0 w" using x(3) by (simp add: date_pending_def)
    ultimately show ?thesis by (intro exI) auto
  qed
qed

text \<open>A write in flight keeps its identity whatever the main thread does meanwhile.\<close>

lemma writing_kept:
  assumes "one_writer e" "ce_workers e = [WorkerWriting x]" "list_all (\<lambda>ev. \<not> of_worker ev) es"
  shows "ce_workers (ce_run json es e) = [WorkerWriting x]"
  using assms
proof (induction es arbitrary: e)
  case (Cons ev es)
  have "ce_workers (ce_step json ev e) = [WorkerWriting x]"
    using Cons.prems by (cases ev) (auto simp: of_worker_def ce_defs one_writer_def)
  then show ?case using Cons one_writer_step by simp
qed simp

lemma flush_written:
  assumes "one_writer e" "\<not> ce_pendingFlush e" "list_all (\<lambda>ev. \<not> of_worker ev) meanwhile"
  shows "ce_file (ce_run json (FlushNow # meanwhile @ [Written 0 True True]) e) = Some (export_text json (snapshot_of e))"
proof -
  have w: "ce_workers (ce_step json FlushNow e) = [WorkerWriting (snapshot_of e)]"
    using assms(1,2) by (simp add: one_writer_def ce_defs)
  have "ce_workers (ce_run json meanwhile (ce_step json FlushNow e)) = [WorkerWriting (snapshot_of e)]"
    by (rule writing_kept [OF one_writer_step [OF assms(1)] w assms(3)])
  then show ?thesis by (simp add: writeToDisk_def)
qed

text \<open>
  C33. The exported file is whole, never goes back, and is current when the dust settles. Take any
  run of the setters, the timer, flushes and the tasks of the thread pool, which may end in any
  order. At every moment of it the file has its old contents or the complete text of the
  identity that the active window had at an earlier moment; this moment never moves back. There is
  at most one task, and the guard is up exactly while there is one. If there is none, a flush
  starts a write of the identity of the moment, and once that write goes through the file has it,
  whatever the setters, the timer and further flushes do meanwhile.
\<close>

theorem export_whole_and_current:
  assumes "list_all (\<lambda>ev. \<not> of_worker ev) meanwhile"
  shows "let e0 = init_exporter xdg tmp old; moment = (\<lambda>k. ce_run json (take k es) e0); e = ce_run json es e0 in
     (\<exists>when. mono when \<and>
        (\<forall>k. when k \<le> k \<and>
           ce_file (moment k) = (if when k = 0 then old else Some (export_text json (snapshot_of (moment (when k))))))) \<and>
     length (ce_workers e) \<le> 1 \<and> (ce_pendingFlush e \<longleftrightarrow> ce_workers e \<noteq> []) \<and>
     (ce_workers e = [] \<longrightarrow>
        ce_file (ce_run json (FlushNow # meanwhile @ [Written 0 True True]) e) = Some (export_text json (snapshot_of e)))"
proof -
  let ?e0 = "init_exporter xdg tmp old"
  have start: "one_writer ?e0" "ce_workers ?e0 = []" "ce_file ?e0 = old" by (simp_all add: one_writer_def init_exporter_def)
  have one: "one_writer (ce_run json es ?e0)" using start(1) by (rule one_writer_run)
  obtain "when" where "dated json es ?e0 when" using dated_run [OF start(1,2)] by blast
  then show ?thesis
    using one flush_written [OF one _ assms, of json] start(3) unfolding Let_def dated_def one_writer_def by metis
qed

text \<open>A title that arrives while the first write is in flight, a timer that is held back by it, and a
  second flush that comes through.\<close>

definition demo_export :: "ce_event list" where
  "demo_export = [SetAppId ''a'', FlushTimer, SetTitle ''t'', FlushTimer, Written 0 True True, WriteReported 0]"

theorem export_whole_and_current_witness:
  "let e = ce_run (concat \<circ> map snd) demo_export (init_exporter [] ''/tmp'' None) in
     ce_file e = Some (''adefault'' @ [CHR 0x0A]) \<and>
     ce_file (ce_run (concat \<circ> map snd) (FlushNow # [SetAppId ''b'', FlushTimer] @ [Written 0 True True]) e) =
       Some (''atdefault'' @ [CHR 0x0A])"
proof -
  let ?json = "concat \<circ> map snd" and ?e0 = "init_exporter [] ''/tmp'' None"
  let ?e = "ce_run ?json demo_export ?e0"
  have ok: "list_all (\<lambda>ev. \<not> of_worker ev) [SetAppId ''b'', FlushTimer]" by (simp add: of_worker_def)
  have e: "ce_workers ?e = []" "ce_file ?e = Some (''adefault'' @ [CHR 0x0A])"
    "export_text ?json (snapshot_of ?e) = ''atdefault'' @ [CHR 0x0A]" by code_simp+
  show ?thesis
    using export_whole_and_current [OF ok, of "[]" "''/tmp''" None ?json demo_export] e unfolding Let_def by metis
qed
text \<open>A timer that fires while a write is in flight does nothing, and nothing fires again: the change
  stays out of the file until the next one.\<close>

lemma update_dropped:
  "let e = ce_run json [SetAppId ''a'', FlushTimer, SetAppId ''b'', FlushTimer, Written 0 True True, WriteReported 0]
      (init_exporter xdg tmp None) in
   ce_activeAppId e = ''b'' \<and> \<not> ce_timer e \<and> \<not> ce_pendingFlush e \<and>
   ce_file e = Some (json [(''app_id'', ''a''), (''title'', []), (''seat'', ''default'')] @ [CHR 0x0A])"
  by (simp add: ce_defs init_exporter_def writeToDisk_def export_text_def delete_at_def Let_def)

end
