(* ===== verification/Clients.thy ===== *)
theory Clients
  imports Prelude
begin

text \<open>
  The gRPC clients: desktop/shell/src/AiClient.{h,cpp} (the AI daemon) and
  desktop/settings/src/SettingsClient.{h,cpp} (the settings service). What a call returns is an
  argument of the handler that runs when it has returned; a detached thread that makes one
  call and posts its result to the main thread is that handler. A double is a rational.
\<close>

datatype grpc_status = GrpcOk | GrpcCancelled string | GrpcFailed string

fun error_message :: "grpc_status \<Rightarrow> string" where
  "error_message GrpcOk = []"
| "error_message (GrpcCancelled m) = m"
| "error_message (GrpcFailed m) = m"


subsection \<open>Generating text\<close>

datatype ai_signal =
    TokenReceived string
  | GenerationFinished
  | ErrorOccurred string
  | StatusChanged
  | UnloadSuggested

record generate_request =
  gr_prompt :: string
  gr_temperature :: rat
  gr_max_tokens :: int
  gr_context_id :: string

record ai_response =
  rs_text :: string
  rs_is_finished :: bool

text \<open>What happens while a generation runs: the shutdown flag when the context is registered,
  whether another call has taken the context away by then, whether the stream opens, the
  responses with the shutdown flag at the time of each, and the final status.\<close>

record stream_run =
  st_stopAtStart :: bool
  st_contextLost :: bool
  st_opened :: bool
  st_reads :: "(ai_response \<times> bool) list"
  st_status :: grpc_status
  st_stopAtEnd :: bool

text \<open>The signals of the read loop, and whether it was left for the shutdown.\<close>

fun read_loop :: "(ai_response \<times> bool) list \<Rightarrow> ai_signal list \<times> bool" where
  "read_loop [] = ([], False)"
| "read_loop ((response, stop) # rs) =
     (if stop then ([], True)
      else if rs_is_finished response then ([GenerationFinished], False)
      else (case read_loop rs of (o1, left) \<Rightarrow>
        (if rs_text response \<noteq> [] then TokenReceived (rs_text response) # o1 else o1, left)))"

definition runGeneration :: "stream_run \<Rightarrow> ai_signal list" where
  "runGeneration R =
     (if st_stopAtStart R then []
      else if st_contextLost R then []
      else if \<not> st_opened R then [ErrorOccurred ''Failed to initiate AI stream.'']
      else (case read_loop (st_reads R) of
          (o1, True) \<Rightarrow> o1
        | (o1, False) \<Rightarrow>
            o1 @ (case st_status R of GrpcFailed m \<Rightarrow> if \<not> st_stopAtEnd R then [ErrorOccurred m] else [] | _ \<Rightarrow> [])))"

text \<open>The request that goes out, or the error: \<open>utf8_size\<close> is the length in bytes, \<open>to_float\<close> the
  rounding of a double to a float.\<close>

definition streamGenerate ::
  "(char \<Rightarrow> bool) \<Rightarrow> (string \<Rightarrow> nat) \<Rightarrow> (rat \<Rightarrow> rat) \<Rightarrow> string \<Rightarrow> rat \<Rightarrow> int \<Rightarrow> generate_request option \<times> ai_signal list" where
  "streamGenerate sp utf8_size to_float prompt temperature maxTokens =
     (let trimmed = trim sp prompt in
      if trimmed = [] then (None, [ErrorOccurred ''Enter a prompt before sending.''])
      else if utf8_size trimmed > 32 * 1024 then (None, [ErrorOccurred ''The prompt exceeds the 32 KiB request limit.''])
      else (Some \<lparr>gr_prompt = trimmed, gr_temperature = to_float temperature, gr_max_tokens = maxTokens,
                  gr_context_id = ''active''\<rparr>, []))"

definition generate ::
  "(char \<Rightarrow> bool) \<Rightarrow> (string \<Rightarrow> nat) \<Rightarrow> (rat \<Rightarrow> rat) \<Rightarrow> string \<Rightarrow> rat \<Rightarrow> int \<Rightarrow> (generate_request \<Rightarrow> stream_run)
    \<Rightarrow> ai_signal list" where
  "generate sp utf8_size to_float prompt temperature maxTokens daemon =
     (case streamGenerate sp utf8_size to_float prompt temperature maxTokens of
        (None, o1) \<Rightarrow> o1
      | (Some r, o1) \<Rightarrow> o1 @ runGeneration (daemon r))"

fun token_text :: "ai_signal \<Rightarrow> string" where
  "token_text (TokenReceived t) = t"
| "token_text _ = []"

lemma read_loop_calm:
  assumes "\<forall>r \<in> set rs. \<not> snd r"
  shows "read_loop rs =
    (map TokenReceived (filter (\<lambda>t. t \<noteq> []) (map (rs_text \<circ> fst) (takeWhile (\<lambda>r. \<not> rs_is_finished (fst r)) rs))) @
       (if \<exists>r \<in> set rs. rs_is_finished (fst r) then [GenerationFinished] else []), False)"
  using assms
proof (induction rs)
  case Nil
  then show ?case by simp
next
  case (Cons r rs)
  obtain a b where "r = (a, b)" by (cases r)
  with Cons show ?case by auto
qed


definition demo_daemon :: "generate_request \<Rightarrow> stream_run" where
  "demo_daemon r = \<lparr>st_stopAtStart = False, st_contextLost = False, st_opened = True,
     st_reads = [(\<lparr>rs_text = ''to '', rs_is_finished = False\<rparr>, False), (\<lparr>rs_text = [], rs_is_finished = False\<rparr>, False),
       (\<lparr>rs_text = gr_prompt r, rs_is_finished = False\<rparr>, False), (\<lparr>rs_text = ''late'', rs_is_finished = True\<rparr>, False)],
     st_status = GrpcOk, st_stopAtEnd = False\<rparr>"



subsection \<open>The status of the daemon\<close>

record ai_status =
  ai_activeModel :: string
  ai_vramUsageMb :: rat
  ai_isLoading :: bool
  ai_aiMode :: string
  ai_aiState :: string

definition init_ai_status :: ai_status where
  "init_ai_status = \<lparr>ai_activeModel = [], ai_vramUsageMb = 0, ai_isLoading = False, ai_aiMode = ''ondemand'',
     ai_aiState = ''unloaded''\<rparr>"

text \<open>The reply to a poll: the response is taken over whatever the status of the call.\<close>

definition poll_reply :: "grpc_status \<Rightarrow> ai_status \<Rightarrow> ai_status \<Rightarrow> ai_status \<times> ai_signal list" where
  "poll_reply status resp a =
     (let far = \<bar>ai_vramUsageMb a - ai_vramUsageMb resp\<bar> > 1 / 10;
          changed = (ai_activeModel a \<noteq> ai_activeModel resp \<or> far \<or> ai_isLoading a \<noteq> ai_isLoading resp
            \<or> ai_aiMode a \<noteq> ai_aiMode resp \<or> ai_aiState a \<noteq> ai_aiState resp)
      in (resp\<lparr>ai_vramUsageMb := (if far then ai_vramUsageMb resp else ai_vramUsageMb a)\<rparr>,
          if changed then [StatusChanged] else []))"

definition mode_reply :: "string \<Rightarrow> grpc_status \<Rightarrow> bool \<Rightarrow> string \<Rightarrow> ai_status \<Rightarrow> ai_status \<times> ai_signal list" where
  "mode_reply mode status success err a =
     (if status = GrpcOk \<and> success then (a\<lparr>ai_aiMode := mode\<rparr>, [StatusChanged])
      else (a, [ErrorOccurred (''Failed to set AI mode: '' @ (if error_message status = [] then err else error_message status))]))"

definition timeout_reply :: "grpc_status \<Rightarrow> bool \<Rightarrow> string \<Rightarrow> ai_signal list" where
  "timeout_reply status success err =
     (if status \<noteq> GrpcOk \<or> \<not> success
      then [ErrorOccurred (''Failed to set inactivity timeout: '' @ (if error_message status = [] then err else error_message status))]
      else [])"

definition suggestUnload :: "ai_signal list" where
  "suggestUnload = [UnloadSuggested]"

text \<open>A poll that fails blanks the status: the default response replaces the model, the mode and the
  state that were shown.\<close>

lemma failed_poll_blanks_status:
  "fst (poll_reply (GrpcFailed ''unavailable'')
      \<lparr>ai_activeModel = [], ai_vramUsageMb = 0, ai_isLoading = False, ai_aiMode = [], ai_aiState = []\<rparr> a) =
   \<lparr>ai_activeModel = [], ai_vramUsageMb = (if \<bar>ai_vramUsageMb a\<bar> > 1 / 10 then 0 else ai_vramUsageMb a),
    ai_isLoading = False, ai_aiMode = [], ai_aiState = []\<rparr>"
  by (simp add: poll_reply_def Let_def)


subsection \<open>Timers\<close>

text \<open>The constructor: a poll every five seconds and one at once, and a single-shot timer for the
  suggestion to unload, which it does not start.\<close>

record ai_timers =
  tm_statusInterval :: "nat option"
  tm_pollPosted :: bool
  tm_inactivity :: "nat option"
  tm_panelOpen :: bool

definition init_ai_timers :: ai_timers where
  "init_ai_timers = \<lparr>tm_statusInterval = Some 5000, tm_pollPosted = True, tm_inactivity = None, tm_panelOpen = True\<rparr>"

definition inactivity_timeout :: "ai_timers \<Rightarrow> ai_signal list" where
  "inactivity_timeout T = (if \<not> tm_panelOpen T then [UnloadSuggested] else [])"

text \<open>As nothing starts that timer or changes the flag, the suggestion is never made by it.\<close>

lemma inactivity_never_suggests: "tm_inactivity init_ai_timers = None \<and> inactivity_timeout init_ai_timers = []"
  by (simp add: init_ai_timers_def inactivity_timeout_def)


subsection \<open>Settings\<close>

datatype settings_signal =
    SettingValueReceived string string bool
  | SettingSaved string bool string

definition get_setting_reply :: "string \<Rightarrow> grpc_status \<Rightarrow> string \<Rightarrow> bool \<Rightarrow> settings_signal" where
  "get_setting_reply k status value exists =
     (if status = GrpcOk then SettingValueReceived k value exists else SettingValueReceived k [] False)"

definition set_setting_reply :: "string \<Rightarrow> grpc_status \<Rightarrow> bool \<Rightarrow> string \<Rightarrow> settings_signal" where
  "set_setting_reply k status success err =
     (if status = GrpcOk then SettingSaved k success err else SettingSaved k False ''gRPC call failed'')"

end
