(* ===== verification/Startup.thy ===== *)
theory Startup
  imports Images FileOps
begin

text \<open>
  What the main functions decide before they hand over to QML: the environment of the greeter and
  of the compositor (desktop/greeter/src/main.cpp, desktop/compositor/src/main.cpp), the scale
  of the output, the sizes of desktop/common/DesktopMetrics.h, the icons of the notepad, the places
  the file manager offers, and the objects each program hands to its QML. An
  environment is a map; Qt calls a variable empty when it is unset or has no value.
\<close>

definition env_default :: "string \<times> string \<Rightarrow> (string \<Rightarrow> string option) \<Rightarrow> string \<Rightarrow> string option" where
  "env_default kv env =
     (if env (fst kv) = None \<or> env (fst kv) = Some [] then env(fst kv \<mapsto> snd kv) else env)"

definition greeter_defaults :: "(string \<times> string) list" where
  "greeter_defaults =
     [(''QT_QPA_PLATFORM'', ''eglfs''), (''QT_QPA_EGLFS_INTEGRATION'', ''eglfs_kms''), (''QSG_INFO'', ''1''),
      (''LANG'', ''C.UTF-8''), (''LIBGL_ALWAYS_SOFTWARE'', ''1''), (''GALLIUM_DRIVER'', ''llvmpipe'')]"

definition compositor_defaults :: "(string \<times> string) list" where
  "compositor_defaults = [(''LIBGL_ALWAYS_SOFTWARE'', ''1''), (''GALLIUM_DRIVER'', ''llvmpipe'')]"

definition greeter_environment :: "(string \<Rightarrow> string option) \<Rightarrow> string \<Rightarrow> string option" where
  "greeter_environment env = fold env_default greeter_defaults env"

definition compositor_environment :: "(string \<Rightarrow> string option) \<Rightarrow> string \<Rightarrow> string option" where
  "compositor_environment env = fold env_default compositor_defaults env"

text \<open>The primary screen is its physical size in millimetres, if there is one.\<close>

definition detectOutputScaleFactor :: "(rat \<times> rat) option \<Rightarrow> int" where
  "detectOutputScaleFactor screen =
     (case screen of
        None \<Rightarrow> 0
      | Some (width, height) \<Rightarrow> if width \<le> 0 \<or> height \<le> 0 then 1 else 0)"

definition mediumPadding :: int where
  "mediumPadding = 16"

definition panelContentHeight :: int where
  "panelContentHeight = 48"

definition panelReservedHeight :: int where
  "panelReservedHeight = panelContentHeight + (2 * mediumPadding)"

definition notepad_icon :: "'img img_env \<Rightarrow> string \<Rightarrow> qsize \<Rightarrow> 'img option \<times> qsize option" where
  "notepad_icon V wid requestedSize =
     (let target = (if valid_size requestedSize then requestedSize else (48, 48)) in
      case try_image V ('':/nira/notepad/'' @ wid @ ''.svg'') target of
        Some r \<Rightarrow> r
      | None \<Rightarrow>
          (case try_image V ('':/nira/notepad/'' @ wid @ ''-48.png'') target of
             Some r \<Rightarrow> r
           | None \<Rightarrow> theme_icon V wid target))"

lemma defaults_respect_environment:
  "distinct (map fst kvs) \<Longrightarrow> fold env_default kvs env k =
     (if env k = None \<or> env k = Some [] then (case map_of kvs k of None \<Rightarrow> env k | Some v \<Rightarrow> Some v) else env k)"
proof (induction kvs arbitrary: env)
  case Nil
  then show ?case by simp
next
  case (Cons kv kvs)
  then have "map_of kvs (fst kv) = None" by (auto simp: map_of_eq_None_iff)
  with Cons show ?case by (cases kv) (auto simp: env_default_def split: option.splits)
qed

text \<open>A variable that is set keeps its value; the others of the list get the default.\<close>

lemma compositor_environment_eq:
  "compositor_environment env k =
     (if env k = None \<or> env k = Some [] then
        (case map_of compositor_defaults k of None \<Rightarrow> env k | Some v \<Rightarrow> Some v) else env k)"
  unfolding compositor_environment_def
  by (rule defaults_respect_environment) (simp add: compositor_defaults_def)

lemma greeter_environment_eq:
  "greeter_environment env k =
     (if env k = None \<or> env k = Some [] then
        (case map_of greeter_defaults k of None \<Rightarrow> env k | Some v \<Rightarrow> Some v) else env k)"
  unfolding greeter_environment_def
  by (rule defaults_respect_environment) (simp add: greeter_defaults_def)



subsection \<open>Objects and places for QML\<close>

text \<open>The context properties a program sets before it loads its QML: name and class.\<close>

definition shell_context :: "(string \<times> string) list" where
  "shell_context =
     [(''aiClient'', ''AiClient''), (''processLauncher'', ''ProcessLauncher''), (''appModel'', ''FilteredAppModel''),
      (''taskbarModel'', ''TaskbarModel''), (''desktopIconModel'', ''DesktopIconModel''),
      (''trashIconState'', ''TrashIconState''), (''notificationClient'', ''NotificationClient''),
      (''wallpaperModel'', ''WallpaperModel''), (''volumeControl'', ''VolumeControl''), (''powerStatus'', ''PowerStatus''),
      (''workspaceController'', ''WorkspaceController''), (''desktopMetrics'', ''NiraDesktopMetrics'')]"

definition files_context :: "(string \<times> string) list" where
  "files_context =
     [(''fileModel'', ''FileModel''), (''fileOperations'', ''FileOperations''), (''fileSystemWatcher'', ''FileSystemWatcher''),
      (''searchIndexer'', ''SearchIndexer''), (''storageManager'', ''StorageManager''),
      (''desktopMetrics'', ''NiraDesktopMetrics''), (''standardPaths'', ''QVariantMap'')]"

definition compositor_context :: "(string \<times> string) list" where
  "compositor_context =
     [(''contextExporter'', ''ContextExporter''), (''wallpaperWatcher'', ''WallpaperWatcher''), (''wmDBus'', ''WindowManagerDBus''),
      (''desktopMetrics'', ''NiraDesktopMetrics''), (''outputScaleFactor'', ''int'')]"

definition greeter_context :: "(string \<times> string) list" where
  "greeter_context = [(''greeterIPC'', ''GreeterIPC''), (''userModel'', ''UserModel'')]"

definition settings_context :: "(string \<times> string) list" where
  "settings_context = [(''settingsClient'', ''SettingsClient'')]"

text \<open>No program gives one name to two objects, so none of them hides another.\<close>

lemma contexts_distinct:
  "distinct (map fst shell_context)" "distinct (map fst files_context)" "distinct (map fst compositor_context)"
  "distinct (map fst greeter_context)" "distinct (map fst settings_context)"
  by (simp_all add: shell_context_def files_context_def compositor_context_def greeter_context_def settings_context_def)

datatype standard_location =
    HomeLocation | DocumentsLocation | DownloadLocation | PicturesLocation | MoviesLocation | MusicLocation
  | DesktopLocation | GenericDataLocation

text \<open>The places in the side bar; \<open>writable\<close> stands for \<open>QStandardPaths::writableLocation\<close>.\<close>

definition standardPaths :: "(standard_location \<Rightarrow> path) \<Rightarrow> (string \<times> variant) list" where
  "standardPaths writable =
     [(''home'', VStr (writable HomeLocation)), (''documents'', VStr (writable DocumentsLocation)),
      (''downloads'', VStr (writable DownloadLocation)), (''pictures'', VStr (writable PicturesLocation)),
      (''videos'', VStr (writable MoviesLocation)), (''music'', VStr (writable MusicLocation)),
      (''desktop'', VStr (writable DesktopLocation)), (''trash'', VStr (writable GenericDataLocation @ ''/Trash/files''))]"

text \<open>The trash of the side bar is the folder that moveToTrash falls back to: what it moves there is
  shown there.\<close>

lemma trash_place_shows_trashed:
  assumes "writable GenericDataLocation = dataHome Q"
  shows "\<exists>name dir. map_of (standardPaths writable) ''trash'' = Some (VStr dir) \<and>
    (trash_target Q p s = dir @ ''/'' @ name \<or> trash_target Q p s = [])"
proof -
  have "trash_target Q p s = [] \<or> (\<exists>k. trash_target Q p s = (dataHome Q @ ''/Trash/files'') @ ''/'' @ trash_candidate Q p k)"
  proof -
    have "probe taken cand i n l = l \<or> (\<exists>k. probe taken cand i n l = cand k)" for taken cand i n l
    proof (induction n arbitrary: i l)
      case (Suc n)
      from Suc.IH [of "Suc i" "cand i"] show ?case by auto
    qed simp
    then show ?thesis unfolding trash_target_def by blast
  qed
  then show ?thesis using assms by (auto simp: standardPaths_def)
qed

end
