(* ===== verification/ModelTypes.thy ===== *)
theory ModelTypes
  imports Taskbar FileModel Notifications Launcher DesktopIcons Users Wallpapers
begin

text \<open>
  The types of the seven list models. Each class numbers its roles in an enum of its header and
  answers \<open>data(index, role)\<close> with a \<open>QVariant\<close>; the QML delegates rely on the type they get for a
  role. The schema of a model is the table its header documents (\<open>/// Roles: ...\<close>); the model is
  shown to answer by it for every row and every role number.
\<close>

definition user_role :: int where
  "user_role = 256"

definition tb_role_of :: "int \<Rightarrow> tb_role" where
  "tb_role_of = role_at (user_role + 1)
     [TbWindowIdRole, TbTitleRole, TbAppIdRole, TbIsMinimizedRole, TbIsFocusedRole] TbOtherRole"

definition tb_schema :: schema where
  "tb_schema =
     [(257, ''windowId'', QStringT), (258, ''title'', QStringT), (259, ''appId'', QStringT),
      (260, ''isMinimized'', QBoolT), (261, ''isFocused'', QBoolT)]"

definition dt_role_of :: "int \<Rightarrow> dt_role" where
  "dt_role_of = role_at (user_role + 1)
     [DtNameRole, DtFilePathRole, DtTargetPathRole, DtIconNameRole, DtMimeTypeRole, DtExecRole,
      DtIsDirectoryRole, DtIsShortcutRole, DtIsExecutableRole, DtIsHiddenRole, DtFileSizeRole,
      DtLastModifiedRole, DtEntryRole] DtOtherRole"

definition dt_schema :: schema where
  "dt_schema =
     [(257, ''name'', QStringT), (258, ''filePath'', QStringT), (259, ''targetPath'', QStringT),
      (260, ''iconName'', QStringT), (261, ''mimeType'', QStringT), (262, ''exec'', QStringT),
      (263, ''isDirectory'', QBoolT), (264, ''isShortcut'', QBoolT), (265, ''isExecutable'', QBoolT),
      (266, ''isHidden'', QBoolT), (267, ''fileSize'', QIntT), (268, ''lastModified'', QDateTimeT),
      (269, ''entry'', QVariantMapT)]"

text \<open>The view of the file manager also answers the two roles of Qt that a plain view asks for; its
  \<open>FileEntryRole\<close> has no QML name.\<close>

definition fm_role_of :: "int \<Rightarrow> fm_role" where
  "fm_role_of n =
     (if n = 0 then DisplayRole else if n = 1 then DecorationRole
      else role_at (user_role + 1)
        [FileNameRole, FilePathRole, FileSizeRole, FileTypeRole, MimeTypeRole, LastModifiedRole,
         LastAccessedRole, CreatedRole, PermissionsRole, IsExecutableRole, IsHiddenRole, IsReadableRole,
         IsWritableRole, IconNameRole, ThumbnailRole, OwnerRole, GroupRole, FileEntryRole] FmOtherRole n)"

definition fm_schema :: schema where
  "fm_schema =
     [(257, ''fileName'', QStringT), (258, ''filePath'', QStringT), (259, ''fileSize'', QIntT),
      (260, ''fileType'', QStringT), (261, ''mimeType'', QStringT), (262, ''lastModified'', QDateTimeT),
      (263, ''lastAccessed'', QDateTimeT), (264, ''created'', QDateTimeT), (265, ''permissions'', QIntT),
      (266, ''isExecutable'', QBoolT), (267, ''isHidden'', QBoolT), (268, ''isReadable'', QBoolT),
      (269, ''isWritable'', QBoolT), (270, ''iconName'', QStringT), (271, ''thumbnail'', QStringT),
      (272, ''owner'', QStringT), (273, ''group'', QStringT), (274, [], QVariantMapT),
      (0, [], QStringT), (1, [], QIconT)]"

definition ap_role_of :: "int \<Rightarrow> ap_role" where
  "ap_role_of = role_at (user_role + 1)
     [ApNameRole, ApIconNameRole, ApExecRole, ApGenericNameRole, ApAppIdRole] ApOtherRole"

definition ap_schema :: schema where
  "ap_schema =
     [(257, ''name'', QStringT), (258, ''iconName'', QStringT), (259, ''exec'', QStringT),
      (260, ''genericName'', QStringT), (261, ''appId'', QStringT)]"

definition nc_role_of :: "int \<Rightarrow> nc_role" where
  "nc_role_of = role_at (user_role + 1)
     [NcIdRole, NcAppNameRole, NcSummaryRole, NcBodyRole, NcIconRole, NcUrgencyRole, NcTimestampRole] NcOtherRole"

definition nc_schema :: schema where
  "nc_schema =
     [(257, ''id'', QUIntT), (258, ''appName'', QStringT), (259, ''summary'', QStringT), (260, ''body'', QStringT),
      (261, ''icon'', QStringT), (262, ''urgency'', QIntT), (263, ''timestamp'', QDateTimeT)]"

definition us_role_of :: "int \<Rightarrow> us_role" where
  "us_role_of = role_at (user_role + 1)
     [UsUsernameRole, UsDisplayNameRole, UsUidRole, UsHomeDirRole, UsAvatarPathRole] UsOtherRole"

definition us_schema :: schema where
  "us_schema =
     [(257, ''username'', QStringT), (258, ''displayName'', QStringT), (259, ''uid'', QUIntT),
      (260, ''homeDir'', QStringT), (261, ''avatarPath'', QStringT)]"

definition wp_role_of :: "int \<Rightarrow> wp_role" where
  "wp_role_of = role_at (user_role + 1) [WpNameRole, WpPathRole, WpIsUserRole] WpOtherRole"

definition wp_schema :: schema where
  "wp_schema = [(257, ''name'', QStringT), (258, ''path'', QUrlT), (259, ''isUser'', QBoolT)]"

lemmas role_tables = user_role_def named_roles_def
  tb_role_of_def tb_schema_def tb_roleNames_def dt_role_of_def dt_schema_def dt_roleNames_def
  fm_role_of_def fm_schema_def fm_roleNames_def ap_role_of_def ap_schema_def ap_roleNames_def
  nc_role_of_def nc_schema_def nc_roleNames_def us_role_of_def us_schema_def us_roleNames_def
  wp_role_of_def wp_schema_def wp_roleNames_def

interpretation taskbar_typed: typed_item_model tb_windows tb_rowCount tb_data tb_cell tb_roleNames tb_role_of tb_schema
  by unfold_locales (simp_all add: role_tables)

interpretation desktop_typed: typed_item_model dt_entries dt_rowCount dt_data dt_cell dt_roleNames dt_role_of dt_schema
  by unfold_locales (simp_all add: role_tables)

interpretation file_typed: typed_item_model fm_entries fm_rowCount fm_data fm_cell fm_roleNames fm_role_of fm_schema
  by unfold_locales (simp_all add: role_tables)

interpretation app_typed: typed_item_model "\<lambda>apps. apps" ap_rowCount ap_data ap_cell ap_roleNames ap_role_of ap_schema
  by unfold_locales (simp_all add: role_tables)

interpretation notif_typed: typed_item_model nc_notifications nc_rowCount nc_data nc_cell nc_roleNames nc_role_of nc_schema
  by unfold_locales (simp_all add: role_tables)

interpretation user_typed: typed_item_model "\<lambda>us. us" us_rowCount us_data us_cell us_roleNames us_role_of us_schema
  by unfold_locales (simp_all add: role_tables)

interpretation wallpaper_typed: typed_item_model wp_entries wp_rowCount "wp_data U" "wp_cell U" wp_roleNames wp_role_of wp_schema
  for U
  by unfold_locales (simp_all add: role_tables)

text \<open>
  Every list model is well typed. For each of the seven models, whatever the state, the index and
  the role number: \<open>data\<close> answers with a value of the type its schema gives for the role if the
  index is a row of the model and the role one of the schema, and with the invalid variant
  otherwise. The names that QML sees are those of the schema, in its order, each decoded from
  its own number.
\<close>

theorem model_data_typed:
  "type_of (tb_data tb index (tb_role_of n)) = schema_type tb_schema (tb_rowCount tb None) index n \<and>
   type_of (dt_data dt index (dt_role_of n)) = schema_type dt_schema (dt_rowCount dt None) index n \<and>
   type_of (fm_data fm index (fm_role_of n)) = schema_type fm_schema (fm_rowCount fm None) index n \<and>
   type_of (ap_data ap index (ap_role_of n)) = schema_type ap_schema (ap_rowCount ap None) index n \<and>
   type_of (nc_data nc index (nc_role_of n)) = schema_type nc_schema (nc_rowCount nc None) index n \<and>
   type_of (us_data us index (us_role_of n)) = schema_type us_schema (us_rowCount us None) index n \<and>
   type_of (wp_data U wp index (wp_role_of n)) = schema_type wp_schema (wp_rowCount wp None) index n \<and>
   tb_roleNames = named_roles tb_role_of tb_schema \<and> dt_roleNames = named_roles dt_role_of dt_schema \<and>
   fm_roleNames = named_roles fm_role_of fm_schema \<and> ap_roleNames = named_roles ap_role_of ap_schema \<and>
   nc_roleNames = named_roles nc_role_of nc_schema \<and> us_roleNames = named_roles us_role_of us_schema \<and>
   wp_roleNames = named_roles wp_role_of wp_schema"
  by (intro conjI taskbar_typed.typed_data desktop_typed.typed_data file_typed.typed_data app_typed.typed_data
      notif_typed.typed_data user_typed.typed_data wallpaper_typed.typed_data
      taskbar_typed.schema_names desktop_typed.schema_names file_typed.schema_names app_typed.schema_names
      notif_typed.schema_names user_typed.schema_names wallpaper_typed.schema_names)

end
