(* ===== verification/FileReports.thy ===== *)
theory FileReports
  imports FileMove "HOL-Library.Sublist"
begin

text \<open>
  What the file manager is told: the seven operations of apps/files/src/FileOperations.h that end
  with a signal of their own, as one data type of calls, the reports they make, and the sizes
  the program shows (\<open>humanSize\<close>). An operation that fails says so, names what failed, and,
  unless it works on a directory, has changed nothing.
\<close>

subsection \<open>Calls and their reports\<close>

datatype fo_call =
    CallCopy path path
  | CallMove path path
  | CallRename path string
  | CallDelete path bool
  | CallCreateFolder path string
  | CallCreateFile path string
  | CallDuplicate path

fun fo_dispatch :: "nat \<Rightarrow> 'fs qfs \<Rightarrow> fo_call \<Rightarrow> 'fs \<Rightarrow> ('fs \<times> fo_signal) option" where
  "fo_dispatch fuel Q (CallCopy source dest) s = copy_op fuel Q source dest s"
| "fo_dispatch fuel Q (CallMove source dest) s = move_op fuel Q source dest s"
| "fo_dispatch fuel Q (CallRename p newName) s = Some (rename_op Q p newName s)"
| "fo_dispatch fuel Q (CallDelete p permanent) s = delete_op fuel Q p permanent s"
| "fo_dispatch fuel Q (CallCreateFolder parentDir name) s = Some (createFolder_op Q parentDir name s)"
| "fo_dispatch fuel Q (CallCreateFile parentDir name) s = Some (createFile_op Q parentDir name s)"
| "fo_dispatch fuel Q (CallDuplicate p) s = duplicate_op fuel Q p s"

text \<open>The report as a sum: \<open>Inl\<close> the message of a failure, \<open>Inr\<close> a success.\<close>

fun report :: "fo_signal \<Rightarrow> string + unit" where
  "report (CopyFinished ok err) = (if ok then Inr () else Inl err)"
| "report (MoveFinished ok err) = (if ok then Inr () else Inl err)"
| "report (RenameFinished ok err) = (if ok then Inr () else Inl err)"
| "report (DeleteFinished ok err) = (if ok then Inr () else Inl err)"
| "report (CreateFolderFinished ok err) = (if ok then Inr () else Inl err)"
| "report (CreateFileFinished ok err) = (if ok then Inr () else Inl err)"
| "report (DuplicateFinished ok err) = (if ok then Inr () else Inl err)"
| "report (OperationProgress m) = Inl m"

fun report_text :: "fo_signal \<Rightarrow> string" where
  "report_text (CopyFinished ok err) = err"
| "report_text (MoveFinished ok err) = err"
| "report_text (RenameFinished ok err) = err"
| "report_text (DeleteFinished ok err) = err"
| "report_text (CreateFolderFinished ok err) = err"
| "report_text (CreateFileFinished ok err) = err"
| "report_text (DuplicateFinished ok err) = err"
| "report_text (OperationProgress m) = m"

text \<open>Which signal answers which call, and the name that a failure mentions.\<close>

inductive answers :: "fo_call \<Rightarrow> fo_signal \<Rightarrow> bool" where
  "answers (CallCopy a d) (CopyFinished ok err)"
| "answers (CallMove a d) (MoveFinished ok err)"
| "answers (CallRename p n) (RenameFinished ok err)"
| "answers (CallDelete p permanent) (DeleteFinished ok err)"
| "answers (CallCreateFolder p n) (CreateFolderFinished ok err)"
| "answers (CallCreateFile p n) (CreateFileFinished ok err)"
| "answers (CallDuplicate p) (DuplicateFinished ok err)"

inductive_simps answers_call [simp]:
  "answers (CallCopy a d) sig" "answers (CallMove a d) sig" "answers (CallRename p n) sig"
  "answers (CallDelete p permanent) sig" "answers (CallCreateFolder p n) sig"
  "answers (CallCreateFile p n) sig" "answers (CallDuplicate p) sig"

fun subject_of :: "'fs qfs \<Rightarrow> 'fs \<Rightarrow> fo_call \<Rightarrow> string" where
  "subject_of Q s (CallCopy a d) = (if fExists Q s a then pFileName Q a else a)"
| "subject_of Q s (CallMove a d) = pFileName Q a"
| "subject_of Q s (CallRename p n) = n"
| "subject_of Q s (CallDelete p permanent) = pFileName Q p"
| "subject_of Q s (CallCreateFolder p n) = n"
| "subject_of Q s (CallCreateFile p n) = n"
| "subject_of Q s (CallDuplicate p) = pFileName Q p"

text \<open>Calls that are turned down before anything is touched, and calls that one call of the file system
  decides. A move is none of the latter, as it may copy and then remove, and neither is a delete
  to the trash, which makes the directories of the trash first.\<close>

fun refused :: "'fs qfs \<Rightarrow> 'fs \<Rightarrow> fo_call \<Rightarrow> bool" where
  "refused Q s (CallCopy a d) = (\<not> fExists Q s a)"
| "refused Q s (CallRename p n) =
     (\<not> isSafeName n \<or> fExists Q s (pJoin Q (pDir Q p) n) \<and> pJoin Q (pDir Q p) n \<noteq> pAbs Q p)"
| "refused Q s (CallCreateFolder p n) = (\<not> isSafeName n)"
| "refused Q s (CallCreateFile p n) = (\<not> isSafeName n)"
| "refused Q s _ = False"

fun all_or_nothing :: "'fs qfs \<Rightarrow> 'fs \<Rightarrow> fo_call \<Rightarrow> bool" where
  "all_or_nothing Q s (CallCopy a d) = (\<not> fIsDir Q s a)"
| "all_or_nothing Q s (CallMove a d) = False"
| "all_or_nothing Q s (CallRename p n) = True"
| "all_or_nothing Q s (CallDelete p permanent) = (permanent \<and> \<not> fIsDir Q s p)"
| "all_or_nothing Q s (CallCreateFolder p n) = False"
| "all_or_nothing Q s (CallCreateFile p n) = True"
| "all_or_nothing Q s (CallDuplicate p) = (\<not> fIsDir Q s p)"

fun canon_call :: "'fs qfs \<Rightarrow> (path \<Rightarrow> bool) \<Rightarrow> 'fs \<Rightarrow> fo_call \<Rightarrow> bool" where
  "canon_call Q canon s (CallCopy a d) = (canon a \<and> canon (resolveDestination Q s a d))"
| "canon_call Q canon s (CallMove a d) = (canon a \<and> canon (resolveDestination Q s a d))"
| "canon_call Q canon s (CallRename p n) = (canon p \<and> canon (pDir Q p))"
| "canon_call Q canon s (CallDelete p permanent) = canon p"
| "canon_call Q canon s (CallCreateFolder p n) = canon p"
| "canon_call Q canon s (CallCreateFile p n) = canon p"
| "canon_call Q canon s (CallDuplicate p) = (canon p \<and> canon (duplicate_target Q p s))"

lemmas op_defs =
  copy_op_def move_op_def rename_op_def delete_op_def createFolder_op_def createFile_op_def duplicate_op_def
  performCopy_def Let_def

lemmas op_splits = if_splits option.splits prod.splits bool.splits

lemma dispatch_answers: "fo_dispatch fuel Q c s = Some (s', sig) \<Longrightarrow> answers c sig"
  by (cases c) (auto simp: op_defs split: op_splits)

lemma dispatch_text:
  "fo_dispatch fuel Q c s = Some (s', sig) \<Longrightarrow>
    report sig = (if report_text sig = [] then Inr () else Inl (report_text sig))"
  by (cases c) (auto simp: op_defs split: op_splits)

lemma sublist_ConsI: "sublist n xs \<Longrightarrow> sublist n (x # xs)"
  by (simp add: sublist_Cons_right)

lemma dispatch_names:
  assumes "fo_dispatch fuel Q c s = Some (s', sig)" and "report sig = Inl m"
  shows "sublist (subject_of Q s c) m"
  using assms
  by (cases c) (auto simp: op_defs sublist_ConsI split: op_splits intro: sublist_append_leftI)

lemma dispatch_refused:
  "fo_dispatch fuel Q c s = Some (s', sig) \<Longrightarrow> refused Q s c \<Longrightarrow> s' = s \<and> report sig \<noteq> Inr ()"
  by (cases c) (auto simp: op_defs split: op_splits)

text \<open>Calls on one file are all or nothing.\<close>

lemma copy_file_atomic:
  assumes "qfs_laws Q canon node_at hidden" and "canon a" and "canon (resolveDestination Q s a d)"
    and "\<not> fIsDir Q s a" and "copy_op fuel Q a d s = Some (s', CopyFinished False err)"
  shows "node_at s' = node_at s"
  using assms(4,5) qfs_copy(2) [OF assms(1-3)] by (auto simp: op_defs split: op_splits)

lemma rename_atomic:
  assumes "qfs_laws Q canon node_at hidden" and "canon p" and "canon (pDir Q p)"
    and "rename_op Q p n s = (s', RenameFinished False err)"
  shows "node_at s' = node_at s"
proof (cases "isSafeName n")
  case True
  then have "canon (pJoin Q (pDir Q p) n)" using assms(1,3) safe_plain by (blast intro: qfs_canon)
  from qfs_rename(3) [OF assms(1,2) this] assms(4) show ?thesis
    by (auto simp: rename_op_def Let_def split: op_splits)
next
  case False
  with assms(4) show ?thesis by (simp add: rename_op_def)
qed

lemma delete_file_atomic:
  assumes "qfs_laws Q canon node_at hidden" and "canon p" and "\<not> fIsDir Q s p"
    and "delete_op fuel Q p True s = Some (s', DeleteFinished False err)"
  shows "node_at s' = node_at s"
  using assms(3,4) qfs_remove(2) [OF assms(1,2)]
  by (auto simp: delete_op_def performDelete_def split: op_splits)

lemma createFile_atomic:
  assumes "qfs_laws Q canon node_at hidden" and "canon p" and "createFile_op Q p n s = (s', CreateFileFinished False err)"
  shows "node_at s' = node_at s"
proof (cases "isSafeName n")
  case True
  then have "canon (pJoin Q p n)" using assms(1,2) safe_plain by (blast intro: qfs_canon)
  from qfs_create(2) [OF assms(1) this] assms(3) show ?thesis
    by (auto simp: createFile_op_def split: op_splits)
next
  case False
  with assms(3) show ?thesis by (simp add: createFile_op_def)
qed

lemma duplicate_file_atomic:
  assumes "qfs_laws Q canon node_at hidden" and "canon p" and "canon (duplicate_target Q p s)"
    and "\<not> fIsDir Q s p" and "duplicate_op fuel Q p s = Some (s', DuplicateFinished False err)"
  shows "node_at s' = node_at s"
  using assms(4,5) qfs_copy(2) [OF assms(1-3)] by (auto simp: duplicate_op_def Let_def split: op_splits)

lemmas file_atomic =
  copy_file_atomic rename_atomic delete_file_atomic createFile_atomic duplicate_file_atomic

lemma dispatch_atomic:
  assumes "qfs_laws Q canon node_at hidden" and "canon_call Q canon s c" and "all_or_nothing Q s c"
    and "fo_dispatch fuel Q c s = Some (s', sig)" and "report sig \<noteq> Inr ()"
  shows "node_at s' = node_at s"
  using dispatch_answers [OF assms(4)] assms(2-5)
  by (cases c) (auto split: if_splits elim!: answers.cases intro: file_atomic [OF assms(1)])

text \<open>
  C15. Every operation of the file manager reports itself, once, and truthfully. A call is
  answered by the signal of that operation; the signal carries a message exactly if the
  operation failed, and the message contains the name that the operation was about. A call
  that is turned down (the source is missing, the name is not a plain name, the new name is
  taken) leaves the disk as it was. So do a copy, a duplicate and a permanent delete of what is no
  directory, a rename and a new file, if they fail; a move and a delete to the trash that fail
  may leave the copy or the directories of the trash behind.
\<close>

theorem operations_report:
  assumes "qfs_laws Q canon node_at hidden" and "canon_call Q canon s c"
    and "fo_dispatch fuel Q c s = Some (s', sig)"
  shows "answers c sig \<and>
    (case report sig of
       Inr u \<Rightarrow> report_text sig = [] \<and> \<not> refused Q s c
     | Inl m \<Rightarrow> report_text sig = m \<and> m \<noteq> [] \<and> sublist (subject_of Q s c) m \<and>
         (refused Q s c \<longrightarrow> s' = s) \<and> (all_or_nothing Q s c \<longrightarrow> node_at s' = node_at s))"
proof -
  have shape: "report sig = (if report_text sig = [] then Inr () else Inl (report_text sig))"
    using assms(3) by (rule dispatch_text)
  note facts = dispatch_answers [OF assms(3)] dispatch_refused [OF assms(3)] dispatch_atomic [OF assms(1,2) _ assms(3)]
  show ?thesis
  proof (cases "report_text sig = []")
    case True
    with shape have "report sig = Inr ()" by simp
    moreover from this have "\<not> refused Q s c" using facts(2) by blast
    ultimately show ?thesis using True facts(1) by simp
  next
    case False
    with shape have msg: "report sig = Inl (report_text sig)" by simp
    with facts(2,3) have "refused Q s c \<longrightarrow> s' = s" and "all_or_nothing Q s c \<longrightarrow> node_at s' = node_at s" by auto
    with False facts(1) dispatch_names [OF assms(3) msg] msg show ?thesis by simp
  qed
qed

theorem operations_report_witness:
  "fo_dispatch 3 mem_fs (CallRename ''/a/f'' ''d'') demo_tree =
     Some (demo_tree, RenameFinished False ''A file named d already exists.'') \<and>
   sublist ''d'' ''A file named d already exists.''"
proof -
  have run: "fo_dispatch 3 mem_fs (CallRename ''/a/f'' ''d'') demo_tree =
      Some (demo_tree, RenameFinished False ''A file named d already exists.'')"
    by code_simp
  have dir: "pDir mem_fs ''/a/f'' = ''/a''" by code_simp
  have "canon_call mem_fs mem_canon demo_tree (CallRename ''/a/f'' ''d'')"
    by (simp add: dir mem_canon_def)
  from operations_report [OF mem_fs_laws this run] run show ?thesis by simp
qed


subsection \<open>Sizes\<close>

text \<open>A \<open>double\<close> has 53 significant bits: the conversion is off by less than one part in \<open>2 ^ 53\<close>.\<close>

lemma to_double_error:
  assumes "0 \<le> n"
  shows "\<bar>to_double n - of_int n\<bar> * 2 ^ 53 \<le> of_int n"
proof (cases "n \<le> 9007199254740992")
  case True
  with assms show ?thesis by simp
next
  case False
  define k where "k = double_shift n"
  define q where "q = n div 2 ^ k"
  define r where "r = n mod 2 ^ k"
  define q' where "q' = (if 2 * r > 2 ^ k \<or> (2 * r = 2 ^ k \<and> odd q) then q + 1 else q)"
  have d: "to_double n = of_int (q' * 2 ^ k)"
    using False assms by (simp add: to_double_def Let_def k_def q_def r_def q'_def)
  have n: "n = q * 2 ^ k + r" unfolding q_def r_def by (rule div_mult_mod_eq [symmetric])
  have r: "0 \<le> r" "r < 2 ^ k" by (simp_all add: r_def)
  have half: "2 * \<bar>q' * 2 ^ k - n\<bar> \<le> 2 ^ k"
  proof (cases "q' = q")
    case True
    then have "2 * r \<le> 2 ^ k" using q'_def by (auto split: if_splits)
    with True n r show ?thesis by simp
  next
    case False
    then have "q' = q + 1" and "2 ^ k \<le> 2 * r" using q'_def by (auto split: if_splits)
    with n r show ?thesis by (simp add: algebra_simps)
  qed
  have "k = 0 \<or> 2 ^ (52 + k) \<le> n" using double_shift_pow [of n] by (simp add: k_def)
  then have "2 ^ k * 2 ^ 52 \<le> n" using False by (auto simp: power_add mult.commute)
  with half have "\<bar>q' * 2 ^ k - n\<bar> * 2 ^ 53 \<le> n" by simp
  then have "of_int (\<bar>q' * 2 ^ k - n\<bar> * 2 ^ 53) \<le> (of_int n :: rat)" by (simp only: of_int_le_iff)
  then show ?thesis unfolding d by simp
qed

text \<open>The number that is shown, with the decimals of its unit. \<open>reads\<close> is the number that a text stands
  for; QString::number rounds to the decimals it is asked for.\<close>

definition decimals :: "nat \<Rightarrow> nat" where
  "decimals k = (if k \<le> 2 then 1 else 2)"

definition size_number :: "(rat \<Rightarrow> nat \<Rightarrow> string) \<Rightarrow> (int \<Rightarrow> string) \<Rightarrow> int \<Rightarrow> nat \<Rightarrow> string" where
  "size_number fmt num bytes k = (if k = 0 then num bytes else fmt (to_double bytes / 1024 ^ k) (decimals k))"

definition formats :: "(string \<Rightarrow> rat) \<Rightarrow> (rat \<Rightarrow> nat \<Rightarrow> string) \<Rightarrow> (int \<Rightarrow> string) \<Rightarrow> bool" where
  "formats reads fmt num \<longleftrightarrow>
     (\<forall>n. reads (num n) = of_int n) \<and> (\<forall>v d. \<bar>reads (fmt v d) - v\<bar> \<le> 1 / (2 * 10 ^ d))"

lemma size_number_error:
  assumes "formats reads fmt num" and "0 \<le> bytes"
  shows "\<bar>reads (size_number fmt num bytes k) - of_int bytes / 1024 ^ k\<bar> \<le>
    (if k = 0 then 0 else 1 / (2 * 10 ^ decimals k)) + (if bytes \<le> 2 ^ 53 then 0 else of_int bytes / 1024 ^ k / 2 ^ 53)"
proof (cases "k = 0")
  case True
  with assms show ?thesis by (simp add: size_number_def formats_def)
next
  case False
  let ?d = "to_double bytes"
  have "\<bar>?d - of_int bytes\<bar> \<le> (if bytes \<le> 2 ^ 53 then 0 else of_int bytes / 2 ^ 53)"
    using to_double_error [OF assms(2)] assms(2) by (simp add: to_double_exact pos_le_divide_eq)
  then have "\<bar>?d - of_int bytes\<bar> / 1024 ^ k \<le> (if bytes \<le> 2 ^ 53 then 0 else of_int bytes / 2 ^ 53) / 1024 ^ k"
    by (intro divide_right_mono) simp_all
  moreover have "\<bar>?d / 1024 ^ k - of_int bytes / 1024 ^ k\<bar> = \<bar>?d - of_int bytes\<bar> / 1024 ^ k"
    by (simp add: diff_divide_distrib [symmetric] abs_divide)
  ultimately have "\<bar>?d / 1024 ^ k - of_int bytes / 1024 ^ k\<bar> \<le> (if bytes \<le> 2 ^ 53 then 0 else of_int bytes / 1024 ^ k / 2 ^ 53)"
    by (simp add: mult.commute split: if_splits)
  moreover have "\<bar>reads (fmt (?d / 1024 ^ k) (decimals k)) - ?d / 1024 ^ k\<bar> \<le> 1 / (2 * 10 ^ decimals k)"
    using assms(1) by (simp add: formats_def)
  ultimately show ?thesis using False by (simp add: size_number_def abs_le_iff split: if_splits)
qed

text \<open>
  C16. A size is shown in the unit that fits it, rounded correctly. For every size that a 64-bit
  integer can hold the text is a number, a space and B, KB, MB, GB or TB. The unit is the largest
  that is not above the size (0 is shown in B), so that there are less than 1024 of it, in TB at
  most 8388608. In B the number is the size; otherwise it has one decimal (KB, MB) or two (GB, TB)
  and differs from the exact number of units by at most half of its last decimal, above \<open>2 ^ 53\<close>
  bytes also by the rounding to double, one part in \<open>2 ^ 53\<close>. (So 1048575 bytes show as 1024.0 KB.)
  The two implementations of the program agree below one TB.
\<close>

theorem humanSize_bounds:
  assumes "0 \<le> bytes" and "bytes < 2 ^ 63" and "formats reads fmt num"
  shows "(\<exists>k \<le> 4. \<exists>number.
      FileOperations_humanSize fmt num bytes = number @ '' '' @ [''B'', ''KB'', ''MB'', ''GB'', ''TB''] ! k \<and>
      (if k = 0 then number = num bytes else 1024 ^ k \<le> bytes) \<and>
      bytes < (if k < 4 then 1024 ^ Suc k else 8388608 * 1024 ^ 4) \<and>
      \<bar>reads number - of_int bytes / 1024 ^ k\<bar> \<le>
        (if k = 0 then 0 else if k \<le> 2 then 1 / 20 else 1 / 200) +
        (if bytes \<le> 2 ^ 53 then 0 else of_int bytes / 1024 ^ k / 2 ^ 53)) \<and>
    (bytes < 2 ^ 40 \<longrightarrow> SearchIndexer_humanSize fmt num bytes = FileOperations_humanSize fmt num bytes)"
proof -
  define k :: nat where "k = (if bytes < 2 ^ 10 then 0 else if bytes < 2 ^ 20 then 1
    else if bytes < 2 ^ 30 then 2 else if bytes < 2 ^ 40 then 3 else 4)"
  have "FileOperations_humanSize fmt num bytes =
      size_number fmt num bytes k @ '' '' @ [''B'', ''KB'', ''MB'', ''GB'', ''TB''] ! k"
    using assms(1) by (simp add: humanSize_units size_number_def decimals_def k_def to_double_exact)
  moreover have "k \<le> 4" and "if k = 0 then size_number fmt num bytes k = num bytes else 1024 ^ k \<le> bytes"
      and "bytes < (if k < 4 then 1024 ^ Suc k else 8388608 * 1024 ^ 4)"
    using assms by (auto simp: k_def size_number_def)
  moreover have "\<bar>reads (size_number fmt num bytes k) - of_int bytes / 1024 ^ k\<bar> \<le>
        (if k = 0 then 0 else if k \<le> 2 then 1 / 20 else 1 / 200) +
        (if bytes \<le> 2 ^ 53 then 0 else of_int bytes / 1024 ^ k / 2 ^ 53)"
    using size_number_error [OF assms(3,1), of k] by (auto simp: decimals_def split: if_splits)
  ultimately show ?thesis using humanSize_copies_agree [OF assms(1)] by blast
qed

text \<open>A formatter that writes the decimals it was asked for and then the rounded digits, in unary.\<close>

definition demo_fmt :: "rat \<Rightarrow> nat \<Rightarrow> string" where
  "demo_fmt v d = (if v < 0 then ''-'' else []) @ replicate d CHR ''.'' @ replicate (nat \<bar>round (v * 10 ^ d)\<bar>) CHR ''x''"

definition demo_num :: "int \<Rightarrow> string" where
  "demo_num n = demo_fmt (of_int n) 0"

definition demo_reads :: "string \<Rightarrow> rat" where
  "demo_reads t = (if CHR ''-'' \<in> set t then -1 else 1) *
     of_nat (length (filter (\<lambda>c. c = CHR ''x'') t)) / 10 ^ length (filter (\<lambda>c. c = CHR ''.'') t)"

lemma demo_reads_fmt: "demo_reads (demo_fmt v d) = of_int (round (v * 10 ^ d)) / 10 ^ d"
proof (cases "v < 0")
  case True
  then have "v * 10 ^ d < 0" by (simp add: mult_neg_pos)
  then have "round (v * 10 ^ d) \<le> 0" using round_mono [of "v * 10 ^ d" 0] by simp
  with True show ?thesis by (simp add: demo_reads_def demo_fmt_def)
next
  case False
  then have "0 \<le> v * 10 ^ d" by simp
  then have "0 \<le> round (v * 10 ^ d)" using round_mono [of 0 "v * 10 ^ d"] by simp
  with False show ?thesis by (simp add: demo_reads_def demo_fmt_def)
qed

lemma demo_formats: "formats demo_reads demo_fmt demo_num"
  unfolding formats_def
proof (intro conjI allI)
  fix v :: rat and d :: nat
  have "\<bar>of_int (round (v * 10 ^ d)) - v * 10 ^ d\<bar> / 10 ^ d \<le> 1 / 2 / 10 ^ d"
    by (intro divide_right_mono of_int_round_abs_le) simp
  moreover have "\<bar>of_int (round (v * 10 ^ d)) - v * 10 ^ d\<bar> / 10 ^ d = \<bar>of_int (round (v * 10 ^ d)) / 10 ^ d - v\<bar>"
  proof -
    have "of_int (round (v * 10 ^ d)) / 10 ^ d - v = (of_int (round (v * 10 ^ d)) - v * 10 ^ d) / 10 ^ d"
      by (simp add: diff_divide_distrib)
    then show ?thesis by (simp add: abs_divide)
  qed
  ultimately show "\<bar>demo_reads (demo_fmt v d) - v\<bar> \<le> 1 / (2 * 10 ^ d)" by (simp add: demo_reads_fmt)
qed (simp add: demo_num_def demo_reads_fmt)

theorem humanSize_bounds_witness:
  "FileOperations_humanSize demo_fmt demo_num 1600 = ''.xxxxxxxxxxxxxxxx KB'' \<and>
   SearchIndexer_humanSize demo_fmt demo_num 1600 = ''.xxxxxxxxxxxxxxxx KB''"
proof -
  have "FileOperations_humanSize demo_fmt demo_num 1600 = ''.xxxxxxxxxxxxxxxx KB''"
    by code_simp
  with humanSize_bounds [OF _ _ demo_formats, of 1600] show ?thesis by simp
qed

end
