(* ===== verification/WindowBus.thy ===== *)
theory WindowBus
  imports Taskbar "HOL-Library.List_Lexorder" "HOL-Library.Char_ord"
begin

text \<open>
  The registry and the task bar as two processes on the session bus. The compositor
  (desktop/compositor/src/WindowManagerDBus.cpp) sends signals and replies, the shell
  (desktop/shell/src/TaskbarModel.cpp, its constructor included) sends calls; the bus keeps the
  order of the messages between two peers, so each direction is a queue. The steps are those of
  \<^theory_text>\<open>WindowManager\<close> and \<^theory_text>\<open>Taskbar\<close>; here they are interleaved in every possible way, and the
  shell may start when windows are open already.

  Two history variables record what the defects of the two ends can hit: the windows whose seed
  is in flight (listed, and not yet asked about to the end), and the windows that were
  changed meanwhile, registered twice, or asked about in a call that failed (\<open>bs_lost\<close>). All other
  windows are mirrored exactly once the bus is quiet, and the bus becomes quiet.
\<close>

subsection \<open>The bus\<close>

datatype query = QTitle | QAppId | QMinimized | QFocused

datatype shell_call = CList | CQuery string query | CAction tb_call

datatype bus_msg = MSignal wm_signal | MIds "string list option" | MReply string reply

record bus =
  bs_wm :: wm
  bs_subscribed :: bool
  bs_calls :: "shell_call list"
  bs_msgs :: "bus_msg list"
  bs_tb :: taskbar
  bs_pending :: "string \<Rightarrow> pending_data option"
  bs_seeding :: "string set"
  bs_lost :: "string set"

definition all_queries :: "query list" where
  "all_queries = [QTitle, QAppId, QMinimized, QFocused]"

text \<open>The answer to one of the four calls, an error reply if \<open>ok\<close> is false.\<close>

fun answer :: "bool \<Rightarrow> wm \<Rightarrow> string \<Rightarrow> query \<Rightarrow> reply" where
  "answer ok s wid QTitle = TitleReply (if ok then Some (WindowTitle s wid) else None)"
| "answer ok s wid QAppId = AppIdReply (if ok then Some (WindowAppId s wid) else None)"
| "answer ok s wid QMinimized = MinimizedReply (if ok then Some (WindowMinimized s wid) else None)"
| "answer ok s wid QFocused = FocusedReply (if ok then Some (WindowFocused s wid) else None)"

fun action_op :: "tb_call \<Rightarrow> wm_op" where
  "action_op (CallActivate wid) = OpActivate wid"
| "action_op (CallMinimize wid) = OpMinimize wid"
| "action_op (CallClose wid) = OpClose wid"

text \<open>The constructor of the task bar, with the compositor on the bus: the four subscriptions, and the call
  that asks for the ids. (Without the compositor the constructor makes no call and logs a warning;
  a shell that starts first is not a run of this model.)\<close>

definition bus_start :: "bus \<Rightarrow> bus" where
  "bus_start b = (if bs_subscribed b then b else b\<lparr>bs_subscribed := True, bs_calls := bs_calls b @ [CList]\<rparr>)"

text \<open>An operation of the window chrome in the compositor; its signals reach a shell that has
  subscribed.\<close>

fun op_id :: "wm_op \<Rightarrow> string" where
  "op_id (OpRegister wid t a) = wid"
| "op_id (OpUnregister wid) = wid"
| "op_id (OpState wid m f) = wid"
| "op_id (OpMetadata wid t a) = wid"
| "op_id (OpActivate wid) = wid"
| "op_id (OpMinimize wid) = wid"
| "op_id (OpClose wid) = wid"

fun is_register :: "wm_op \<Rightarrow> bool" where
  "is_register (OpRegister wid t a) = True"
| "is_register _ = False"

definition bus_chrome :: "wm_op \<Rightarrow> bus \<Rightarrow> bus" where
  "bus_chrome op b =
     (case wm_step op (bs_wm b) of (s, sigs) \<Rightarrow>
        if \<not> bs_subscribed b then b\<lparr>bs_wm := s\<rparr>
        else b\<lparr>bs_wm := s, bs_msgs := bs_msgs b @ map MSignal sigs,
               bs_lost := (if op_id op \<in> bs_seeding b \<or> (is_register op \<and> wm_windows (bs_wm b) (op_id op) \<noteq> None)
                           then insert (op_id op) (bs_lost b) else bs_lost b)\<rparr>)"

text \<open>A click on a row of the task bar.\<close>

definition bus_click :: "(taskbar \<Rightarrow> tb_call list) \<Rightarrow> bus \<Rightarrow> bus" where
  "bus_click action b = b\<lparr>bs_calls := bs_calls b @ map CAction (action (bs_tb b))\<rparr>"

text \<open>The compositor takes the next call; \<open>ok\<close> is whether the caller gets an answer or an error.\<close>

definition bus_handle :: "((string \<Rightarrow> window_record option) \<Rightarrow> string list) \<Rightarrow> bool \<Rightarrow> bus \<Rightarrow> bus" where
  "bus_handle keys ok b =
     (case bs_calls b of
        [] \<Rightarrow> b
      | CList # cs \<Rightarrow>
          (let ids = ListWindowIds keys (bs_wm b) in
           if ok then b\<lparr>bs_calls := cs, bs_msgs := bs_msgs b @ [MIds (Some ids)], bs_seeding := set ids\<rparr>
           else b\<lparr>bs_calls := cs, bs_msgs := bs_msgs b @ [MIds None], bs_lost := bs_lost b \<union> set ids\<rparr>)
      | CQuery wid q # cs \<Rightarrow>
          b\<lparr>bs_calls := cs, bs_msgs := bs_msgs b @ [MReply wid (answer ok (bs_wm b) wid q)],
            bs_seeding := (if q = QFocused then bs_seeding b - {wid} else bs_seeding b),
            bs_lost := (if ok then bs_lost b else insert wid (bs_lost b))\<rparr>
      | CAction a # cs \<Rightarrow>
          (if ok then case wm_step (action_op a) (bs_wm b) of (s, sigs) \<Rightarrow>
             b\<lparr>bs_calls := cs, bs_wm := s, bs_msgs := bs_msgs b @ map MSignal sigs\<rparr>
           else b\<lparr>bs_calls := cs\<rparr>))"

text \<open>The shell takes the next message: a signal, the list of ids (four calls about each), or the
  answer to one of those calls.\<close>

definition bus_deliver :: "bus \<Rightarrow> bus" where
  "bus_deliver b =
     (case bs_msgs b of
        [] \<Rightarrow> b
      | MSignal sig # ms \<Rightarrow> b\<lparr>bs_msgs := ms, bs_tb := fst (tb_signal sig (bs_tb b))\<rparr>
      | MIds None # ms \<Rightarrow> b\<lparr>bs_msgs := ms\<rparr>
      | MIds (Some ids) # ms \<Rightarrow>
          b\<lparr>bs_msgs := ms,
            bs_pending := (\<lambda>wid. if wid \<in> set ids then Some init_pending else bs_pending b wid),
            bs_calls := bs_calls b @ concat (map (\<lambda>wid. map (CQuery wid) all_queries) ids)\<rparr>
      | MReply wid r # ms \<Rightarrow>
          (case bs_pending b wid of
             None \<Rightarrow> b\<lparr>bs_msgs := ms\<rparr>
           | Some d \<Rightarrow> (case on_reply wid r (d, bs_tb b) of (d', tb) \<Rightarrow>
               b\<lparr>bs_msgs := ms, bs_tb := tb,
                 bs_pending := (bs_pending b)(wid := if remaining d' = 0 then None else Some d')\<rparr>)))"

inductive bus_step :: "((string \<Rightarrow> window_record option) \<Rightarrow> string list) \<Rightarrow> bus \<Rightarrow> bus \<Rightarrow> bool"
  for keys where
  start: "bus_step keys b (bus_start b)"
| chrome: "bus_step keys b (bus_chrome op b)"
| click: "action \<in> {tb_activate row, tb_minimize row, tb_toggle row, tb_close row} \<Longrightarrow> bs_subscribed b
    \<Longrightarrow> bus_step keys b (bus_click action b)"
| handle: "bs_calls b \<noteq> [] \<Longrightarrow> bus_step keys b (bus_handle keys ok b)"
| deliver: "bs_msgs b \<noteq> [] \<Longrightarrow> bus_step keys b (bus_deliver b)"

text \<open>What the bus does by itself: taking calls and messages off the queues.\<close>

inductive bus_internal :: "((string \<Rightarrow> window_record option) \<Rightarrow> string list) \<Rightarrow> bus \<Rightarrow> bus \<Rightarrow> bool"
  for keys where
  "bs_calls b \<noteq> [] \<Longrightarrow> bus_internal keys b (bus_handle keys ok b)"
| "bs_msgs b \<noteq> [] \<Longrightarrow> bus_internal keys b (bus_deliver b)"

definition init_bus :: "wm \<Rightarrow> bus" where
  "init_bus s = \<lparr>bs_wm = s, bs_subscribed = False, bs_calls = [], bs_msgs = [],
     bs_tb = \<lparr>tb_windows = [], lastFocusedWindowId = [], has_iface = True\<rparr>,
     bs_pending = Map.empty, bs_seeding = {}, bs_lost = {}\<rparr>"

inductive_cases bus_stepE: "bus_step keys b b'"
inductive_cases bus_internalE: "bus_internal keys b b'"

text \<open>\<open>QHash::keys\<close>: every key once, in any order.\<close>

definition keys_ok :: "((string \<Rightarrow> window_record option) \<Rightarrow> string list) \<Rightarrow> bool" where
  "keys_ok keys \<longleftrightarrow> (\<forall>m. finite (dom m) \<longrightarrow> distinct (keys m) \<and> set (keys m) = dom m)"


subsection \<open>One window at a time\<close>

text \<open>What a signal does to the task bar's record of one window.\<close>

fun sig_upd :: "string \<Rightarrow> wm_signal \<Rightarrow> window_record option \<Rightarrow> window_record option" where
  "sig_upd w (WindowRegistered wid t a) v =
     (if wid \<noteq> w then v else
      (case v of None \<Rightarrow> Some \<lparr>wr_title = t, wr_appId = a, wr_minimized = False, wr_focused = False\<rparr>
       | Some r \<Rightarrow> Some (r\<lparr>wr_title := t, wr_appId := a\<rparr>)))"
| "sig_upd w (WindowUnregistered wid) v = (if wid \<noteq> w then v else None)"
| "sig_upd w (WindowStateChanged wid m f) v =
     (if wid \<noteq> w then v else map_option (\<lambda>r. r\<lparr>wr_minimized := m, wr_focused := f\<rparr>) v)"
| "sig_upd w (WindowMetadataChanged wid t a) v =
     (if wid \<noteq> w then v else map_option (\<lambda>r. r\<lparr>wr_title := t, wr_appId := a\<rparr>) v)"
| "sig_upd w _ v = v"

lemma registered_known:
  assumes "tb_view tb wid = Some r"
  shows "onWindowRegistered wid t a tb = onWindowMetadataChanged wid t a tb"
  using assms by (auto simp: onWindowRegistered_def tb_view_idx split: option.splits)

lemma view_signal:
  assumes "tb_wf tb"
  shows "tb_view (fst (tb_signal sig tb)) w = sig_upd w sig (tb_view tb w)"
proof (cases sig)
  case (WindowRegistered wid t a)
  then show ?thesis
    by (cases "tb_view tb wid") (auto simp: view_registered registered_known view_metadata)
qed (auto simp: view_metadata view_state view_unregistered [OF assms] split: option.splits)

lemma upd_step:
  assumes "wm_windows s w = v" and "op_id op = w \<and> is_register op \<longrightarrow> v = None"
  shows "fold (sig_upd w) (snd (wm_step op s)) v = wm_windows (fst (wm_step op s)) w"
  using assms by (cases op) (auto simp: wm_defs split: option.splits)

text \<open>A window the task bar does not know, or that closes, stays unknown until it is registered.\<close>

lemma upd_step_None:
  assumes "wm_windows (fst (wm_step op s)) w = None" and "wm_windows s w = None \<longrightarrow> v = None"
  shows "fold (sig_upd w) (snd (wm_step op s)) v = None"
  using assms by (cases op) (auto simp: wm_defs split: option.splits if_splits)

lemma upd_other: "op_id op \<noteq> w \<Longrightarrow> fold (sig_upd w) (snd (wm_step op s)) v = v"
  by (cases op) (auto simp: wm_defs split: option.splits)

lemma step_other: "op_id op \<noteq> w \<Longrightarrow> wm_windows (fst (wm_step op s)) w = wm_windows s w"
  by (cases op) (auto simp: wm_defs split: option.splits)

definition full_record :: "pending_data \<Rightarrow> window_record" where
  "full_record d = \<lparr>wr_title = pd_title d, wr_appId = pd_appId d, wr_minimized = pd_minimized d, wr_focused = pd_focused d\<rparr>"

lemma view_finish_seed:
  "tb_view (finish_seed wid d tb) = (tb_view tb)(wid \<mapsto> full_record d)"
proof (cases "tb_view tb wid")
  case None
  then show ?thesis by (simp add: finish_seed_def view_registered view_state full_record_def)
next
  case (Some r)
  then show ?thesis
    by (cases r) (simp add: finish_seed_def registered_known view_metadata view_state full_record_def)
qed

text \<open>The record of one window and its pending seed, as messages are taken.\<close>

fun proc :: "string \<Rightarrow> bus_msg \<Rightarrow> window_record option \<times> pending_data option \<Rightarrow> window_record option \<times> pending_data option" where
  "proc w (MSignal sig) (v, p) = (sig_upd w sig v, p)"
| "proc w (MIds ids) (v, p) = (v, p)"
| "proc w (MReply wid r) (v, p) =
     (if wid \<noteq> w then (v, p) else
      (case p of
         None \<Rightarrow> (v, None)
       | Some d \<Rightarrow>
           (let d' = (store_reply r d)\<lparr>remaining := remaining d - 1\<rparr>
            in if remaining d' = 0 then (Some (full_record d'), None) else (v, Some d'))))"

fun queries_for :: "string \<Rightarrow> shell_call list \<Rightarrow> query list" where
  "queries_for w [] = []"
| "queries_for w (CQuery wid q # cs) = (if wid = w then q # queries_for w cs else queries_for w cs)"
| "queries_for w (CList # cs) = queries_for w cs"
| "queries_for w (CAction a # cs) = queries_for w cs"

definition answers_for :: "string \<Rightarrow> wm \<Rightarrow> shell_call list \<Rightarrow> bus_msg list" where
  "answers_for w s cs = map (\<lambda>q. MReply w (answer True s w q)) (queries_for w cs)"

lemma queries_append [simp]: "queries_for w (xs @ ys) = queries_for w xs @ queries_for w ys"
  by (induction w xs rule: queries_for.induct) auto

lemma queries_actions [simp]: "queries_for w (map CAction xs) = []"
  by (induction xs) auto

lemma queries_asked:
  "distinct ids \<Longrightarrow> queries_for w (concat (map (\<lambda>wid. map (CQuery wid) all_queries) ids)) =
    (if w \<in> set ids then all_queries else [])"
  by (induction ids) (auto simp: all_queries_def)

lemma proc_signals: "fold (proc w) (map MSignal sigs) (v, p) = (fold (sig_upd w) sigs v, p)"
  by (induction sigs arbitrary: v) simp_all

fun is_reply :: "bus_msg \<Rightarrow> bool" where
  "is_reply (MReply wid r) = True"
| "is_reply _ = False"

fun is_ids :: "bus_msg \<Rightarrow> bool" where
  "is_ids (MIds ids) = True"
| "is_ids _ = False"

lemma proc_no_reply:
  "\<forall>m \<in> set ms. \<not> is_reply m \<Longrightarrow> \<exists>v'. fold (proc w) ms (v, p) = (v', p)"
proof (induction ms arbitrary: v)
  case (Cons m ms)
  then show ?case by (cases m) auto
qed simp

lemma proc_no_reply_indep:
  "\<forall>m \<in> set ms. \<not> is_reply m \<Longrightarrow>
    fst (fold (proc w) ms (v, p)) = fst (fold (proc w) ms (v, q))"
proof (induction ms arbitrary: v)
  case (Cons m ms)
  then show ?case by (cases m) auto
qed simp

lemma four_answers:
  "fold (proc w) (answers_for w s (map (CQuery w) all_queries)) (v, Some init_pending) = (Some (value_of s w), None)"
  by (simp add: answers_for_def all_queries_def init_pending_def full_record_def WindowTitle_def WindowAppId_def
      WindowMinimized_def WindowFocused_def)


subsection \<open>The invariant\<close>

text \<open>Where the seeding stands: the call for the ids, its reply, or the calls about the windows.\<close>

definition bus_shape :: "bus \<Rightarrow> bool" where
  "bus_shape b \<longleftrightarrow>
     (\<not> bs_subscribed b \<longrightarrow> bs_calls b = [] \<and> bs_msgs b = [] \<and> tb_windows (bs_tb b) = [] \<and>
        bs_pending b = Map.empty \<and> bs_seeding b = {}) \<and>
     tb_wf (bs_tb b) \<and> finite (dom (wm_windows (bs_wm b))) \<and>
     length (filter (\<lambda>c. c = CList) (bs_calls b)) + length (filter is_ids (bs_msgs b)) \<le> 1 \<and>
     (CList \<in> set (bs_calls b) \<or> (\<exists>m \<in> set (bs_msgs b). is_ids m) \<longrightarrow>
        (\<forall>w. queries_for w (bs_calls b) = []) \<and> (\<forall>m \<in> set (bs_msgs b). \<not> is_reply m) \<and> bs_pending b = Map.empty) \<and>
     (CList \<in> set (bs_calls b) \<or> MIds None \<in> set (bs_msgs b) \<longrightarrow> bs_seeding b = {}) \<and>
     (\<forall>ids. MIds (Some ids) \<in> set (bs_msgs b) \<longrightarrow> distinct ids \<and> bs_seeding b = set ids) \<and>
     (\<not> (\<exists>m \<in> set (bs_msgs b). is_ids m) \<longrightarrow>
        (\<forall>w. if w \<in> bs_seeding b then \<exists>k < 4. queries_for w (bs_calls b) = drop k all_queries
             else queries_for w (bs_calls b) = []))"

definition asked :: "string \<Rightarrow> bus_msg list \<Rightarrow> bool" where
  "asked w ms \<longleftrightarrow> (\<exists>ids. MIds (Some ids) \<in> set ms \<and> w \<in> set ids)"

text \<open>The record of window \<open>w\<close> once everything that is under way has arrived.\<close>

definition settled :: "string \<Rightarrow> bus \<Rightarrow> window_record option" where
  "settled w b =
     (if asked w (bs_msgs b) \<or> (CList \<in> set (bs_calls b) \<and> wm_windows (bs_wm b) w \<noteq> None)
      then Some (value_of (bs_wm b) w)
      else fst (fold (proc w) (bs_msgs b @ answers_for w (bs_wm b) (bs_calls b)) (tb_view (bs_tb b) w, bs_pending b w)))"

definition bus_inv :: "bus \<Rightarrow> bool" where
  "bus_inv b \<longleftrightarrow> bus_shape b \<and>
     (bs_subscribed b \<longrightarrow> (\<forall>w. w \<notin> bs_lost b \<longrightarrow> settled w b = wm_windows (bs_wm b) w))"

lemma shapeD:
  assumes "bus_shape b"
  shows "tb_wf (bs_tb b)" and "finite (dom (wm_windows (bs_wm b)))"
    and "CList \<in> set (bs_calls b) \<Longrightarrow> queries_for w (bs_calls b) = [] \<and> (\<forall>m \<in> set (bs_msgs b). \<not> is_reply m \<and> \<not> is_ids m)
      \<and> bs_pending b = Map.empty \<and> bs_seeding b = {}"
    and "asked w (bs_msgs b) \<Longrightarrow> w \<in> bs_seeding b \<and> CList \<notin> set (bs_calls b)"
    and "w \<notin> bs_seeding b \<Longrightarrow> queries_for w (bs_calls b) = []"
proof -
  show "tb_wf (bs_tb b)" and "finite (dom (wm_windows (bs_wm b)))" using assms by (simp_all add: bus_shape_def)
  have one: "\<not> is_ids m" if "CList \<in> set (bs_calls b)" "m \<in> set (bs_msgs b)" for m
  proof
    assume "is_ids m"
    with that have "filter (\<lambda>c. c = CList) (bs_calls b) \<noteq> []" "filter is_ids (bs_msgs b) \<noteq> []"
      by (auto simp: filter_empty_conv)
    then have "0 < length (filter (\<lambda>c. c = CList) (bs_calls b))" "0 < length (filter is_ids (bs_msgs b))" by blast+
    with assms show False unfolding bus_shape_def by linarith
  qed
  show "CList \<in> set (bs_calls b) \<Longrightarrow> queries_for w (bs_calls b) = [] \<and> (\<forall>m \<in> set (bs_msgs b). \<not> is_reply m \<and> \<not> is_ids m)
      \<and> bs_pending b = Map.empty \<and> bs_seeding b = {}"
    using assms one by (auto simp: bus_shape_def)
  show "asked w (bs_msgs b) \<Longrightarrow> w \<in> bs_seeding b \<and> CList \<notin> set (bs_calls b)"
    using assms one unfolding bus_shape_def asked_def by (metis is_ids.simps(1))
  show "w \<notin> bs_seeding b \<Longrightarrow> queries_for w (bs_calls b) = []"
    using assms unfolding bus_shape_def by meson
qed

lemma init_bus_inv: "finite (dom (wm_windows s)) \<Longrightarrow> bus_inv (init_bus s)"
  by (simp add: bus_inv_def bus_shape_def init_bus_def tb_wf_def)

lemma start_inv:
  assumes "bus_inv b"
  shows "bus_inv (bus_start b)"
proof (cases "bs_subscribed b")
  case True
  with assms show ?thesis by (simp add: bus_start_def)
next
  case False
  with assms have e: "bs_calls b = []" "bs_msgs b = []" "tb_windows (bs_tb b) = []" "bs_pending b = Map.empty"
      "bs_seeding b = {}" "tb_wf (bs_tb b)" "finite (dom (wm_windows (bs_wm b)))"
    by (simp_all add: bus_inv_def bus_shape_def)
  let ?b = "bus_start b"
  have "?b = b\<lparr>bs_subscribed := True, bs_calls := [CList]\<rparr>" using False e(1) by (simp add: bus_start_def)
  then have s: "bs_calls ?b = [CList]" "bs_msgs ?b = []" "bs_tb ?b = bs_tb b" "bs_pending ?b = Map.empty"
      "bs_seeding ?b = {}" "bs_wm ?b = bs_wm b" "bs_subscribed ?b"
    by (simp_all add: e)
  have "bus_shape ?b" unfolding bus_shape_def s(1-6) using e s(7) by simp
  moreover have "settled w ?b = wm_windows (bs_wm ?b) w" for w
    unfolding settled_def s(1-6) using e(3)
    by (cases "wm_windows (bs_wm b) w") (simp_all add: answers_for_def tb_view_def keyed_def value_of_def asked_def)
  ultimately show ?thesis unfolding bus_inv_def by blast
qed

lemma answer_eq [simp]: "answers_for w s [] = []" "queries_for w cs = [] \<Longrightarrow> answers_for w s cs = []"
  by (simp_all add: answers_for_def)

lemma lost_irrelevant [simp]:
  "bus_shape (b\<lparr>bs_lost := L\<rparr>) = bus_shape b" "settled w (b\<lparr>bs_lost := L\<rparr>) = settled w b"
proof -
  let ?b = "b\<lparr>bs_lost := L\<rparr>"
  have s: "bs_calls ?b = bs_calls b" "bs_msgs ?b = bs_msgs b" "bs_tb ?b = bs_tb b" "bs_pending ?b = bs_pending b"
      "bs_seeding ?b = bs_seeding b" "bs_wm ?b = bs_wm b" "bs_subscribed ?b = bs_subscribed b"
    by simp_all
  show "bus_shape ?b = bus_shape b" "settled w ?b = settled w b" unfolding bus_shape_def settled_def s by (rule refl)+
qed

lemma shape_signals:
  assumes "bus_shape b" and "bs_subscribed b" and "finite (dom (wm_windows s))"
  shows "bus_shape (b\<lparr>bs_wm := s, bs_msgs := bs_msgs b @ map MSignal sigs\<rparr>)"
proof -
  have m: "(\<exists>m \<in> set (bs_msgs b @ map MSignal sigs). is_ids m) \<longleftrightarrow> (\<exists>m \<in> set (bs_msgs b). is_ids m)"
    "(\<forall>m \<in> set (bs_msgs b @ map MSignal sigs). \<not> is_reply m) \<longleftrightarrow> (\<forall>m \<in> set (bs_msgs b). \<not> is_reply m)"
    "MIds x \<in> set (bs_msgs b @ map MSignal sigs) \<longleftrightarrow> MIds x \<in> set (bs_msgs b)"
    "filter is_ids (bs_msgs b @ map MSignal sigs) = filter is_ids (bs_msgs b)" for x
    by (auto simp: filter_empty_conv)
  let ?b = "b\<lparr>bs_wm := s, bs_msgs := bs_msgs b @ map MSignal sigs\<rparr>"
  have s: "bs_calls ?b = bs_calls b" "bs_msgs ?b = bs_msgs b @ map MSignal sigs" "bs_tb ?b = bs_tb b"
      "bs_pending ?b = bs_pending b" "bs_seeding ?b = bs_seeding b" "bs_wm ?b = s" "bs_subscribed ?b = bs_subscribed b"
    by simp_all
  show ?thesis using assms unfolding bus_shape_def s m by blast
qed

lemma asked_signals [simp]: "asked w (ms @ map MSignal sigs) = asked w ms"
  by (auto simp: asked_def)

lemma chrome_settled:
  assumes "bus_shape b" and "bs_subscribed b" and "settled w b = wm_windows (bs_wm b) w"
    and "wm_step op (bs_wm b) = (s, sigs)"
    and "op_id op = w \<longrightarrow> w \<notin> bs_seeding b \<and> (is_register op \<longrightarrow> wm_windows (bs_wm b) w = None)"
  shows "settled w (b\<lparr>bs_wm := s, bs_msgs := bs_msgs b @ map MSignal sigs\<rparr>) = wm_windows s w"
proof (cases "op_id op = w")
  case False
  have "wm_windows s w = wm_windows (bs_wm b) w" using step_other [OF False, of "bs_wm b"] assms(4) by simp
  moreover from this have "value_of s w = value_of (bs_wm b) w" by (simp add: value_of_def)
  moreover from this have "answers_for w s cs = answers_for w (bs_wm b) cs" for cs
  proof -
    have "answer True s w q = answer True (bs_wm b) w q" for q
      using \<open>value_of s w = _\<close> by (cases q) (simp_all add: WindowTitle_def WindowAppId_def WindowMinimized_def WindowFocused_def)
    then show ?thesis by (simp add: answers_for_def)
  qed
  moreover have "fold (proc w) (map MSignal sigs) vp = vp" for vp
    using upd_other [OF False, where s = "bs_wm b"] assms(4) by (cases vp) (simp add: proc_signals)
  ultimately show ?thesis using assms(3) unfolding settled_def by (auto split: if_splits)
next
  case True
  let ?b = "b\<lparr>bs_wm := s, bs_msgs := bs_msgs b @ map MSignal sigs\<rparr>"
  have free: "w \<notin> bs_seeding b" using True assms(5) by blast
  then have no: "\<not> asked w (bs_msgs b)" and q: "queries_for w (bs_calls b) = []"
    using shapeD(4,5) [OF assms(1)] by blast+
  obtain v p where vp: "fold (proc w) (bs_msgs b) (tb_view (bs_tb b) w, bs_pending b w) = (v, p)" by fastforce
  have new: "fold (proc w) (bs_msgs b @ map MSignal sigs) (tb_view (bs_tb b) w, bs_pending b w) = (fold (sig_upd w) sigs v, p)"
    by (simp add: vp proc_signals)
  show ?thesis
  proof (cases "CList \<in> set (bs_calls b) \<and> wm_windows (bs_wm b) w \<noteq> None")
    case False
    then have v: "wm_windows (bs_wm b) w = v"
      using assms(3) no q vp unfolding settled_def by (auto split: if_splits)
    then have "fold (sig_upd w) sigs v = wm_windows s w"
      using upd_step [OF v, of op] True assms(4,5) by simp
    then show ?thesis using no q new by (auto simp: settled_def answers_for_def value_of_def)
  next
    case listed: True
    show ?thesis
    proof (cases "wm_windows s w")
      case None
      then have "fold (sig_upd w) sigs v = None"
        using upd_step_None [of op "bs_wm b" w v] assms(4) listed by simp
      with None no q new show ?thesis by (simp add: settled_def answers_for_def)
    next
      case (Some r)
      with listed show ?thesis by (simp add: settled_def value_of_def)
    qed
  qed
qed

lemma chrome_inv:
  assumes "bus_inv b"
  shows "bus_inv (bus_chrome op b)"
proof -
  obtain s sigs where st: "wm_step op (bs_wm b) = (s, sigs)" by fastforce
  from assms have sh: "bus_shape b" by (simp add: bus_inv_def)
  then have fin: "finite (dom (wm_windows s))" using wm_step_finite [of "bs_wm b" op] st shapeD(2) by simp
  show ?thesis
  proof (cases "bs_subscribed b")
    case False
    with assms fin st show ?thesis by (simp add: bus_chrome_def bus_inv_def bus_shape_def)
  next
    case True
    let ?b = "b\<lparr>bs_wm := s, bs_msgs := bs_msgs b @ map MSignal sigs\<rparr>"
    obtain L where b: "bus_chrome op b = ?b\<lparr>bs_lost := L\<rparr>"
      and L: "bs_lost b \<subseteq> L" "op_id op \<notin> L \<Longrightarrow> op_id op \<notin> bs_seeding b \<and> (is_register op \<longrightarrow> wm_windows (bs_wm b) (op_id op) = None)"
    proof
      define L where "L = (if op_id op \<in> bs_seeding b \<or> (is_register op \<and> wm_windows (bs_wm b) (op_id op) \<noteq> None)
        then insert (op_id op) (bs_lost b) else bs_lost b)"
      show "bus_chrome op b = ?b\<lparr>bs_lost := L\<rparr>" using True by (simp add: bus_chrome_def st L_def)
      show "bs_lost b \<subseteq> L" by (auto simp: L_def)
      show "op_id op \<notin> L \<Longrightarrow> op_id op \<notin> bs_seeding b \<and> (is_register op \<longrightarrow> wm_windows (bs_wm b) (op_id op) = None)"
        by (auto simp: L_def split: if_splits)
    qed
    have "settled w ?b = wm_windows s w" if "w \<notin> L" for w
      using that assms True L by (intro chrome_settled [OF sh True _ st]) (auto simp: bus_inv_def)
    then show ?thesis
      using shape_signals [OF sh True fin] unfolding b bus_inv_def by simp
  qed
qed


lemma one_only:
  assumes "bus_shape b"
  shows "bs_calls b = CList # cs \<Longrightarrow> CList \<notin> set cs"
    and "bs_msgs b = MIds ids # ms \<Longrightarrow> CList \<notin> set (bs_calls b) \<and> (\<forall>m \<in> set ms. \<not> is_ids m)"
proof -
  have le: "length (filter (\<lambda>c. c = CList) (bs_calls b)) + length (filter is_ids (bs_msgs b)) \<le> 1"
    using assms by (simp add: bus_shape_def)
  show "CList \<notin> set cs" if "bs_calls b = CList # cs"
    using le that by (auto simp: filter_empty_conv)
  show "CList \<notin> set (bs_calls b) \<and> (\<forall>m \<in> set ms. \<not> is_ids m)" if "bs_msgs b = MIds ids # ms"
    using le that by (auto simp: filter_empty_conv)
qed

lemma handle_list_inv:
  assumes inv: "bus_inv b" and calls: "bs_calls b = CList # cs" and keys: "keys_ok keys"
  shows "bus_inv (bus_handle keys ok b)"
proof -
  let ?ids = "keys (wm_windows (bs_wm b))"
  let ?m = "MIds (if ok then Some ?ids else None)"
  from inv have sh: "bus_shape b" by (simp add: bus_inv_def)
  have sub: "bs_subscribed b" using sh calls unfolding bus_shape_def by auto
  have ids: "set ?ids = dom (wm_windows (bs_wm b))" "distinct ?ids"
    using keys shapeD(2) [OF sh] by (simp_all add: keys_ok_def)
  have cs: "CList \<notin> set cs" using one_only(1) [OF sh calls] .
  have quiet: "queries_for w cs = []" "\<forall>m \<in> set (bs_msgs b). \<not> is_reply m \<and> \<not> is_ids m"
      "bs_pending b = Map.empty" "bs_seeding b = {}" for w
    using shapeD(3) [OF sh, of w] calls by simp_all
  define b1 where "b1 = b\<lparr>bs_calls := cs, bs_msgs := bs_msgs b @ [?m], bs_seeding := (if ok then set ?ids else {})\<rparr>"
  have f: "bs_calls b1 = cs" "bs_msgs b1 = bs_msgs b @ [?m]" "bs_tb b1 = bs_tb b" "bs_pending b1 = Map.empty"
      "bs_seeding b1 = (if ok then set ?ids else {})" "bs_wm b1 = bs_wm b" "bs_subscribed b1 = True"
    using sub quiet(3) by (simp_all add: b1_def)
  have h: "\<exists>L. bus_handle keys ok b = b1\<lparr>bs_lost := L\<rparr> \<and> bs_lost b \<subseteq> L \<and> (\<not> ok \<longrightarrow> dom (wm_windows (bs_wm b)) \<subseteq> L)"
  proof (cases ok)
    case True
    then show ?thesis by (intro exI [of _ "bs_lost b"]) (simp add: bus_handle_def calls b1_def ListWindowIds_def Let_def)
  next
    case False
    then show ?thesis using quiet(4) ids
      by (intro exI [of _ "bs_lost b \<union> set ?ids"]) (simp add: bus_handle_def calls b1_def ListWindowIds_def Let_def)
  qed
  have "filter is_ids (bs_msgs b) = []" "filter (\<lambda>c. c = CList) cs = []"
    using quiet(2) cs by (auto simp: filter_empty_conv)
  moreover have "MIds x \<notin> set (bs_msgs b)" for x using quiet(2) by fastforce
  ultimately have shape: "bus_shape b1"
    unfolding bus_shape_def f using quiet cs ids shapeD(1,2) [OF sh] by auto
  have "settled w b1 = wm_windows (bs_wm b) w" if w: "w \<notin> bs_lost b" "\<not> ok \<longrightarrow> wm_windows (bs_wm b) w = None" for w
  proof -
    from inv w(1) sub have old: "settled w b = wm_windows (bs_wm b) w" by (simp add: bus_inv_def)
    show ?thesis
    proof (cases "wm_windows (bs_wm b) w")
      case None
      have "\<not> asked w (bs_msgs b)" using shapeD(4) [OF sh, of w] quiet(4) by auto
      moreover have "\<not> asked w (bs_msgs b @ [?m])"
        using calculation ids None unfolding asked_def by (auto split: if_splits)
      moreover have "fold (proc w) [?m] vp = vp" for vp by (cases vp) simp
      ultimately show ?thesis using None old cs quiet(1,3) calls unfolding settled_def f by simp
    next
      case (Some r)
      with w(2) have ok by simp
      then have "asked w (bs_msgs b @ [?m])" using ids Some unfolding asked_def by (auto intro!: exI [of _ ?ids])
      then show ?thesis using Some unfolding settled_def f by (simp add: value_of_def)
    qed
  qed
  moreover obtain L where "bus_handle keys ok b = b1\<lparr>bs_lost := L\<rparr>" "bs_lost b \<subseteq> L"
      "\<not> ok \<longrightarrow> dom (wm_windows (bs_wm b)) \<subseteq> L"
    using h by blast
  ultimately show ?thesis using shape unfolding bus_inv_def by (auto simp: f)
qed

lemma handle_query_inv:
  assumes inv: "bus_inv b" and calls: "bs_calls b = CQuery wid q # cs"
  shows "bus_inv (bus_handle keys ok b)"
proof -
  from inv have sh: "bus_shape b" by (simp add: bus_inv_def)
  have sub: "bs_subscribed b" using sh calls unfolding bus_shape_def by auto
  have cl: "CList \<notin> set (bs_calls b)" using shapeD(3) [OF sh, of wid] calls by auto
  have noids: "\<forall>m \<in> set (bs_msgs b). \<not> is_ids m"
  proof (rule ccontr)
    assume "\<not> ?thesis"
    then have "queries_for wid (bs_calls b) = []" using sh unfolding bus_shape_def by blast
    with calls show False by simp
  qed
  then have na: "\<not> asked w (bs_msgs b)" for w unfolding asked_def by fastforce
  let ?S = "if q = QFocused then bs_seeding b - {wid} else bs_seeding b"
  let ?m = "MReply wid (answer ok (bs_wm b) wid q)"
  define b1 where "b1 = b\<lparr>bs_calls := cs, bs_msgs := bs_msgs b @ [?m], bs_seeding := ?S\<rparr>"
  have f: "bs_calls b1 = cs" "bs_msgs b1 = bs_msgs b @ [?m]" "bs_tb b1 = bs_tb b" "bs_pending b1 = bs_pending b"
      "bs_seeding b1 = ?S" "bs_wm b1 = bs_wm b" "bs_subscribed b1 = True"
    using sub by (simp_all add: b1_def)
  have h: "bus_handle keys ok b = b1\<lparr>bs_lost := (if ok then bs_lost b else insert wid (bs_lost b))\<rparr>"
    by (simp add: bus_handle_def calls b1_def)
  have qs: "if w \<in> bs_seeding b then \<exists>k < 4. queries_for w (bs_calls b) = drop k all_queries
      else queries_for w (bs_calls b) = []" for w
    using sh noids unfolding bus_shape_def by blast
  have new: "if w \<in> ?S then \<exists>k < 4. queries_for w cs = drop k all_queries else queries_for w cs = []" for w
  proof (cases "w = wid")
    case False
    with qs [of w] calls show ?thesis by (auto split: if_splits)
  next
    case True
    with qs [of w] calls have s: "w \<in> bs_seeding b" by (auto split: if_splits)
    with qs [of w] calls True obtain k where k: "k < 4" "q # queries_for w cs = drop k all_queries" by auto
    then have "k = 0 \<or> k = 1 \<or> k = 2 \<or> k = 3" by auto
    with k(2) have "q = QFocused \<and> queries_for w cs = [] \<or> q \<noteq> QFocused \<and> Suc k < 4 \<and> queries_for w cs = drop (Suc k) all_queries"
      by (auto simp: all_queries_def)
    with s True show ?thesis by (auto intro: exI [of _ "Suc k"])
  qed
  have cs: "CList \<notin> set cs" using cl calls by simp
  have "filter is_ids (bs_msgs b) = []" "filter (\<lambda>c. c = CList) cs = []" "MIds x \<notin> set (bs_msgs b)" for x
    using noids cs by (auto simp: filter_empty_conv)
  then have shape: "bus_shape b1"
    unfolding bus_shape_def f using new noids cs shapeD(1,2) [OF sh] by simp
  have "settled w b1 = settled w b" if "w \<noteq> wid \<or> ok" for w
  proof -
    have "answers_for w (bs_wm b) (bs_calls b) = (if w = wid then [MReply w (answer True (bs_wm b) w q)] else []) @ answers_for w (bs_wm b) cs"
      by (simp add: answers_for_def calls)
    moreover have "fold (proc w) [?m] vp = vp" if "w \<noteq> wid" for vp using that by (cases vp) simp
    moreover have "\<not> asked w (bs_msgs b @ [?m])" using na [of w] unfolding asked_def by auto
    ultimately show ?thesis using na [of w] cl cs that unfolding settled_def f by (cases "w = wid") simp_all
  qed
  then show ?thesis using inv shape sub unfolding h bus_inv_def by (auto simp: f split: if_splits)
qed


lemma handle_action_inv:
  assumes inv: "bus_inv b" and calls: "bs_calls b = CAction a # cs"
  shows "bus_inv (bus_handle keys ok b)"
proof -
  from inv have sh: "bus_shape b" by (simp add: bus_inv_def)
  have sub: "bs_subscribed b" using sh calls unfolding bus_shape_def by auto
  obtain sigs where st: "wm_step (action_op a) (bs_wm b) = (bs_wm b, sigs)"
    and req: "\<And>w v. fold (sig_upd w) sigs v = v"
    by (cases a) (auto simp: wm_defs)
  have shrink: "bus_shape (b\<lparr>bs_calls := cs\<rparr>)" "settled w (b\<lparr>bs_calls := cs\<rparr>) = settled w b" for w
  proof -
    let ?b = "b\<lparr>bs_calls := cs\<rparr>"
    have s: "bs_calls ?b = cs" "bs_msgs ?b = bs_msgs b" "bs_tb ?b = bs_tb b" "bs_pending ?b = bs_pending b"
        "bs_seeding ?b = bs_seeding b" "bs_wm ?b = bs_wm b" "bs_subscribed ?b = bs_subscribed b"
      by simp_all
    have c: "CList \<in> set cs \<longleftrightarrow> CList \<in> set (bs_calls b)" "queries_for w cs = queries_for w (bs_calls b)"
      "filter (\<lambda>c. c = CList) cs = filter (\<lambda>c. c = CList) (bs_calls b)" for w
      by (simp_all add: calls)
    show "bus_shape ?b" using sh sub unfolding bus_shape_def s c by blast
    show "settled w ?b = settled w b" unfolding settled_def answers_for_def s c by (rule refl)
  qed
  show ?thesis
  proof (cases ok)
    case False
    with inv shrink show ?thesis by (simp add: bus_handle_def calls bus_inv_def)
  next
    case True
    let ?b = "(b\<lparr>bs_calls := cs\<rparr>)\<lparr>bs_wm := bs_wm b, bs_msgs := bs_msgs (b\<lparr>bs_calls := cs\<rparr>) @ map MSignal sigs\<rparr>"
    have h: "bus_handle keys ok b = ?b" using True by (simp add: bus_handle_def calls st)
    have "bus_shape ?b" using shape_signals [OF shrink(1), of "bs_wm b" sigs] sub shapeD(2) [OF sh] by simp
    moreover have "settled w ?b = settled w (b\<lparr>bs_calls := cs\<rparr>)" for w
    proof -
      have "fold (proc w) (map MSignal sigs) vp = vp" for vp using req by (cases vp) (simp add: proc_signals)
      then show ?thesis unfolding settled_def by (auto split: if_splits)
    qed
    ultimately show ?thesis using inv shrink(2) unfolding h bus_inv_def by simp
  qed
qed

lemma handle_inv:
  assumes "bus_inv b" and "keys_ok keys"
  shows "bus_inv (bus_handle keys ok b)"
proof (cases "bs_calls b")
  case Nil
  with assms show ?thesis by (simp add: bus_handle_def)
next
  case (Cons c cs)
  with assms show ?thesis
    by (cases c) (auto intro: handle_list_inv handle_query_inv handle_action_inv)
qed

lemma finish_seed_wf: "tb_wf tb \<Longrightarrow> tb_wf (finish_seed wid d tb)"
  using tb_signal_wf [of _ "WindowStateChanged wid (pd_minimized d) (pd_focused d)"]
    tb_signal_wf [of tb "WindowRegistered wid (pd_title d) (pd_appId d)"]
  by (simp add: finish_seed_def)

lemma deliver_shape:
  assumes "bus_shape b" and "bs_msgs b = m # ms" and "\<not> is_ids m" and "bs_subscribed b"
    and "tb_wf tb" and "CList \<in> set (bs_calls b) \<or> (\<exists>m \<in> set (bs_msgs b). is_ids m) \<longrightarrow> p = Map.empty"
  shows "bus_shape (b\<lparr>bs_msgs := ms, bs_tb := tb, bs_pending := p\<rparr>)"
proof -
  let ?b = "b\<lparr>bs_msgs := ms, bs_tb := tb, bs_pending := p\<rparr>"
  have s: "bs_calls ?b = bs_calls b" "bs_msgs ?b = ms" "bs_tb ?b = tb" "bs_pending ?b = p"
      "bs_seeding ?b = bs_seeding b" "bs_wm ?b = bs_wm b" "bs_subscribed ?b = bs_subscribed b"
    by simp_all
  have e: "filter is_ids ms = filter is_ids (bs_msgs b)" "(\<exists>m \<in> set ms. is_ids m) \<longleftrightarrow> (\<exists>m \<in> set (bs_msgs b). is_ids m)"
      "MIds x \<in> set ms \<longleftrightarrow> MIds x \<in> set (bs_msgs b)" for x
    using assms(2,3) by auto
  have "(\<forall>m \<in> set (bs_msgs b). \<not> is_reply m) \<Longrightarrow> (\<forall>m \<in> set ms. \<not> is_reply m)" using assms(2) by auto
  with assms(1,4-) show ?thesis unfolding bus_shape_def s e by blast
qed

lemma deliver_settled:
  assumes "bs_msgs b = m # ms" and "\<not> is_ids m"
    and "proc w m (tb_view (bs_tb b) w, bs_pending b w) = (tb_view tb w, p w)"
  shows "settled w (b\<lparr>bs_msgs := ms, bs_tb := tb, bs_pending := p\<rparr>) = settled w b"
proof -
  have "asked w (bs_msgs b) = asked w ms" using assms(1,2) by (auto simp: asked_def)
  with assms show ?thesis by (auto simp: settled_def)
qed

lemma deliver_ids_inv:
  assumes inv: "bus_inv b" and msgs: "bs_msgs b = MIds (Some ids) # ms"
  shows "bus_inv (bus_deliver b)"
proof -
  from inv have sh: "bus_shape b" by (simp add: bus_inv_def)
  have sub: "bs_subscribed b" using sh msgs unfolding bus_shape_def by auto
  from sh msgs have ids: "distinct ids" "bs_seeding b = set ids" unfolding bus_shape_def by auto
  have quiet: "queries_for w (bs_calls b) = []" "\<forall>m \<in> set ms. \<not> is_reply m" "bs_pending b = Map.empty" for w
    using sh msgs unfolding bus_shape_def by auto
  have one: "CList \<notin> set (bs_calls b)" "\<forall>m \<in> set ms. \<not> is_ids m" using one_only(2) [OF sh msgs] by blast+
  let ?p = "\<lambda>wid. if wid \<in> set ids then Some init_pending else None"
  let ?c = "concat (map (\<lambda>wid. map (CQuery wid) all_queries) ids)"
  define b1 where "b1 = b\<lparr>bs_msgs := ms, bs_pending := ?p, bs_calls := bs_calls b @ ?c\<rparr>"
  have "(\<lambda>wid. if wid \<in> set ids then Some init_pending else bs_pending b wid) = ?p" unfolding quiet(3) by (rule refl)
  then have d: "bus_deliver b = b1" by (simp add: bus_deliver_def msgs b1_def)
  have f: "bs_calls b1 = bs_calls b @ ?c" "bs_msgs b1 = ms" "bs_tb b1 = bs_tb b" "bs_pending b1 = ?p"
      "bs_seeding b1 = set ids" "bs_wm b1 = bs_wm b" "bs_subscribed b1 = True" "bs_lost b1 = bs_lost b"
    using sub ids by (simp_all add: b1_def)
  have q: "queries_for w (bs_calls b @ ?c) = (if w \<in> set ids then all_queries else [])" for w
    using quiet(1) queries_asked [OF ids(1)] by simp
  have nc: "CList \<notin> set (bs_calls b @ ?c)" using one(1) by auto
  have "filter is_ids ms = []" "filter (\<lambda>c. c = CList) (bs_calls b @ ?c) = []" "MIds x \<notin> set ms" for x
    using one nc by (auto simp: filter_empty_conv)
  moreover have "\<exists>k < 4. all_queries = drop k all_queries" by (rule exI [of _ 0]) simp
  ultimately have "bus_shape b1"
    unfolding bus_shape_def f q using one nc shapeD(1,2) [OF sh] by simp
  moreover have "settled w b1 = settled w b" if "settled w b = wm_windows (bs_wm b) w" for w
  proof -
    have na: "\<not> asked w ms" using one(2) unfolding asked_def by fastforce
    show ?thesis
    proof (cases "w \<in> set ids")
      case True
      then have "settled w b = Some (value_of (bs_wm b) w)" by (auto simp: settled_def asked_def msgs)
      moreover obtain v where "fold (proc w) ms (tb_view (bs_tb b) w, Some init_pending) = (v, Some init_pending)"
        using proc_no_reply [OF quiet(2)] by blast
      moreover have "answers_for w (bs_wm b) (bs_calls b @ ?c) = answers_for w (bs_wm b) (map (CQuery w) all_queries)"
      proof -
        have "queries_for w (bs_calls b @ ?c) = all_queries" using q [of w] True by simp
        moreover have "queries_for w (map (CQuery w) all_queries) = all_queries" by (simp add: all_queries_def)
        ultimately show ?thesis unfolding answers_for_def by simp
      qed
      ultimately show ?thesis
        using na nc True four_answers [of w "bs_wm b"] unfolding settled_def f by simp
    next
      case False
      then have "\<not> asked w (bs_msgs b)" using na by (auto simp: asked_def msgs)
      with False na nc one(1) quiet(1,3) q show ?thesis unfolding settled_def f by (simp add: msgs)
    qed
  qed
  ultimately show ?thesis using inv sub unfolding d bus_inv_def by (auto simp: f)
qed


lemma deliver_inv:
  assumes inv: "bus_inv b"
  shows "bus_inv (bus_deliver b)"
proof (cases "bs_msgs b")
  case Nil
  with inv show ?thesis by (simp add: bus_deliver_def)
next
  case (Cons m ms)
  from inv have sh: "bus_shape b" by (simp add: bus_inv_def)
  have sub: "bs_subscribed b" using sh Cons unfolding bus_shape_def by auto
  have wf: "tb_wf (bs_tb b)" using shapeD(1) [OF sh] .
  have use: "bus_inv (b\<lparr>bs_msgs := ms, bs_tb := tb, bs_pending := p\<rparr>)"
    if "\<not> is_ids m" "tb_wf tb" "CList \<in> set (bs_calls b) \<or> (\<exists>m \<in> set (bs_msgs b). is_ids m) \<longrightarrow> p = Map.empty"
      "\<And>w. proc w m (tb_view (bs_tb b) w, bs_pending b w) = (tb_view tb w, p w)" for tb p
  proof -
    have "settled w (b\<lparr>bs_msgs := ms, bs_tb := tb, bs_pending := p\<rparr>) = settled w b" for w
      using that(1,4) by (intro deliver_settled [OF Cons])
    then show ?thesis using inv deliver_shape [OF sh Cons that(1) sub that(2,3)] by (simp add: bus_inv_def)
  qed
  have empty: "CList \<in> set (bs_calls b) \<or> (\<exists>m \<in> set (bs_msgs b). is_ids m) \<longrightarrow> bs_pending b = Map.empty"
    using sh unfolding bus_shape_def by blast
  show ?thesis
  proof (cases m)
    case (MSignal sig)
    with Cons have "bus_deliver b = b\<lparr>bs_msgs := ms, bs_tb := fst (tb_signal sig (bs_tb b)), bs_pending := bs_pending b\<rparr>"
      by (simp add: bus_deliver_def)
    then show ?thesis
      using use [OF _ tb_signal_wf [OF wf] empty] MSignal by (simp add: view_signal [OF wf])
  next
    case (MIds ids)
    show ?thesis
    proof (cases ids)
      case (Some l)
      with MIds Cons inv show ?thesis by (simp add: deliver_ids_inv)
    next
      case None
      have s: "CList \<notin> set (bs_calls b)" "\<forall>m \<in> set ms. \<not> is_ids m"
        using one_only(2) [OF sh] MIds Cons by auto
      have q: "bs_seeding b = {}" "\<And>w. queries_for w (bs_calls b) = []"
        using sh MIds None Cons unfolding bus_shape_def by auto
      define b1 where "b1 = b\<lparr>bs_msgs := ms\<rparr>"
      have f: "bs_calls b1 = bs_calls b" "bs_msgs b1 = ms" "bs_tb b1 = bs_tb b" "bs_pending b1 = bs_pending b"
          "bs_seeding b1 = {}" "bs_wm b1 = bs_wm b" "bs_subscribed b1 = True" "bs_lost b1 = bs_lost b"
        using sub q by (simp_all add: b1_def)
      have "bus_deliver b = b1" using MIds None Cons by (simp add: bus_deliver_def b1_def)
      moreover have "MIds x \<notin> set ms" "filter is_ids ms = []" "filter (\<lambda>c. c = CList) (bs_calls b) = []" for x
        using s by (auto simp: filter_empty_conv)
      then have "bus_shape b1" unfolding bus_shape_def f using q s wf shapeD(2) [OF sh] by simp
      moreover have "settled w b1 = settled w b" for w
      proof -
        have "asked w (bs_msgs b) = asked w ms" using MIds None Cons by (auto simp: asked_def)
        then show ?thesis using MIds Cons unfolding settled_def f by auto
      qed
      ultimately show ?thesis using inv sub unfolding bus_inv_def by (auto simp: f)
    qed
  next
    case (MReply wid r)
    have no: "\<not> (CList \<in> set (bs_calls b) \<or> (\<exists>m \<in> set (bs_msgs b). is_ids m))"
    proof
      assume "CList \<in> set (bs_calls b) \<or> (\<exists>m \<in> set (bs_msgs b). is_ids m)"
      then have "\<forall>m \<in> set (bs_msgs b). \<not> is_reply m" using sh unfolding bus_shape_def by blast
      with Cons MReply show False by simp
    qed
    show ?thesis
    proof (cases "bs_pending b wid")
      case None
      with Cons MReply have "bus_deliver b = b\<lparr>bs_msgs := ms, bs_tb := bs_tb b, bs_pending := bs_pending b\<rparr>"
        by (simp add: bus_deliver_def)
      moreover have "bus_inv (b\<lparr>bs_msgs := ms, bs_tb := bs_tb b, bs_pending := bs_pending b\<rparr>)"
        using no MReply None by (intro use wf) auto
      ultimately show ?thesis by simp
    next
      case (Some d)
      let ?d = "(store_reply r d)\<lparr>remaining := remaining d - 1\<rparr>"
      let ?tb = "if remaining ?d = 0 then finish_seed wid ?d (bs_tb b) else bs_tb b"
      let ?p = "(bs_pending b)(wid := if remaining ?d = 0 then None else Some ?d)"
      have "bus_deliver b = b\<lparr>bs_msgs := ms, bs_tb := ?tb, bs_pending := ?p\<rparr>"
        using Cons MReply Some by (simp add: bus_deliver_def on_reply_def Let_def)
      moreover have "bus_inv (b\<lparr>bs_msgs := ms, bs_tb := ?tb, bs_pending := ?p\<rparr>)"
      proof (rule use)
        show "\<not> is_ids m" using MReply by simp
        show "tb_wf ?tb" using wf finish_seed_wf by simp
        show "CList \<in> set (bs_calls b) \<or> (\<exists>m \<in> set (bs_msgs b). is_ids m) \<longrightarrow> ?p = Map.empty" using no by blast
        show "proc w m (tb_view (bs_tb b) w, bs_pending b w) = (tb_view ?tb w, ?p w)" for w
          using MReply Some by (cases "w = wid") (simp_all add: view_finish_seed Let_def del: finish_seed_frame)
      qed
      ultimately show ?thesis by simp
    qed
  qed
qed

lemma click_inv:
  assumes "bus_inv b" and "bs_subscribed b"
  shows "bus_inv (bus_click action b)"
proof -
  let ?b = "bus_click action b"
  have s: "bs_calls ?b = bs_calls b @ map CAction (action (bs_tb b))" "bs_msgs ?b = bs_msgs b" "bs_tb ?b = bs_tb b"
      "bs_pending ?b = bs_pending b" "bs_seeding ?b = bs_seeding b" "bs_wm ?b = bs_wm b" "bs_subscribed ?b = bs_subscribed b"
      "bs_lost ?b = bs_lost b"
    by (simp_all add: bus_click_def)
  have c: "CList \<in> set (bs_calls b @ map CAction xs) \<longleftrightarrow> CList \<in> set (bs_calls b)"
      "filter (\<lambda>c. c = CList) (bs_calls b @ map CAction xs) = filter (\<lambda>c. c = CList) (bs_calls b)"
      "queries_for w (bs_calls b @ map CAction xs) = queries_for w (bs_calls b)" for xs w
    by (auto simp: filter_empty_conv)
  have "bus_shape ?b" using assms unfolding bus_inv_def bus_shape_def s c by blast
  moreover have "settled w ?b = settled w b" for w unfolding settled_def answers_for_def s c by (rule refl)
  ultimately show ?thesis using assms unfolding bus_inv_def s by simp
qed

lemma bus_step_inv: "bus_step keys b b' \<Longrightarrow> keys_ok keys \<Longrightarrow> bus_inv b \<Longrightarrow> bus_inv b'"
  by (induction rule: bus_step.induct) (auto intro: start_inv chrome_inv click_inv handle_inv deliver_inv)

lemma bus_reach_inv:
  assumes "(bus_step keys)\<^sup>*\<^sup>* b b'" and "keys_ok keys" and "bus_inv b"
  shows "bus_inv b'"
  using assms by (induction rule: rtranclp_induct) (auto intro: bus_step_inv)


subsection \<open>The bus becomes quiet\<close>

text \<open>A bound on the steps the bus can still take by itself.\<close>

fun call_load :: "nat \<Rightarrow> shell_call \<Rightarrow> nat" where
  "call_load n CList = 2 + 8 * n"
| "call_load n (CQuery wid q) = 2"
| "call_load n (CAction a) = 2"

fun msg_load :: "bus_msg \<Rightarrow> nat" where
  "msg_load (MSignal sig) = 1"
| "msg_load (MIds ids) = 1 + 8 * (case ids of None \<Rightarrow> 0 | Some l \<Rightarrow> length l)"
| "msg_load (MReply wid r) = 1"

definition bus_load :: "bus \<Rightarrow> nat" where
  "bus_load b = sum_list (map (call_load (card (dom (wm_windows (bs_wm b))))) (bs_calls b)) + sum_list (map msg_load (bs_msgs b))"


lemma keys_length: "keys_ok keys \<Longrightarrow> finite (dom m) \<Longrightarrow> length (keys m) = card (dom m)"
  unfolding keys_ok_def by (metis distinct_card)

lemma sum_asked:
  "sum_list (map (call_load n) (concat (map (\<lambda>wid. map (CQuery wid) all_queries) ids))) = 8 * length ids"
  by (induction ids) (simp_all add: all_queries_def)

lemma internal_load:
  assumes "bus_internal keys b b'" and "keys_ok keys" and "finite (dom (wm_windows (bs_wm b)))"
  shows "bus_load b' < bus_load b \<and> wm_windows (bs_wm b') = wm_windows (bs_wm b)"
  using assms(1)
proof cases
  case (1 ok)
  then show ?thesis
  proof (cases "bs_calls b")
    case (Cons c cs)
    show ?thesis
    proof (cases c)
      case CList
      with Cons 1 show ?thesis using keys_length [OF assms(2,3)]
        by (simp add: bus_handle_def bus_load_def ListWindowIds_def Let_def)
    next
      case (CQuery wid q)
      with Cons 1 show ?thesis by (simp add: bus_handle_def bus_load_def)
    next
      case (CAction a)
      with Cons 1 show ?thesis by (cases a) (simp_all add: bus_handle_def bus_load_def wm_defs)
    qed
  qed simp
next
  case 2
  then show ?thesis
  proof (cases "bs_msgs b")
    case (Cons m ms)
    with 2 show ?thesis
      by (cases m) (auto simp: bus_deliver_def bus_load_def sum_asked split: option.splits prod.splits)
  qed simp
qed

lemma internal_run_load:
  assumes "(bus_internal keys ^^ n) b b'" and "keys_ok keys" and "finite (dom (wm_windows (bs_wm b)))"
  shows "n + bus_load b' \<le> bus_load b \<and> wm_windows (bs_wm b') = wm_windows (bs_wm b)"
  using assms(1)
proof (induction n arbitrary: b')
  case (Suc n)
  then obtain c where c: "(bus_internal keys ^^ n) b c" "bus_internal keys c b'" by auto
  from Suc.IH [OF c(1)] internal_load [OF c(2) assms(2)] assms(3) show ?case by auto
qed simp

lemma internal_is_step: "bus_internal keys b b' \<Longrightarrow> bus_step keys b b'"
  by (erule bus_internalE) (auto intro: bus_step.intros)

lemma bus_reach_finite:
  "(bus_step keys)\<^sup>*\<^sup>* (init_bus s) b \<Longrightarrow> keys_ok keys \<Longrightarrow> finite (dom (wm_windows s)) \<Longrightarrow> finite (dom (wm_windows (bs_wm b)))"
  using bus_reach_inv [of keys "init_bus s" b] init_bus_inv [of s] unfolding bus_inv_def bus_shape_def by blast

text \<open>
  C7. The task bar of the running desktop shows the windows there are. The compositor and the
  shell are two processes: windows are opened, changed and closed at any moment, the shell
  starts at any moment with windows open already, it asks for the list and then for each
  window while signals go on arriving, and calls may fail. Whenever nothing is under way on
  the bus, the task bar holds each window exactly once and exactly as the registry has it,
  closed windows being gone, but for the windows in \<open>bs_lost\<close>: those that changed while the
  answers about them were being collected, were registered a second time, or were asked about in a
  call that failed.
\<close>

theorem taskbar_shows_registry:
  assumes "keys_ok keys" and "finite (dom (wm_windows s))" and "(bus_step keys)\<^sup>*\<^sup>* (init_bus s) b"
    and "bs_subscribed b" and "bs_calls b = []" and "bs_msgs b = []"
  shows "tb_wf (bs_tb b) \<and> (\<forall>w. w \<notin> bs_lost b \<longrightarrow> tb_view (bs_tb b) w = wm_windows (bs_wm b) w)"
proof -
  from bus_reach_inv [OF assms(3,1) init_bus_inv [OF assms(2)]] have inv: "bus_inv b" .
  then have "tb_wf (bs_tb b)" unfolding bus_inv_def by (blast dest: shapeD(1))
  moreover have "settled w b = tb_view (bs_tb b) w" for w
    using assms(5,6) by (simp add: settled_def asked_def)
  ultimately show ?thesis using inv assms(4) by (simp add: bus_inv_def)
qed

text \<open>
  C8. The bus becomes quiet. From every state the desktop can reach, and whichever end is
  served first, the two processes can go on taking calls and messages until none is left, after at
  most \<open>bus_load\<close> steps (every call produces at most one message, the list of ids four calls for
  each window), and this changes no window of the registry. So the task bar catches up with
  the registry after every burst of changes.
\<close>

theorem bus_becomes_quiet:
  assumes "keys_ok keys" and "finite (dom (wm_windows s))" and "(bus_step keys)\<^sup>*\<^sup>* (init_bus s) b"
  shows "((\<nexists>b'. bus_internal keys b b') \<longleftrightarrow> bs_calls b = [] \<and> bs_msgs b = []) \<and>
    ((bus_internal keys ^^ n) b b' \<longrightarrow> n \<le> bus_load b \<and> wm_windows (bs_wm b') = wm_windows (bs_wm b)) \<and>
    (\<exists>k b'. (bus_internal keys ^^ k) b b' \<and> bs_calls b' = [] \<and> bs_msgs b' = [])"
proof -
  have fin: "finite (dom (wm_windows (bs_wm b)))" using bus_reach_finite [OF assms(3,1,2)] .
  have stuck: "(\<nexists>b'. bus_internal keys c b') \<longleftrightarrow> bs_calls c = [] \<and> bs_msgs c = []" for c
    by (auto intro: bus_internal.intros elim: bus_internalE)
  have "\<exists>k b'. (bus_internal keys ^^ k) c b' \<and> bs_calls b' = [] \<and> bs_msgs b' = []"
    if "finite (dom (wm_windows (bs_wm c)))" for c
    using that
  proof (induction c rule: measure_induct_rule [of bus_load])
    case (less c)
    show ?case
    proof (cases "\<exists>d. bus_internal keys c d")
      case False
      with stuck have "bs_calls c = [] \<and> bs_msgs c = []" by blast
      then show ?thesis by (intro exI [of _ 0] exI [of _ c]) simp
    next
      case True
      then obtain d where d: "bus_internal keys c d" by blast
      with less internal_load [OF d assms(1)] obtain k b' where "(bus_internal keys ^^ k) d b'" "bs_calls b' = []" "bs_msgs b' = []"
        by metis
      moreover from d this(1) have "(bus_internal keys ^^ Suc k) c b'" by (rule relpowp_Suc_I2)
      ultimately show ?thesis by blast
    qed
  qed
  with stuck fin internal_run_load [OF _ assms(1) fin] show ?thesis by (meson le_add1 le_trans)
qed


subsection \<open>A run\<close>

definition sorted_keys :: "(string \<Rightarrow> window_record option) \<Rightarrow> string list" where
  "sorted_keys m = sorted_list_of_set (dom m)"

lemma sorted_keys_ok: "keys_ok sorted_keys"
  by (simp add: keys_ok_def sorted_keys_def)

definition demo_wm :: wm where
  "demo_wm = fst (registerWindow ''w1'' ''Files'' ''nira-files'' (fst (init_wm True True)))"

text \<open>The shell starts beside one open window, and a second one opens while it asks.\<close>

definition demo_handle :: "bus \<Rightarrow> bus" where
  "demo_handle = bus_handle sorted_keys True"

definition demo_bus :: bus where
  "demo_bus =
     (bus_deliver ^^ 6) ((demo_handle ^^ 4) (bus_chrome (OpState ''w2'' True False) (bus_deliver
        (bus_chrome (OpRegister ''w2'' ''Notes'' ''nira-notepad'') (demo_handle (bus_start (init_bus demo_wm)))))))"

lemmas demo_bus_simps = demo_handle_def numeral_eq_Suc bus_deliver_def bus_handle_def bus_chrome_def bus_start_def
  init_bus_def demo_wm_def wm_defs init_wm_def ListWindowIds_def sorted_keys_def Let_def all_queries_def on_reply_def
  init_pending_def

lemma demo_bus_quiet:
  "bs_calls demo_bus = [] \<and> bs_msgs demo_bus = [] \<and> bs_subscribed demo_bus \<and> bs_lost demo_bus = {}"
  by (simp add: demo_bus_def demo_bus_simps)

lemma handle_reaches: "R\<^sup>*\<^sup>* a b \<Longrightarrow> R = bus_step sorted_keys \<Longrightarrow> R\<^sup>*\<^sup>* a (demo_handle b)"
proof (cases "bs_calls b")
  case (Cons c cs)
  assume r: "R\<^sup>*\<^sup>* a b" "R = bus_step sorted_keys"
  have "bus_step sorted_keys b (demo_handle b)" unfolding demo_handle_def using Cons by (intro bus_step.handle) simp
  with r show ?thesis by (metis rtranclp.rtrancl_into_rtrancl)
qed (simp add: demo_handle_def bus_handle_def)

lemma deliver_reaches: "R\<^sup>*\<^sup>* a b \<Longrightarrow> R = bus_step sorted_keys \<Longrightarrow> R\<^sup>*\<^sup>* a (bus_deliver b)"
proof (cases "bs_msgs b")
  case (Cons m ms)
  assume r: "R\<^sup>*\<^sup>* a b" "R = bus_step sorted_keys"
  have "bus_step sorted_keys b (bus_deliver b)" using Cons by (intro bus_step.deliver) simp
  with r show ?thesis by (metis rtranclp.rtrancl_into_rtrancl)
qed (simp add: bus_deliver_def)

lemma funpow_reaches: "(\<And>c. P c \<Longrightarrow> P (f c)) \<Longrightarrow> P b \<Longrightarrow> P ((f ^^ n) b)"
  by (induction n) simp_all

lemma demo_bus_reached: "(bus_step sorted_keys)\<^sup>*\<^sup>* (init_bus demo_wm) demo_bus"
proof -
  let ?R = "(bus_step sorted_keys)\<^sup>*\<^sup>* (init_bus demo_wm)"
  have chrome: "?R b \<Longrightarrow> ?R (bus_chrome op b)" for op b
    by (erule rtranclp.rtrancl_into_rtrancl) (rule bus_step.chrome)
  have "?R (bus_start (init_bus demo_wm))" by (rule r_into_rtranclp) (rule bus_step.start)
  then show ?thesis unfolding demo_bus_def
    by (intro funpow_reaches [where P = ?R] chrome deliver_reaches handle_reaches) simp_all
qed

lemma demo_wm_finite: "finite (dom (wm_windows demo_wm))"
  by (simp add: demo_wm_def wm_defs init_wm_def)

theorem taskbar_shows_registry_witness:
  "tb_view (bs_tb demo_bus) ''w1'' =
     Some \<lparr>wr_title = ''Files'', wr_appId = ''nira-files'', wr_minimized = False, wr_focused = False\<rparr> \<and>
   tb_view (bs_tb demo_bus) ''w2'' =
     Some \<lparr>wr_title = ''Notes'', wr_appId = ''nira-notepad'', wr_minimized = True, wr_focused = False\<rparr>"
proof -
  have "wm_windows (bs_wm demo_bus) = [''w1'' \<mapsto> \<lparr>wr_title = ''Files'', wr_appId = ''nira-files'', wr_minimized = False, wr_focused = False\<rparr>,
      ''w2'' \<mapsto> \<lparr>wr_title = ''Notes'', wr_appId = ''nira-notepad'', wr_minimized = True, wr_focused = False\<rparr>]"
    by (simp add: demo_bus_def demo_bus_simps fun_eq_iff)
  with taskbar_shows_registry [OF sorted_keys_ok demo_wm_finite demo_bus_reached] demo_bus_quiet show ?thesis by simp
qed

theorem bus_becomes_quiet_witness:
  "let b = bus_start (init_bus demo_wm) in
   bus_load b = 10 \<and> (\<exists>k b'. (bus_internal sorted_keys ^^ k) b b' \<and> bs_calls b' = [] \<and> bs_msgs b' = [])"
proof -
  have "(bus_step sorted_keys)\<^sup>*\<^sup>* (init_bus demo_wm) (bus_start (init_bus demo_wm))"
    by (rule r_into_rtranclp) (rule bus_step.start)
  from bus_becomes_quiet [OF sorted_keys_ok demo_wm_finite this] show ?thesis
    by (simp add: Let_def bus_load_def demo_bus_simps)
qed

text \<open>What happens to a window in \<open>bs_lost\<close>: its title changes after the question for the title was
  answered and before the last answer is there. The signal finds no entry yet and is dropped, and
  the entry is made with the old title.\<close>

definition stale_bus :: bus where
  "stale_bus =
     (bus_deliver ^^ 5) ((demo_handle ^^ 3) (bus_chrome (OpMetadata ''w1'' ''Trash'' ''nira-files'')
        (demo_handle (bus_deliver (demo_handle (bus_start (init_bus demo_wm)))))))"

lemma seed_keeps_old_title:
  "bs_calls stale_bus = [] \<and> bs_msgs stale_bus = [] \<and> bs_lost stale_bus = {''w1''} \<and>
   map_option wr_title (wm_windows (bs_wm stale_bus) ''w1'') = Some ''Trash'' \<and>
   map_option wr_title (tb_view (bs_tb stale_bus) ''w1'') = Some ''Files''"
  by (simp add: stale_bus_def demo_bus_simps view_finish_seed tb_view_def full_record_def keyed_def finish_seed_def
      tb_receivers record_of_def WindowTitle_def WindowAppId_def WindowMinimized_def WindowFocused_def value_of_def
      default_record_def)

end
