(* ===== verification/AiThreads.thy ===== *)
theory AiThreads
  imports Clients
begin

text \<open>
  The two threads of the AI client, desktop/shell/src/AiClient.cpp: the main thread, which runs
  \<open>streamGenerate\<close>, the destructor and the event loop, and the worker that runs \<open>runGeneration\<close>. They
  share the registered context under a mutex, two atomic flags and the queue of posted
  signals; \<open>join\<close> makes the main thread wait for the worker. A step is what a thread does between
  two points where the other one can interfere: a section under the lock, a call of gRPC, a test
  of a flag. Which response a read gives, and when, is up to the daemon.

  Contexts and posted signals carry the number of their generation, which the program does not
  have; \<open>ai_shown\<close> is all that QML was told, with \<open>None\<close> for an error that \<open>streamGenerate\<close> emits itself.
\<close>

subsection \<open>States and steps\<close>

datatype goal = Restart generate_request | Destroy

datatype main_pc = MIdle | MCancel goal | MJoin goal | MGone

datatype worker_pc = WStart | WRegistered | WOpening | WReading | WClosing | WReporting | WEnded

record ai =
  ai_main :: main_pc
  ai_worker :: "(nat \<times> worker_pc) option"
  ai_gen :: nat
  ai_context :: "nat option"
  ai_cancelled :: "nat set"
  ai_freed :: "nat set"
  ai_stop :: bool
  ai_active :: bool
  ai_queue :: "(nat \<times> ai_signal) list"
  ai_shown :: "(nat option \<times> ai_signal) list"

definition init_ai :: ai where
  "init_ai = \<lparr>ai_main = MIdle, ai_worker = None, ai_gen = 0, ai_context = None, ai_cancelled = {}, ai_freed = {},
     ai_stop = False, ai_active = False, ai_queue = [], ai_shown = []\<rparr>"

text \<open>\<open>activeContext_.reset()\<close>.\<close>

definition drop_context :: "ai \<Rightarrow> ai" where
  "drop_context s = s\<lparr>ai_context := None, ai_freed := ai_freed s \<union> set_option (ai_context s)\<rparr>"

definition goto :: "nat \<Rightarrow> worker_pc \<Rightarrow> ai \<Rightarrow> ai" where
  "goto n pc s = s\<lparr>ai_worker := Some (n, pc)\<rparr>"

definition post :: "nat \<Rightarrow> ai_signal \<Rightarrow> ai \<Rightarrow> ai" where
  "post n sig s = s\<lparr>ai_queue := ai_queue s @ [(n, sig)]\<rparr>"

text \<open>The worker's steps. The first four are local; opening a stream ends at once, with a stream or
  without; a read ends with a response, or with none when the stream is over or cancelled.\<close>

definition w_register :: "nat \<Rightarrow> ai \<Rightarrow> ai" where
  "w_register n s =
     (if ai_stop s then goto n WEnded s
      else goto n WRegistered (s\<lparr>ai_context := Some n, ai_freed := ai_freed s \<union> set_option (ai_context s)\<rparr>))"

definition w_fetch :: "nat \<Rightarrow> ai \<Rightarrow> ai" where
  "w_fetch n s = (if ai_context s = None then goto n WEnded s else goto n WOpening s)"

definition w_open :: "nat \<Rightarrow> bool \<Rightarrow> ai \<Rightarrow> ai" where
  "w_open n opened s =
     (if \<not> opened
      then goto n WEnded ((post n (ErrorOccurred ''Failed to initiate AI stream.'') (drop_context s))\<lparr>ai_active := False\<rparr>)
      else goto n WReading s)"

definition w_response :: "nat \<Rightarrow> ai_response \<Rightarrow> ai \<Rightarrow> ai" where
  "w_response n response s =
     (if ai_stop s then goto n WEnded ((drop_context s)\<lparr>ai_active := False\<rparr>)
      else if rs_is_finished response then goto n WClosing (post n GenerationFinished s)
      else if rs_text response \<noteq> [] then post n (TokenReceived (rs_text response)) s
      else s)"

definition w_end :: "nat \<Rightarrow> ai \<Rightarrow> ai" where
  "w_end n s = goto n WClosing s"

definition w_close :: "nat \<Rightarrow> ai \<Rightarrow> ai" where
  "w_close n s = goto n WReporting (drop_context s)"

definition w_report :: "nat \<Rightarrow> grpc_status \<Rightarrow> ai \<Rightarrow> ai" where
  "w_report n status s =
     goto n WEnded ((case status of GrpcFailed m \<Rightarrow> if \<not> ai_stop s then post n (ErrorOccurred m) s else s | _ \<Rightarrow> s)
       \<lparr>ai_active := False\<rparr>)"

text \<open>The main thread's steps: \<open>streamGenerate\<close> and the destructor begin with the same two sections.\<close>

definition m_request ::
  "(char \<Rightarrow> bool) \<Rightarrow> (string \<Rightarrow> nat) \<Rightarrow> (rat \<Rightarrow> rat) \<Rightarrow> string \<Rightarrow> rat \<Rightarrow> int \<Rightarrow> ai \<Rightarrow> ai" where
  "m_request sp utf8_size to_float prompt temperature maxTokens s =
     (case streamGenerate sp utf8_size to_float prompt temperature maxTokens of
        (None, o1) \<Rightarrow> s\<lparr>ai_shown := ai_shown s @ map (Pair None) o1\<rparr>
      | (Some r, o1) \<Rightarrow> s\<lparr>ai_main := MCancel (Restart r)\<rparr>)"

definition m_destroy :: "ai \<Rightarrow> ai" where
  "m_destroy s = s\<lparr>ai_stop := True, ai_main := MCancel Destroy\<rparr>"

definition m_cancel :: "goal \<Rightarrow> ai \<Rightarrow> ai" where
  "m_cancel g s =
     (case ai_context s of
        Some n \<Rightarrow> drop_context (s\<lparr>ai_cancelled := insert n (ai_cancelled s), ai_main := MJoin g\<rparr>)
      | None \<Rightarrow> s\<lparr>ai_main := MJoin g\<rparr>)"

definition joined :: "ai \<Rightarrow> bool" where
  "joined s \<longleftrightarrow> (case ai_worker s of None \<Rightarrow> True | Some (n, pc) \<Rightarrow> pc = WEnded)"

definition m_join :: "goal \<Rightarrow> ai \<Rightarrow> ai" where
  "m_join g s =
     (case g of
        Destroy \<Rightarrow> s\<lparr>ai_worker := None, ai_main := MGone\<rparr>
      | Restart r \<Rightarrow>
          s\<lparr>ai_active := True, ai_gen := Suc (ai_gen s), ai_worker := Some (Suc (ai_gen s), WStart), ai_main := MIdle\<rparr>)"

definition m_deliver :: "ai \<Rightarrow> ai" where
  "m_deliver s = (case ai_queue s of [] \<Rightarrow> s | (n, sig) # xs \<Rightarrow> s\<lparr>ai_queue := xs, ai_shown := ai_shown s @ [(Some n, sig)]\<rparr>)"

inductive worker_step :: "ai \<Rightarrow> ai \<Rightarrow> bool" where
  register: "ai_worker s = Some (n, WStart) \<Longrightarrow> worker_step s (w_register n s)"
| fetch: "ai_worker s = Some (n, WRegistered) \<Longrightarrow> worker_step s (w_fetch n s)"
| stream: "ai_worker s = Some (n, WOpening) \<Longrightarrow> worker_step s (w_open n opened s)"
| response: "ai_worker s = Some (n, WReading) \<Longrightarrow> worker_step s (w_response n r s)"
| over: "ai_worker s = Some (n, WReading) \<Longrightarrow> worker_step s (w_end n s)"
| close: "ai_worker s = Some (n, WClosing) \<Longrightarrow> worker_step s (w_close n s)"
| report: "ai_worker s = Some (n, WReporting) \<Longrightarrow> worker_step s (w_report n status s)"

inductive main_step :: "(char \<Rightarrow> bool) \<Rightarrow> (string \<Rightarrow> nat) \<Rightarrow> (rat \<Rightarrow> rat) \<Rightarrow> ai \<Rightarrow> ai \<Rightarrow> bool"
  for sp utf8_size to_float where
  request: "ai_main s = MIdle \<Longrightarrow> main_step sp utf8_size to_float s (m_request sp utf8_size to_float prompt temperature maxTokens s)"
| destroy: "ai_main s = MIdle \<Longrightarrow> main_step sp utf8_size to_float s (m_destroy s)"
| cancel: "ai_main s = MCancel g \<Longrightarrow> main_step sp utf8_size to_float s (m_cancel g s)"
| join: "ai_main s = MJoin g \<Longrightarrow> joined s \<Longrightarrow> main_step sp utf8_size to_float s (m_join g s)"
| deliver: "ai_main s = MIdle \<Longrightarrow> main_step sp utf8_size to_float s (m_deliver s)"

inductive ai_step :: "(char \<Rightarrow> bool) \<Rightarrow> (string \<Rightarrow> nat) \<Rightarrow> (rat \<Rightarrow> rat) \<Rightarrow> ai \<Rightarrow> ai \<Rightarrow> bool"
  for sp utf8_size to_float where
  worker: "worker_step s t \<Longrightarrow> ai_step sp utf8_size to_float s t"
| main: "main_step sp utf8_size to_float s t \<Longrightarrow> ai_step sp utf8_size to_float s t"

inductive_cases worker_stepE: "worker_step s t"
inductive_cases main_stepE: "main_step sp utf8_size to_float s t"
inductive_cases ai_stepE: "ai_step sp utf8_size to_float s t"

lemmas ai_moves = drop_context_def goto_def post_def w_register_def w_fetch_def w_open_def w_response_def w_end_def
  w_close_def w_report_def m_request_def m_destroy_def m_cancel_def m_join_def m_deliver_def


subsection \<open>What a generation says\<close>

definition sent_of :: "nat \<Rightarrow> (nat option \<times> ai_signal) list \<Rightarrow> (nat \<times> ai_signal) list \<Rightarrow> ai_signal list" where
  "sent_of k shown queue = map snd (filter (\<lambda>x. fst x = Some k) shown) @ map snd (filter (\<lambda>x. fst x = k) queue)"

abbreviation sent :: "nat \<Rightarrow> ai \<Rightarrow> ai_signal list" where
  "sent k s \<equiv> sent_of k (ai_shown s) (ai_queue s)"

fun is_token :: "ai_signal \<Rightarrow> bool" where
  "is_token (TokenReceived t) = (t \<noteq> [])"
| "is_token _ = False"

definition said_end :: "ai_signal list \<Rightarrow> bool" where
  "said_end xs \<longleftrightarrow> (\<exists>ts. list_all is_token ts \<and> (xs = ts \<or> xs = ts @ [GenerationFinished]))"

definition said_all :: "ai_signal list \<Rightarrow> bool" where
  "said_all xs \<longleftrightarrow> (\<exists>ys es. said_end ys \<and> xs = ys @ es \<and> (es = [] \<or> (\<exists>m. es = [ErrorOccurred m])))"

text \<open>What a worker can have posted by each point.\<close>

fun said_by :: "worker_pc \<Rightarrow> ai_signal list \<Rightarrow> bool" where
  "said_by WStart xs = (xs = [])"
| "said_by WRegistered xs = (xs = [])"
| "said_by WOpening xs = (xs = [])"
| "said_by WReading xs = list_all is_token xs"
| "said_by WClosing xs = said_end xs"
| "said_by WReporting xs = said_end xs"
| "said_by WEnded xs = said_all xs"

lemma said_intros [intro]:
  "list_all is_token xs \<Longrightarrow> said_end xs"
  "list_all is_token xs \<Longrightarrow> said_end (xs @ [GenerationFinished])"
  "said_end xs \<Longrightarrow> said_all xs"
  "said_end xs \<Longrightarrow> said_all (xs @ [ErrorOccurred m])"
  "list_all is_token xs \<Longrightarrow> txt \<noteq> [] \<Longrightarrow> said_end (xs @ [TokenReceived txt])"
  unfolding said_end_def said_all_def by (blast, blast, blast, blast, fastforce)

lemma said_nil [simp, intro]: "said_end []" "said_all []" "said_all [ErrorOccurred m]"
proof -
  show "said_end []" by (rule said_intros(1)) simp
  then show "said_all []" "said_all [ErrorOccurred m]" using said_intros(3,4) [of "[]"] by simp_all
qed

lemma said_by_all: "said_by pc xs \<Longrightarrow> said_all xs"
  by (cases pc) auto

fun token_read :: "ai_signal \<Rightarrow> ai_response \<times> bool" where
  "token_read (TokenReceived t) = (\<lparr>rs_text = t, rs_is_finished = False\<rparr>, False)"
| "token_read _ = (\<lparr>rs_text = [], rs_is_finished = False\<rparr>, False)"

lemma tokens_read: "list_all is_token ts \<Longrightarrow> read_loop (map token_read ts @ rs) =
    (ts @ fst (read_loop rs), snd (read_loop rs))"
proof (induction ts)
  case (Cons x ts)
  then show ?case by (cases x) (auto split: prod.splits)
qed simp

lemma said_all_run:
  assumes "said_all xs"
  shows "\<exists>R. xs = runGeneration R"
proof -
  obtain ts fs es where xs: "xs = (ts @ fs) @ es" "list_all is_token ts" "fs = [] \<or> fs = [GenerationFinished]"
      "es = [] \<or> (\<exists>m. es = [ErrorOccurred m])"
    using assms unfolding said_all_def said_end_def by (metis append_Nil2)
  let ?reads = "map token_read ts @ (if fs = [] then [] else [(\<lparr>rs_text = [], rs_is_finished = True\<rparr>, False)])"
  let ?R = "\<lparr>st_stopAtStart = False, st_contextLost = False, st_opened = True, st_reads = ?reads,
    st_status = (case es of [ErrorOccurred m] \<Rightarrow> GrpcFailed m | _ \<Rightarrow> GrpcOk), st_stopAtEnd = False\<rparr>"
  have "read_loop ?reads = (ts @ fs, False)" using xs(2,3) by (auto simp: tokens_read)
  then have "runGeneration ?R = xs" using xs(1,4) by (auto simp: runGeneration_def)
  then show ?thesis by metis
qed


subsection \<open>The invariant\<close>

definition in_use :: "worker_pc \<Rightarrow> bool" where
  "in_use pc \<longleftrightarrow> pc \<in> {WOpening, WReading, WClosing}"

definition gens_of :: "(nat option \<times> ai_signal) list \<Rightarrow> (nat \<times> ai_signal) list \<Rightarrow> nat list" where
  "gens_of shown queue = map the (filter (\<lambda>g. g \<noteq> None) (map fst shown)) @ map fst queue"

abbreviation gens :: "ai \<Rightarrow> nat list" where
  "gens s \<equiv> gens_of (ai_shown s) (ai_queue s)"

definition worker_inv :: "ai \<Rightarrow> nat \<Rightarrow> worker_pc \<Rightarrow> bool" where
  "worker_inv s n pc \<longleftrightarrow> n = ai_gen s \<and> said_by pc (sent n s) \<and> (pc = WStart \<longrightarrow> n \<notin> ai_freed s) \<and>
     (if pc = WRegistered \<or> in_use pc
      then ai_context s = Some n \<and> n \<notin> ai_freed s \<or> ai_context s = None \<and> n \<in> ai_cancelled s
      else ai_context s = None)"

definition ai_inv :: "ai \<Rightarrow> bool" where
  "ai_inv s \<longleftrightarrow>
     (case ai_worker s of None \<Rightarrow> ai_context s = None | Some (n, pc) \<Rightarrow> worker_inv s n pc) \<and>
     (\<forall>n \<in> ai_freed s. n \<le> ai_gen s) \<and>
     (\<forall>k. said_all (sent k s)) \<and>
     sorted (gens s) \<and> (\<forall>g \<in> set (gens s). g \<le> ai_gen s) \<and>
     (ai_stop s \<longleftrightarrow> ai_main s \<in> {MCancel Destroy, MJoin Destroy, MGone}) \<and>
     (ai_main s = MJoin Destroy \<longrightarrow> ai_context s = None) \<and>
     (ai_main s = MGone \<longrightarrow> ai_worker s = None)"

lemma sent_simps [simp]:
  "sent_of k sh (q @ [(n, sig)]) = (if n = k then sent_of k sh q @ [sig] else sent_of k sh q)"
  "sent_of k (sh @ map (Pair None) o1) q = sent_of k sh q"
  "sent_of k (sh @ [(Some n, sig)]) q = sent_of k sh ((n, sig) # q)"
  "sent_of k [] [] = []"
  by (simp_all add: sent_of_def filter_map comp_def)

lemma gens_simps [simp]:
  "gens_of sh (q @ [(n, sig)]) = gens_of sh q @ [n]"
  "gens_of (sh @ map (Pair None) o1) q = gens_of sh q"
  "gens_of (sh @ [(Some n, sig)]) q = gens_of sh ((n, sig) # q)"
  "gens_of [] [] = []"
  by (simp_all add: gens_of_def filter_map comp_def)

lemma init_ai_inv: "ai_inv init_ai"
  by (simp add: ai_inv_def init_ai_def)

lemma sent_none:
  assumes "k \<notin> set (gens s)"
  shows "sent k s = []"
proof -
  have "\<forall>x \<in> set (ai_shown s). fst x \<noteq> Some k" and "\<forall>x \<in> set (ai_queue s). fst x \<noteq> k"
    using assms unfolding gens_of_def by force+
  then show ?thesis unfolding sent_of_def by (simp add: filter_False)
qed

lemma gens_last: "sorted (gens s) \<Longrightarrow> \<forall>g \<in> set (gens s). g \<le> n \<Longrightarrow> sorted (gens s @ [n])"
  by (simp add: sorted_append)

lemma ai_invD:
  assumes "ai_inv s" and "ai_worker s = Some (n, pc)"
  shows "worker_inv s n pc" and "said_by pc (sent (ai_gen s) s)" and "n = ai_gen s"
proof -
  show w: "worker_inv s n pc" using assms by (simp add: ai_inv_def)
  then show "n = ai_gen s" by (simp add: worker_inv_def)
  with w show "said_by pc (sent (ai_gen s) s)" by (simp add: worker_inv_def)
qed

lemma worker_step_inv:
  assumes "worker_step s t" and "ai_inv s"
  shows "ai_inv t"
  using assms(1)
proof cases
  case (register n)
  with assms(2) show ?thesis
    by (cases "ai_stop s") (auto simp: ai_inv_def worker_inv_def ai_moves in_use_def)
next
  case (fetch n)
  with assms(2) show ?thesis
    by (cases "ai_context s = None") (auto simp: ai_inv_def worker_inv_def ai_moves in_use_def)
next
  case (stream n opened)
  with assms(2) show ?thesis
    by (cases opened) (auto simp: ai_inv_def worker_inv_def ai_moves in_use_def gens_last)
next
  case (response n r)
  have said: "list_all is_token (sent (ai_gen s) s)" using ai_invD(2) [OF assms(2) response(2)] by simp
  show ?thesis
    using response assms(2) said
    by (cases "ai_stop s"; cases "rs_is_finished r"; cases "rs_text r = []")
      (auto simp: ai_inv_def worker_inv_def ai_moves in_use_def gens_last)
next
  case (over n)
  with assms(2) show ?thesis
    by (auto simp: ai_inv_def worker_inv_def ai_moves in_use_def)
next
  case (close n)
  with assms(2) show ?thesis
    by (auto simp: ai_inv_def worker_inv_def ai_moves in_use_def)
next
  case (report n status)
  have said: "said_end (sent (ai_gen s) s)" using ai_invD(2) [OF assms(2) report(2)] by simp
  show ?thesis using report assms(2) said
    by (cases status; cases "ai_stop s") (auto simp: ai_inv_def worker_inv_def ai_moves in_use_def gens_last)
qed


lemma main_step_inv:
  assumes "main_step sp utf8_size to_float s t" and "ai_inv s"
  shows "ai_inv t"
  using assms(1)
proof cases
  case (request prompt temperature maxTokens)
  with assms(2) show ?thesis
    by (auto simp: ai_inv_def worker_inv_def m_request_def split: option.splits prod.splits)
next
  case destroy
  with assms(2) show ?thesis by (auto simp: ai_inv_def worker_inv_def m_destroy_def split: option.splits)
next
  case (cancel g)
  with assms(2) show ?thesis
    by (cases "ai_context s")
      (auto simp: ai_inv_def worker_inv_def ai_moves in_use_def split: option.splits if_splits)
next
  case (join g)
  have "sent (Suc (ai_gen s)) s = []" using assms(2) by (intro sent_none) (auto simp: ai_inv_def)
  with join assms(2) show ?thesis
    by (cases g) (auto simp: ai_inv_def worker_inv_def m_join_def joined_def in_use_def split: option.splits)
next
  case deliver
  with assms(2) show ?thesis
    by (auto simp: ai_inv_def worker_inv_def m_deliver_def split: list.splits option.splits)
qed

lemma ai_step_inv: "ai_step sp utf8_size to_float s t \<Longrightarrow> ai_inv s \<Longrightarrow> ai_inv t"
  by (erule ai_stepE) (auto intro: worker_step_inv main_step_inv)

lemma ai_reach_inv:
  assumes "(ai_step sp utf8_size to_float)\<^sup>*\<^sup>* init_ai s"
  shows "ai_inv s"
  using assms by (induction rule: rtranclp_induct) (auto intro: init_ai_inv ai_step_inv)

text \<open>
  C35. The two threads of the AI client keep their hands off each other's generation. In every
  state they can reach, however their steps interleave: only the newest generation has a worker,
  the registered context is that worker's, and a context it is using is intact unless the main
  thread has cancelled it; nothing is registered when no worker runs. QML is told about the
  generations in their order, and about each of them what one run of \<open>runGeneration\<close> says: its
  tokens, then at most once the end, then at most one error.
\<close>

theorem ai_threads_invariant:
  assumes "(ai_step sp utf8_size to_float)\<^sup>*\<^sup>* init_ai s"
  shows "(case ai_worker s of
       None \<Rightarrow> ai_context s = None
     | Some (n, pc) \<Rightarrow> n = ai_gen s \<and> ai_context s \<in> {None, Some n} \<and>
         (in_use pc \<longrightarrow> n \<in> ai_freed s \<longrightarrow> n \<in> ai_cancelled s)) \<and>
    (joined s \<longrightarrow> ai_context s = None) \<and>
    sorted (gens s) \<and> (\<forall>k. \<exists>R. sent k s = runGeneration R)"
proof -
  have inv: "ai_inv s" using assms by (rule ai_reach_inv)
  have "joined s \<longrightarrow> ai_context s = None"
    using inv by (auto simp: ai_inv_def worker_inv_def joined_def in_use_def split: option.splits)
  moreover have "\<exists>R. sent k s = runGeneration R" for k
    using inv by (intro said_all_run) (simp add: ai_inv_def)
  moreover have "case ai_worker s of None \<Rightarrow> ai_context s = None
      | Some (n, pc) \<Rightarrow> n = ai_gen s \<and> ai_context s \<in> {None, Some n} \<and> (in_use pc \<longrightarrow> n \<in> ai_freed s \<longrightarrow> n \<in> ai_cancelled s)"
    using inv by (auto simp: ai_inv_def worker_inv_def split: option.splits if_splits)
  moreover have "sorted (gens s)" using inv by (simp add: ai_inv_def)
  ultimately show ?thesis by blast
qed


subsection \<open>The destructor ends\<close>

fun pc_rank :: "worker_pc \<Rightarrow> nat" where
  "pc_rank WEnded = 0"
| "pc_rank WReporting = 1"
| "pc_rank WClosing = 2"
| "pc_rank WReading = 3"
| "pc_rank WOpening = 4"
| "pc_rank WRegistered = 5"
| "pc_rank WStart = 6"

lemma pc_rank_inj: "pc_rank a = pc_rank b \<Longrightarrow> a = b"
  by (cases a; cases b) simp_all

text \<open>The points of \<open>runGeneration\<close> in the order it passes them.\<close>

instantiation worker_pc :: linorder
begin

definition less_eq_worker_pc :: "worker_pc \<Rightarrow> worker_pc \<Rightarrow> bool" where
  "less_eq_worker_pc a b \<longleftrightarrow> pc_rank b \<le> pc_rank a"

definition less_worker_pc :: "worker_pc \<Rightarrow> worker_pc \<Rightarrow> bool" where
  "less_worker_pc a b \<longleftrightarrow> pc_rank b < pc_rank a"

instance
  by standard (auto simp: less_eq_worker_pc_def less_worker_pc_def intro: pc_rank_inj)

end

lemmas pc_order = less_eq_worker_pc_def less_worker_pc_def

definition ai_rank :: "ai \<Rightarrow> nat" where
  "ai_rank s = (case ai_worker s of None \<Rightarrow> 0 | Some (n, pc) \<Rightarrow> pc_rank pc)"

text \<open>A worker never goes back, and only a read leaves it where it is.\<close>

lemma worker_goes_forward:
  assumes "worker_step s t" and "ai_worker s = Some (n, pc)"
  shows "\<exists>pc'. ai_worker t = Some (n, pc') \<and> pc \<le> pc' \<and> (pc' = pc \<longrightarrow> pc = WReading)"
  using assms by (cases rule: worker_step.cases) (auto simp: ai_moves pc_order split: grpc_status.splits)

text \<open>The worker can go on without the daemon: its next step is its own, or its call was cancelled.\<close>

definition unaided :: "ai \<Rightarrow> bool" where
  "unaided s \<longleftrightarrow>
     (case ai_worker s of
        None \<Rightarrow> False
      | Some (n, pc) \<Rightarrow> pc \<in> {WStart, WRegistered, WClosing, WReporting} \<or> n \<in> ai_cancelled s)"

lemma worker_step_destroy:
  assumes "worker_step s t" and "ai_stop s"
  shows "ai_rank t < ai_rank s \<and> ai_stop t \<and> ai_main t = ai_main s"
  using assms by (cases rule: worker_step.cases) (auto simp: ai_rank_def ai_moves split: grpc_status.splits)

lemma worker_can_step: "\<not> joined s \<Longrightarrow> \<exists>t. worker_step s t"
proof -
  assume "\<not> joined s"
  then obtain n pc where "ai_worker s = Some (n, pc)" and "pc \<noteq> WEnded"
    by (auto simp: joined_def split: option.splits)
  then show ?thesis by (cases pc) (auto intro: worker_step.intros)
qed

lemma worker_runs_destroy:
  assumes "(worker_step ^^ n) s t" and "ai_stop s"
  shows "n + ai_rank t \<le> ai_rank s \<and> ai_stop t \<and> ai_main t = ai_main s"
  using assms(1)
proof (induction n arbitrary: t)
  case (Suc n)
  then obtain u where "(worker_step ^^ n) s u" and u: "worker_step u t" by auto
  with Suc.IH [of u] worker_step_destroy [OF u] show ?case by auto
qed (simp add: assms(2))

lemma rank_bound: "ai_rank s \<le> 6"
proof -
  have "pc_rank pc \<le> 6" for pc by (cases pc) simp_all
  then show ?thesis by (auto simp: ai_rank_def split: option.splits)
qed

lemma worker_ends_destroy:
  assumes "ai_stop s"
  shows "\<exists>t. worker_step\<^sup>*\<^sup>* s t \<and> joined t \<and> ai_main t = ai_main s"
  using assms
proof (induction s rule: measure_induct_rule [of ai_rank])
  case (less s)
  show ?case
  proof (cases "joined s")
    case False
    then obtain u where u: "worker_step s u" using worker_can_step by blast
    with less worker_step_destroy [OF u] obtain t where "worker_step\<^sup>*\<^sup>* u t" "joined t" "ai_main t = ai_main s" by metis
    with u show ?thesis by (blast intro: converse_rtranclp_into_rtranclp)
  qed blast
qed

text \<open>
  C36. The shell can always be closed. Once the destructor waits for the worker, the worker's next
  step never waits for the daemon: it has not begun its call, or has ended it, or the call
  was cancelled. It takes at most six steps, whatever the daemon still sends and whichever
  step it was at; then the join returns, no context is registered, and nothing happens any
  more.
\<close>

theorem destructor_ends:
  assumes "(ai_step sp utf8_size to_float)\<^sup>*\<^sup>* init_ai s" and "ai_main s = MJoin Destroy"
  shows "(\<not> joined s \<longrightarrow> unaided s \<and> (\<exists>t. worker_step s t)) \<and>
    ((worker_step ^^ n) s t \<longrightarrow> n \<le> 6) \<and>
    (\<exists>t. worker_step\<^sup>*\<^sup>* s t \<and> main_step sp utf8_size to_float t (m_join Destroy t) \<and> ai_context t = None) \<and>
    (\<nexists>u. ai_step sp utf8_size to_float (m_join Destroy t') u)"
proof -
  have inv: "ai_inv s" using assms(1) by (rule ai_reach_inv)
  then have stop: "ai_stop s" and ctx: "ai_context s = None" using assms(2) by (simp_all add: ai_inv_def)
  have "\<not> joined s \<longrightarrow> unaided s"
  proof
    assume "\<not> joined s"
    then obtain n pc where w: "ai_worker s = Some (n, pc)" and "pc \<noteq> WEnded"
      by (auto simp: joined_def split: option.splits)
    with ai_invD(1) [OF inv w] ctx show "unaided s"
      by (cases pc) (auto simp: unaided_def worker_inv_def in_use_def)
  qed
  moreover have "(worker_step ^^ n) s t \<longrightarrow> n \<le> 6"
    using worker_runs_destroy [OF _ stop] rank_bound [of s] by (meson add_leD1 le_trans)
  moreover have "\<exists>t. worker_step\<^sup>*\<^sup>* s t \<and> main_step sp utf8_size to_float t (m_join Destroy t) \<and> ai_context t = None"
  proof -
    obtain t where t: "worker_step\<^sup>*\<^sup>* s t" "joined t" "ai_main t = MJoin Destroy"
      using worker_ends_destroy [OF stop] assms(2) by auto
    from t(1) have "ai_inv t" using inv by (induction rule: rtranclp_induct) (auto intro: worker_step_inv)
    with t(3) have "ai_context t = None" by (simp add: ai_inv_def)
    with t show ?thesis by (blast intro: main_step.join)
  qed
  moreover have "\<nexists>u. ai_step sp utf8_size to_float (m_join Destroy t') u"
    by (auto simp: m_join_def elim!: ai_stepE worker_stepE main_stepE)
  ultimately show ?thesis using worker_can_step by blast
qed


subsection \<open>Runs\<close>

abbreviation demo_ai_step :: "ai \<Rightarrow> ai \<Rightarrow> bool" where
  "demo_ai_step \<equiv> ai_step (\<lambda>c. c = CHR '' '') length (\<lambda>x. x)"

definition demo_request :: generate_request where
  "demo_request = \<lparr>gr_prompt = ''hi'', gr_temperature = 1, gr_max_tokens = 256, gr_context_id = ''active''\<rparr>"

text \<open>QML asks for an answer; the worker runs up to its first token; the user sends the next prompt
  while it reads, or closes the shell.\<close>

definition ask :: "ai \<Rightarrow> ai" where
  "ask = m_request (\<lambda>c. c = CHR '' '') length (\<lambda>x. x) ''hi'' 1 256"

definition demo_started :: ai where
  "demo_started = m_join (Restart demo_request) (m_cancel (Restart demo_request) (ask init_ai))"

definition demo_reading :: ai where
  "demo_reading = w_open 1 True (w_fetch 1 (w_register 1 demo_started))"

definition demo_token :: ai where
  "demo_token = w_response 1 \<lparr>rs_text = ''to'', rs_is_finished = False\<rparr> demo_reading"

definition demo_cancelled :: ai where
  "demo_cancelled = m_cancel (Restart demo_request) (ask demo_token)"

definition demo_missed :: ai where
  "demo_missed = w_open 1 True (w_fetch 1 (w_register 1 (m_cancel (Restart demo_request) (ask demo_started))))"

definition demo_stale :: ai where
  "demo_stale = m_deliver (m_join (Restart demo_request) (w_report 1 (GrpcCancelled []) (w_close 1 (w_end 1 demo_cancelled))))"

definition demo_closing :: ai where
  "demo_closing = m_cancel Destroy (m_destroy demo_token)"

lemmas demo_ai_simps = demo_started_def demo_reading_def demo_token_def demo_cancelled_def demo_missed_def demo_stale_def
  demo_closing_def ask_def demo_request_def init_ai_def ai_moves streamGenerate_def trim_def Let_def joined_def

lemma reach_worker: "demo_ai_step\<^sup>*\<^sup>* a s \<Longrightarrow> worker_step s t \<Longrightarrow> demo_ai_step\<^sup>*\<^sup>* a t"
  by (erule rtranclp.rtrancl_into_rtrancl) (rule ai_step.worker)

lemma reach_main:
  "demo_ai_step\<^sup>*\<^sup>* a s \<Longrightarrow> main_step (\<lambda>c. c = CHR '' '') length (\<lambda>x. x) s t \<Longrightarrow> demo_ai_step\<^sup>*\<^sup>* a t"
  by (erule rtranclp.rtrancl_into_rtrancl) (rule ai_step.main)

lemma ask_step: "ai_main s = MIdle \<Longrightarrow> main_step (\<lambda>c. c = CHR '' '') length (\<lambda>x. x) s (ask s)"
  unfolding ask_def by (rule main_step.request)

lemmas reach_intros =
  reach_main [OF _ ask_step] reach_main [OF _ main_step.destroy] reach_main [OF _ main_step.cancel]
  reach_main [OF _ main_step.join] reach_main [OF _ main_step.deliver]
  reach_worker [OF _ worker_step.register] reach_worker [OF _ worker_step.fetch] reach_worker [OF _ worker_step.stream]
  reach_worker [OF _ worker_step.response] reach_worker [OF _ worker_step.over] reach_worker [OF _ worker_step.close]
  reach_worker [OF _ worker_step.report]

lemma demo_reached:
  "demo_ai_step\<^sup>*\<^sup>* init_ai demo_started" "demo_ai_step\<^sup>*\<^sup>* init_ai demo_token"
  "demo_ai_step\<^sup>*\<^sup>* init_ai demo_cancelled" "demo_ai_step\<^sup>*\<^sup>* init_ai demo_missed"
  "demo_ai_step\<^sup>*\<^sup>* init_ai demo_stale" "demo_ai_step\<^sup>*\<^sup>* init_ai demo_closing"
proof -
  show s: "demo_ai_step\<^sup>*\<^sup>* init_ai demo_started"
    unfolding demo_started_def by (intro reach_intros rtranclp.rtrancl_refl) (simp_all add: demo_ai_simps)
  show t: "demo_ai_step\<^sup>*\<^sup>* init_ai demo_token"
    unfolding demo_token_def demo_reading_def by (intro reach_intros s) (simp_all add: demo_ai_simps)
  show c: "demo_ai_step\<^sup>*\<^sup>* init_ai demo_cancelled"
    unfolding demo_cancelled_def by (intro reach_intros t) (simp_all add: demo_ai_simps)
  show "demo_ai_step\<^sup>*\<^sup>* init_ai demo_closing"
    unfolding demo_closing_def by (intro reach_intros t) (simp_all add: demo_ai_simps)
  show "demo_ai_step\<^sup>*\<^sup>* init_ai demo_missed"
    unfolding demo_missed_def by (intro reach_intros s) (simp_all add: demo_ai_simps)
  show "demo_ai_step\<^sup>*\<^sup>* init_ai demo_stale"
    unfolding demo_stale_def by (intro reach_intros c) (simp_all add: demo_ai_simps)
qed

text \<open>Cancelling a running generation destroys the context whose stream the worker goes on reading.\<close>

lemma cancel_frees_context_in_use:
  "ai_worker demo_cancelled = Some (1, WReading) \<and> 1 \<in> ai_freed demo_cancelled"
  by (simp add: demo_ai_simps)

text \<open>A prompt sent before the worker has registered its context cancels nothing: the main thread waits
  for the whole of the old answer, which the daemon may take three minutes to give.\<close>

lemma cancel_misses_starting_worker:
  "ai_main demo_missed = MJoin (Restart demo_request) \<and> ai_worker demo_missed = Some (1, WReading) \<and>
   1 \<notin> ai_cancelled demo_missed \<and> \<not> unaided demo_missed"
  by (simp add: demo_ai_simps unaided_def)

text \<open>A token that was posted before the cancel is shown after the next generation has begun, as part of
  its answer.\<close>

lemma stale_token_in_next_answer:
  "ai_gen demo_stale = 2 \<and> ai_worker demo_stale = Some (2, WStart) \<and> ai_shown demo_stale = [(Some 1, TokenReceived ''to'')]"
  by (simp add: demo_ai_simps)

theorem ai_threads_invariant_witness:
  "sorted (gens demo_stale) \<and> (\<exists>R. [TokenReceived ''to''] = runGeneration R)"
proof -
  have "sent 1 demo_stale = [TokenReceived ''to'']" by (simp add: demo_ai_simps sent_of_def)
  with ai_threads_invariant [OF demo_reached(5)] show ?thesis by metis
qed

theorem destructor_ends_witness:
  "\<not> joined demo_closing \<and> unaided demo_closing \<and>
   (\<exists>t. worker_step\<^sup>*\<^sup>* demo_closing t \<and> demo_ai_step t (m_join Destroy t) \<and> ai_context t = None)"
proof -
  have "ai_main demo_closing = MJoin Destroy" and "\<not> joined demo_closing" by (simp_all add: demo_ai_simps)
  with destructor_ends [OF demo_reached(6)] show ?thesis by (blast intro: ai_step.main)
qed

end
