(* ===== verification/FilesLive.thy ===== *)
theory FilesLive
  imports FsWatcher
begin

text \<open>
  The file manager while the disk changes under it: the directory view
  (apps/files/src/FileModel.cpp), its load on a worker thread, the watcher with its debounce
  (FileSystemWatcher.cpp) and the connections of main.cpp, interleaved with the user and with
  other programs that change files. A load reads the directory at some moment between its
  start and its end; the operating system reports a change of a watched directory later.

  \<open>lv_disk\<close> is what \<open>loadDirectory\<close> would give now. History variables: \<open>lv_listing\<close>, what the last
  finished load found, and \<open>lv_unseen\<close>, whether the directory shown has changed without a report
  since it was read (it is not watched, or only the contents of a file changed).
\<close>

record files_live =
  lv_app :: files_app
  lv_disk :: "path \<Rightarrow> file_entry list"
  lv_result :: "file_entry list option"
  lv_notices :: "path list"
  lv_listing :: "file_entry list"
  lv_unseen :: bool

abbreviation lv_model :: "files_live \<Rightarrow> file_model" where
  "lv_model l \<equiv> fa_model (lv_app l)"

abbreviation lv_watcher :: "files_live \<Rightarrow> fs_watcher" where
  "lv_watcher l \<equiv> fa_watcher (lv_app l)"

abbreviation lv_path :: "files_live \<Rightarrow> path" where
  "lv_path l \<equiv> fm_currentPath (lv_model l)"

definition init_live :: "path \<Rightarrow> (path \<Rightarrow> file_entry list) \<Rightarrow> files_live" where
  "init_live home disk = \<lparr>lv_app = files_start home, lv_disk = disk, lv_result = None, lv_notices = [],
     lv_listing = [], lv_unseen = False\<rparr>"

fun is_load :: "fm_out \<Rightarrow> bool" where
  "is_load (RunLoad p) = True"
| "is_load _ = False"

fun is_loaded :: "fm_event \<Rightarrow> bool" where
  "is_loaded (EvLoaded es) = True"
| "is_loaded _ = False"

text \<open>Whether an event makes \<open>setFuture\<close> give up the load that is under way for a new one.\<close>

fun starts_load :: "fa_event \<Rightarrow> files_app \<Rightarrow> bool" where
  "starts_load (FaModel e) a = list_ex is_load (snd (fm_step e (fa_model a)))"
| "starts_load (FaChanged p) a = False"
| "starts_load FaTimeout a =
     (fw_timer (fa_watcher a) \<and> fw_pendingDirs (fa_watcher a) \<noteq> [] \<and> fm_currentPath (fa_model a) \<noteq> [])"

definition lv_app_step :: "(path \<Rightarrow> bool) \<Rightarrow> (path list \<Rightarrow> path list) \<Rightarrow> fa_event \<Rightarrow> files_live \<Rightarrow> files_live" where
  "lv_app_step ok each e l =
     l\<lparr>lv_app := files_step ok each e (lv_app l),
       lv_result := (if starts_load e (lv_app l) then None else lv_result l)\<rparr>"

definition lv_read :: "path \<Rightarrow> files_live \<Rightarrow> files_live" where
  "lv_read p l = l\<lparr>lv_result := Some (lv_disk l p), lv_unseen := False\<rparr>"

definition lv_finish :: "(path \<Rightarrow> bool) \<Rightarrow> (path list \<Rightarrow> path list) \<Rightarrow> fm_env \<Rightarrow> file_entry list \<Rightarrow> files_live \<Rightarrow> files_live" where
  "lv_finish ok each V r l = (lv_app_step ok each (FaModel (V, EvLoaded r)) l)\<lparr>lv_result := None, lv_listing := r\<rparr>"

definition lv_change :: "path \<Rightarrow> file_entry list \<Rightarrow> bool \<Rightarrow> files_live \<Rightarrow> files_live" where
  "lv_change p es reported l =
     (let seen = (reported \<and> p \<in> set (fw_watches (lv_watcher l))) in
      l\<lparr>lv_disk := (lv_disk l)(p := es),
        lv_notices := (if seen then lv_notices l @ [p] else lv_notices l),
        lv_unseen := (lv_unseen l \<or> p = lv_path l \<and> \<not> seen)\<rparr>)"

inductive live_internal ::
  "fm_env \<Rightarrow> (path \<Rightarrow> bool) \<Rightarrow> (path list \<Rightarrow> path list) \<Rightarrow> files_live \<Rightarrow> files_live \<Rightarrow> bool"
  for V ok each where
  read: "fm_watch (lv_model l) = Some p \<Longrightarrow> lv_result l = None \<Longrightarrow> live_internal V ok each l (lv_read p l)"
| finish: "fm_watch (lv_model l) = Some p \<Longrightarrow> lv_result l = Some r \<Longrightarrow> live_internal V ok each l (lv_finish ok each V r l)"
| notice: "lv_notices l = p # ps \<Longrightarrow>
    live_internal V ok each l ((lv_app_step ok each (FaChanged p) l)\<lparr>lv_notices := ps\<rparr>)"
| timeout: "fw_timer (lv_watcher l) \<Longrightarrow> live_internal V ok each l (lv_app_step ok each FaTimeout l)"

inductive live_step ::
  "fm_env \<Rightarrow> (path \<Rightarrow> bool) \<Rightarrow> (path list \<Rightarrow> path list) \<Rightarrow> files_live \<Rightarrow> files_live \<Rightarrow> bool"
  for V ok each where
  user: "event_ok V (W, e) \<Longrightarrow> \<not> is_loaded e \<Longrightarrow> live_step V ok each l (lv_app_step ok each (FaModel (W, e)) l)"
| change: "live_step V ok each l (lv_change p es reported l)"
| internal: "live_internal V ok each l l' \<Longrightarrow> live_step V ok each l l'"

inductive_cases live_internalE: "live_internal V ok each l l'"
inductive_cases live_stepE: "live_step V ok each l l'"


subsection \<open>The invariant\<close>

text \<open>A reload that is bound to happen.\<close>

definition reload_due :: "files_live \<Rightarrow> bool" where
  "reload_due l \<longleftrightarrow> lv_path l \<in> set (fw_watches (lv_watcher l)) \<inter> set (lv_notices l) \<or>
     fw_timer (lv_watcher l) \<and> fw_pendingDirs (lv_watcher l) \<noteq> []"

definition up_to_date :: "file_entry list \<Rightarrow> files_live \<Rightarrow> bool" where
  "up_to_date r l \<longleftrightarrow> r = lv_disk l (lv_path l) \<or> reload_due l \<or> lv_unseen l"

definition live_inv :: "fm_env \<Rightarrow> files_live \<Rightarrow> bool" where
  "live_inv V l \<longleftrightarrow>
     fm_inv V (lv_listing l) (lv_model l) \<and> fw_inv (lv_watcher l) \<and>
     (case fm_watch (lv_model l) of
        Some p \<Rightarrow> (case lv_result l of None \<Rightarrow> True | Some r \<Rightarrow> up_to_date r l)
      | None \<Rightarrow> lv_path l \<noteq> [] \<longrightarrow> up_to_date (lv_listing l) l)"

lemma refresh_starts:
  "fm_currentPath m \<noteq> [] \<Longrightarrow> fm_watch (fst (refresh m)) = Some (fm_currentPath m) \<and> list_ex is_load (snd (refresh m))"
  "fm_currentPath m = [] \<Longrightarrow> refresh m = (m, [])"
  by (simp_all add: refresh_def startDirectoryLoad_def)

text \<open>A call of the user starts a load, or leaves path, load and watch as they are.\<close>

definition user_quiet :: "file_model \<Rightarrow> file_model \<times> fm_out list \<Rightarrow> bool" where
  "user_quiet m r \<longleftrightarrow>
     (if list_ex is_load (snd r) then fm_watch (fst r) \<noteq> None
      else fm_watch (fst r) = fm_watch m \<and> fm_currentPath (fst r) = fm_currentPath m \<and> CurrentPathChanged \<notin> set (snd r))"

lemma user_quiet_refresh:
  assumes "fm_watch m' = fm_watch m" and "fm_currentPath m' = fm_currentPath m"
    and "x \<noteq> CurrentPathChanged" and "\<not> is_load x"
  shows "user_quiet m (case refresh m' of (m1, o1) \<Rightarrow> (m1, x # o1))"
  using assms by (cases "fm_currentPath m = []") (auto simp: user_quiet_def refresh_def startDirectoryLoad_def)

lemma user_quiet_path: "p \<noteq> [] \<Longrightarrow> user_quiet m (setCurrentPath p m)"
  by (auto simp: user_quiet_def setCurrentPath_def refresh_def startDirectoryLoad_def)

lemma sortEntries_watch [simp]: "fm_watch (sortEntries V m) = fm_watch m"
  by (simp add: sortEntries_def)

lemma user_quiet_step:
  assumes "event_ok V (W, e)" and "\<not> is_loaded e"
  shows "user_quiet m (fm_step (W, e) m)"
proof -
  have same: "user_quiet m (m, [])" by (simp add: user_quiet_def)
  show ?thesis
  proof (cases e)
    case (EvSetNameFilter f)
    then show ?thesis using same
      by (simp add: setNameFilter_def user_quiet_refresh del: case_prod_conv)
  next
    case (EvSetShowHidden b)
    then show ?thesis using same
      by (simp add: setShowHidden_def user_quiet_refresh del: case_prod_conv)
  next
    case EvRefresh
    then show ?thesis by (simp add: user_quiet_def refresh_def startDirectoryLoad_def)
  next
    case (EvSetSortColumn c)
    then show ?thesis by (simp add: setSortColumn_def user_quiet_def applySort_def)
  next
    case (EvSetSortOrder d)
    then show ?thesis by (simp add: setSortOrder_def user_quiet_def applySort_def)
  next
    case (EvLoaded es)
    with assms(2) show ?thesis by simp
  qed (use assms same in \<open>auto simp: user_quiet_path navigateUp_def navigateTo_def Let_def\<close>)
qed


lemma app_step_model: "fa_model (files_step ok each (FaModel e) a) = fst (fm_step e (fa_model a))"
  by (simp add: case_prod_beta)

lemma app_step_watcher:
  "fa_watcher (files_step ok each (FaModel e) a) =
    (if CurrentPathChanged \<in> set (snd (fm_step e (fa_model a)))
     then fst (setWatchedPath ok (fm_currentPath (fst (fm_step e (fa_model a)))) (fa_watcher a)) else fa_watcher a)"
  by (simp add: case_prod_beta)

lemma last_load_user: "\<not> is_loaded e \<Longrightarrow> fm_last_load [(W, e)] m raw = raw"
  by (cases e) simp_all

lemma setWatchedPath_inv: "fw_inv w \<Longrightarrow> fw_inv (fst (setWatchedPath ok p w))"
  using fw_step_inv [of w ok "\<lambda>xs. xs" "FwSet p"] by simp

lemma live_user_inv:
  assumes "env_ok V" and "event_ok V (W, e)" and "\<not> is_loaded e" and "live_inv V l"
  shows "live_inv V (lv_app_step ok each (FaModel (W, e)) l)"
proof -
  let ?l = "lv_app_step ok each (FaModel (W, e)) l"
  let ?r = "fm_step (W, e) (lv_model l)"
  have m: "lv_model ?l = fst ?r" by (simp add: lv_app_step_def case_prod_beta)
  have w: "lv_watcher ?l = (if CurrentPathChanged \<in> set (snd ?r) then fst (setWatchedPath ok (fm_currentPath (fst ?r)) (lv_watcher l)) else lv_watcher l)"
    by (simp add: lv_app_step_def case_prod_beta)
  have rest: "lv_disk ?l = lv_disk l" "lv_notices ?l = lv_notices l" "lv_listing ?l = lv_listing l" "lv_unseen ?l = lv_unseen l"
      "lv_result ?l = (if list_ex is_load (snd ?r) then None else lv_result l)"
    by (simp_all add: lv_app_step_def)
  have inv: "fm_inv V (lv_listing l) (lv_model l)" "fw_inv (lv_watcher l)" using assms(4) by (simp_all add: live_inv_def)
  have "fm_inv V (lv_listing l) (fst ?r)"
    using fm_step_inv [OF assms(1,2) inv(1)] unfolding last_load_user [OF assms(3)] .
  moreover have "fw_inv (lv_watcher ?l)" unfolding w using inv(2) by (simp add: setWatchedPath_inv)
  moreover have "case fm_watch (fst ?r) of
      Some p \<Rightarrow> (case lv_result ?l of None \<Rightarrow> True | Some r \<Rightarrow> up_to_date r ?l)
    | None \<Rightarrow> lv_path ?l \<noteq> [] \<longrightarrow> up_to_date (lv_listing ?l) ?l"
  proof (cases "list_ex is_load (snd ?r)")
    case True
    with user_quiet_step [OF assms(2,3), of "lv_model l"] rest show ?thesis by (auto simp: user_quiet_def)
  next
    case False
    with user_quiet_step [OF assms(2,3), of "lv_model l"]
    have q: "fm_watch (fst ?r) = fm_watch (lv_model l)" "fm_currentPath (fst ?r) = lv_path l"
        "CurrentPathChanged \<notin> set (snd ?r)"
      by (auto simp: user_quiet_def)
    then have "up_to_date r ?l = up_to_date r l" for r
      unfolding up_to_date_def reload_due_def m w rest by simp
    with assms(4) q False show ?thesis unfolding live_inv_def m rest by (simp split: option.splits)
  qed
  ultimately show ?thesis unfolding live_inv_def m rest by (simp add: m)
qed

lemma live_change_inv: "live_inv V l \<Longrightarrow> live_inv V (lv_change p es reported l)"
proof -
  assume inv: "live_inv V l"
  let ?l = "lv_change p es reported l"
  have s: "lv_app ?l = lv_app l" "lv_result ?l = lv_result l" "lv_listing ?l = lv_listing l"
    by (simp_all add: lv_change_def Let_def)
  have "up_to_date r ?l" if "up_to_date r l" for r
    using that by (auto simp: up_to_date_def reload_due_def lv_change_def Let_def)
  with inv show ?thesis unfolding live_inv_def s by (auto split: option.splits)
qed

lemma live_read_inv: "live_inv V l \<Longrightarrow> fm_watch (lv_model l) = Some p \<Longrightarrow> live_inv V (lv_read p l)"
  by (auto simp: live_inv_def lv_read_def up_to_date_def fm_inv_def)

lemma live_finish_inv:
  assumes "env_ok V" and "live_inv V l" and "fm_watch (lv_model l) = Some p" and "lv_result l = Some r"
  shows "live_inv V (lv_finish ok each V r l)"
proof -
  let ?l = "lv_finish ok each V r l"
  let ?r = "fm_step (V, EvLoaded r) (lv_model l)"
  have quiet: "CurrentPathChanged \<notin> set (snd ?r)" by (simp add: onDirectoryLoaded_def Let_def)
  have path: "fm_currentPath (fst ?r) = lv_path l" using fm_step_announces [OF quiet] .
  have m: "lv_model ?l = fst ?r"
    by (simp add: lv_finish_def lv_app_step_def case_prod_beta)
  have w: "lv_watcher ?l = lv_watcher l"
    using quiet by (simp add: lv_finish_def lv_app_step_def case_prod_beta)
  have rest: "lv_disk ?l = lv_disk l" "lv_notices ?l = lv_notices l" "lv_listing ?l = r" "lv_unseen ?l = lv_unseen l"
    by (simp_all add: lv_finish_def lv_app_step_def)
  have "fm_inv V (lv_listing l) (lv_model l)" using assms(2) by (simp add: live_inv_def)
  then have "fm_inv V r (fst (onDirectoryLoaded V r (lv_model l)))"
    using onDirectoryLoaded_inv [OF assms(1), of V] assms(3) by (auto simp: same_tables_def)
  then have "fm_inv V r (fst ?r)" using assms(3) by simp
  moreover have "fm_watch (fst ?r) = None" using assms(3) by (simp add: onDirectoryLoaded_def Let_def)
  moreover have "up_to_date r ?l"
    using assms(2-4) unfolding live_inv_def up_to_date_def reload_due_def m w rest path by simp
  ultimately show ?thesis using assms(2) unfolding live_inv_def m w rest by (simp add: m rest)
qed

lemma live_notice_inv:
  assumes "live_inv V l" and "lv_notices l = p # ps"
  shows "live_inv V ((lv_app_step ok each (FaChanged p) l)\<lparr>lv_notices := ps\<rparr>)"
proof -
  let ?l = "(lv_app_step ok each (FaChanged p) l)\<lparr>lv_notices := ps\<rparr>"
  have m: "lv_model ?l = lv_model l" by (simp add: lv_app_step_def)
  have w: "lv_watcher ?l = (if p \<in> set (fw_watches (lv_watcher l)) then onDirectoryChanged p (lv_watcher l) else lv_watcher l)"
    by (simp add: lv_app_step_def)
  have rest: "lv_disk ?l = lv_disk l" "lv_notices ?l = ps" "lv_listing ?l = lv_listing l" "lv_unseen ?l = lv_unseen l"
      "lv_result ?l = lv_result l"
    by (simp_all add: lv_app_step_def)
  have "fw_inv (lv_watcher ?l)"
    using assms(1) fw_step_inv [of "lv_watcher l" ok each "FwDir p"] unfolding w by (simp add: live_inv_def)
  moreover have "up_to_date r ?l" if "up_to_date r l" for r
    using that assms(2) unfolding up_to_date_def reload_due_def m w rest by (auto simp: onDirectoryChanged_def)
  ultimately show ?thesis using assms(1) unfolding live_inv_def m rest by (auto split: option.splits)
qed

lemma refresh_each_watch:
  assumes "fm_currentPath m \<noteq> []"
  shows "fm_watch (refresh_each os m) = (if \<exists>p. DirectoryChanged p \<in> set os then Some (fm_currentPath m) else fm_watch m)"
  using assms
proof (induction os m rule: refresh_each.induct)
  case (2 p os m)
  then show ?case by (auto simp: refresh_starts)
qed auto

lemma refresh_each_inv:
  assumes "fm_inv V raw m"
  shows "fm_inv V raw (refresh_each os m)"
  using assms
proof (induction os m rule: refresh_each.induct)
  case (2 p os m)
  have "in_order (fm_less V m) (fm_entries m)" using 2(2) unfolding fm_inv_def by blast
  then have "fm_inv V raw (fst (refresh m))" using fm_inv_idle [OF 2(2)] by (rule refresh_inv)
  with 2 show ?case by simp
qed auto

lemma live_timeout_inv:
  assumes "live_inv V l" and "enumerates each" and "fw_timer (lv_watcher l)"
  shows "live_inv V (lv_app_step ok each FaTimeout l)"
proof -
  let ?l = "lv_app_step ok each FaTimeout l"
  let ?os = "snd (onDebounceTimeout each (lv_watcher l))"
  have m: "lv_model ?l = refresh_each ?os (lv_model l)"
    using assms(3) by (simp add: lv_app_step_def case_prod_beta)
  have w: "lv_watcher ?l = fst (onDebounceTimeout each (lv_watcher l))"
    using assms(3) by (simp add: lv_app_step_def case_prod_beta)
  have rest: "lv_disk ?l = lv_disk l" "lv_notices ?l = lv_notices l" "lv_listing ?l = lv_listing l" "lv_unseen ?l = lv_unseen l"
    by (simp_all add: lv_app_step_def)
  have inv: "fm_inv V (lv_listing l) (lv_model l)" "fw_inv (lv_watcher l)" using assms(1) by (simp_all add: live_inv_def)
  have "fw_inv (lv_watcher ?l)"
    using fw_step_inv [OF inv(2), of ok each FwTimeout] assms(3) unfolding w by simp
  moreover have "fm_inv V (lv_listing l) (lv_model ?l)" unfolding m using inv(1) by (rule refresh_each_inv)
  moreover have "case fm_watch (lv_model ?l) of
      Some p \<Rightarrow> (case lv_result ?l of None \<Rightarrow> True | Some r \<Rightarrow> up_to_date r ?l)
    | None \<Rightarrow> lv_path ?l \<noteq> [] \<longrightarrow> up_to_date (lv_listing ?l) ?l"
  proof (cases "lv_path l = []")
    case True
    then have "lv_path ?l = []" unfolding m by simp
    with \<open>fm_inv V (lv_listing l) (lv_model ?l)\<close> show ?thesis by (auto simp: fm_inv_def split: option.splits)
  next
    case False
    have sound: "case fm_watch (lv_model l) of
        Some p \<Rightarrow> (case lv_result l of None \<Rightarrow> True | Some r \<Rightarrow> up_to_date r l)
      | None \<Rightarrow> lv_path l \<noteq> [] \<longrightarrow> up_to_date (lv_listing l) l"
      using assms(1) by (simp add: live_inv_def)
    show ?thesis
    proof (cases "fw_pendingDirs (lv_watcher l) = []")
      case True
      have "set (each []) = ({} :: path set)" using enumeratesD [OF assms(2), of "[]"] by simp
      then have "refresh_each ?os (lv_model l) = lv_model l"
      proof -
        have "refresh_each (map FileChanged fs) mm = mm" for fs mm by (induction fs) auto
        with \<open>set (each []) = {}\<close> True show ?thesis by (simp add: onDebounceTimeout_def)
      qed
      then have m': "lv_model ?l = lv_model l" unfolding m .
      have "lv_result ?l = lv_result l" using True by (simp add: lv_app_step_def)
      moreover have "up_to_date r ?l = up_to_date r l" for r
        unfolding up_to_date_def reload_due_def m' w rest using True by (simp add: onDebounceTimeout_def)
      ultimately show ?thesis using sound by (simp only: m' rest)
    next
      case dirs: False
      have "distinct (fw_pendingDirs (lv_watcher l))" using inv(2) by (simp add: fw_inv_def)
      with dirs enumeratesD [OF assms(2)] have "each (fw_pendingDirs (lv_watcher l)) \<noteq> []" by (metis set_empty)
      then have "\<exists>p. DirectoryChanged p \<in> set ?os"
        by (cases "each (fw_pendingDirs (lv_watcher l))") (auto simp: onDebounceTimeout_def)
      then have "fm_watch (lv_model ?l) = Some (lv_path l)" unfolding m using refresh_each_watch [OF False] by simp
      moreover have "lv_result ?l = None" using assms(3) False dirs by (simp add: lv_app_step_def)
      ultimately show ?thesis by simp
    qed
  qed
  ultimately show ?thesis unfolding live_inv_def rest by (simp add: rest)
qed

lemma live_internal_inv:
  assumes "live_internal V ok each l l'" and "env_ok V" and "enumerates each" and "live_inv V l"
  shows "live_inv V l'"
  using assms by (cases rule: live_internal.cases)
    (auto intro: live_read_inv live_finish_inv live_notice_inv live_timeout_inv)

lemma live_step_inv:
  assumes "live_step V ok each l l'" and "env_ok V" and "enumerates each" and "live_inv V l"
  shows "live_inv V l'"
  using assms by (cases rule: live_step.cases) (auto intro: live_user_inv live_change_inv live_internal_inv)

lemma init_live_inv:
  assumes "home \<noteq> []"
  shows "live_inv V (init_live home disk)"
proof -
  have m: "fa_model (files_start home) = init_file_model\<lparr>fm_currentPath := home, fm_loading := True, fm_watch := Some home\<rparr>"
    using assms by (simp add: files_start_def setCurrentPath_def init_file_model_def refresh_def startDirectoryLoad_def)
  have "fw_inv init_fs_watcher" by (simp add: fw_inv_def init_fs_watcher_def)
  then show ?thesis
    using assms by (simp add: live_inv_def init_live_def m) (simp add: files_start_def fm_inv_def init_file_model_def)
qed

lemma live_reach_inv:
  assumes "(live_step V ok each)\<^sup>*\<^sup>* (init_live home disk) l" and "env_ok V" and "enumerates each" and "home \<noteq> []"
  shows "live_inv V l"
  using assms(1) by (induction rule: rtranclp_induct) (auto intro: init_live_inv [OF assms(4)] live_step_inv [OF _ assms(2,3)])


subsection \<open>The view catches up\<close>

definition quiet :: "files_live \<Rightarrow> bool" where
  "quiet l \<longleftrightarrow> lv_notices l = [] \<and> \<not> fw_timer (lv_watcher l) \<and> fm_watch (lv_model l) = None"

definition live_load :: "files_live \<Rightarrow> nat" where
  "live_load l = 6 * length (lv_notices l) + (if fw_timer (lv_watcher l) then 3 else 0) +
     (if fm_watch (lv_model l) = None then 0 else if lv_result l = None then 2 else 1)"

lemma live_stuck: "(\<nexists>l'. live_internal V ok each l l') \<longleftrightarrow> quiet l"
proof
  assume stuck: "\<nexists>l'. live_internal V ok each l l'"
  have "lv_notices l = []"
  proof (cases "lv_notices l")
    case (Cons p ps)
    with stuck show ?thesis using live_internal.notice [OF Cons] by blast
  qed
  moreover have "\<not> fw_timer (lv_watcher l)" using stuck live_internal.timeout by blast
  moreover have "fm_watch (lv_model l) = None"
    using stuck live_internal.read [of l] live_internal.finish [of l] by (metis not_Some_eq)
  ultimately show "quiet l" by (simp add: quiet_def)
next
  assume "quiet l"
  then show "\<nexists>l'. live_internal V ok each l l'" by (auto simp: quiet_def elim: live_internalE)
qed

lemma refresh_each_quiet: "\<forall>p. DirectoryChanged p \<notin> set os \<Longrightarrow> refresh_each os m = m"
  by (induction os m rule: refresh_each.induct) auto

definition settings :: "file_model \<Rightarrow> path \<times> int \<times> sort_order \<times> string \<times> bool" where
  "settings m = (fm_currentPath m, fm_sortColumn m, fm_sortOrder m, fm_nameFilter m, fm_showHidden m)"

lemma refresh_each_settings [simp]: "settings (refresh_each os m) = settings m"
  by (induction os m rule: refresh_each.induct) (auto simp: settings_def refresh_def startDirectoryLoad_def)

lemma loaded_settings: "settings (fst (fm_step (V, EvLoaded r) m)) = settings m"
  by (simp add: settings_def onDirectoryLoaded_def Let_def sortEntries_def)

lemma live_internal_load:
  assumes "live_internal V ok each l l'" and "enumerates each"
  shows "live_load l' < live_load l \<and> lv_disk l' = lv_disk l \<and> settings (lv_model l') = settings (lv_model l)
    \<and> (lv_unseen l' \<longrightarrow> lv_unseen l)"
  using assms(1)
proof cases
  case (read p)
  then show ?thesis by (simp add: live_load_def lv_read_def)
next
  case (finish p r)
  have s: "lv_model l' = fst (fm_step (V, EvLoaded r) (lv_model l))" "lv_watcher l' = lv_watcher l"
    using finish(1) by (simp_all add: lv_finish_def lv_app_step_def case_prod_beta onDirectoryLoaded_def Let_def)
  have "fm_watch (lv_model l') = None" unfolding s using finish(2) by (simp add: onDirectoryLoaded_def Let_def)
  with finish(2,3) have "live_load l' < live_load l"
    unfolding live_load_def s(2) using finish(1) by (simp add: lv_finish_def lv_app_step_def)
  moreover have "lv_disk l' = lv_disk l" "lv_unseen l' = lv_unseen l"
    using finish(1) by (simp_all add: lv_finish_def lv_app_step_def)
  ultimately show ?thesis using loaded_settings [of V r "lv_model l"] unfolding s(1) by blast
next
  case (notice p ps)
  then show ?thesis by (simp add: live_load_def lv_app_step_def onDirectoryChanged_def)
next
  case timeout
  let ?os = "snd (onDebounceTimeout each (lv_watcher l))"
  have s: "lv_model l' = refresh_each ?os (lv_model l)" "\<not> fw_timer (lv_watcher l')" "lv_notices l' = lv_notices l"
      "lv_disk l' = lv_disk l" "lv_unseen l' = lv_unseen l"
    using timeout by (simp_all add: lv_app_step_def case_prod_beta onDebounceTimeout_def)
  have "live_load l' < live_load l" unfolding live_load_def s(3) using s(2) timeout(2) by simp
  then show ?thesis by (simp add: s)
qed

lemma live_run_load:
  assumes "(live_internal V ok each ^^ n) l l'" and "enumerates each"
  shows "n + live_load l' \<le> live_load l \<and> lv_disk l' = lv_disk l \<and> settings (lv_model l') = settings (lv_model l)
    \<and> (lv_unseen l' \<longrightarrow> lv_unseen l)"
  using assms(1)
proof (induction n arbitrary: l')
  case (Suc n)
  then obtain k where k: "(live_internal V ok each ^^ n) l k" "live_internal V ok each k l'" by auto
  from Suc.IH [OF k(1)] live_internal_load [OF k(2) assms(2)] show ?case by auto
qed simp

lemma live_quiet_view:
  assumes "live_inv V l" and "quiet l" and "\<not> lv_unseen l" and "lv_path l \<noteq> []"
  shows "in_order (fm_less V (lv_model l)) (fm_entries (lv_model l)) \<and>
    mset (fm_entries (lv_model l)) = mset (filter (fm_passes V (lv_model l)) (lv_disk l (lv_path l)))"
proof -
  have "lv_listing l = lv_disk l (lv_path l)"
    using assms unfolding live_inv_def quiet_def up_to_date_def reload_due_def by simp
  then show ?thesis using assms(1,2) unfolding live_inv_def fm_inv_def quiet_def by auto
qed

text \<open>
  C22. The directory view catches up with the disk. The user navigates, sorts and filters, other
  programs change directories, and loads, reports and the debounce timer interleave with both in
  any way. From every state that can be reached, the program by itself comes to rest, after
  at most \<open>live_load\<close> steps, without changing the directory shown or a setting; it is at rest
  exactly if no report, no timer and no load is outstanding; and then the view shows, in the
  order asked for, exactly the entries the directory has on the disk now that the settings let
  through, unless the directory has changed since it was read without a report: it is not watched
  (as the home directory after the start), or the system does not report that kind of change.
\<close>

theorem view_catches_up:
  assumes "env_ok V" and "enumerates each" and "home \<noteq> []"
    and "(live_step V ok each)\<^sup>*\<^sup>* (init_live home disk) l" and "(live_internal V ok each ^^ n) l l'"
  shows "n \<le> live_load l \<and> lv_disk l' = lv_disk l \<and> settings (lv_model l') = settings (lv_model l) \<and>
    ((\<nexists>k. live_internal V ok each l' k) \<longleftrightarrow> quiet l') \<and>
    (quiet l' \<and> \<not> lv_unseen l' \<and> lv_path l' \<noteq> [] \<longrightarrow>
       in_order (fm_less V (lv_model l')) (fm_entries (lv_model l')) \<and>
       mset (fm_entries (lv_model l')) = mset (filter (fm_passes V (lv_model l')) (lv_disk l (lv_path l'))))"
proof -
  have "live_internal V ok each ^^ n \<le> (live_internal V ok each)\<^sup>*\<^sup>*" by (simp add: relpowp_imp_rtranclp le_fun_def)
  with assms(5) have "(live_internal V ok each)\<^sup>*\<^sup>* l l'" by blast
  moreover have "live_inv V l" using live_reach_inv [OF assms(4,1,2,3)] .
  ultimately have inv: "live_inv V l'"
    by (induction rule: rtranclp_induct) (auto intro: live_internal_inv [OF _ assms(1,2)])
  from live_run_load [OF assms(5,2)] have run: "n \<le> live_load l" "lv_disk l' = lv_disk l"
      "settings (lv_model l') = settings (lv_model l)" by simp_all
  with live_quiet_view [OF inv] live_stuck [of V ok each l'] show ?thesis by simp
qed

text \<open>A folder is opened and read empty; files appear in it before the load has ended.\<close>

definition demo_live :: files_live where
  "demo_live = lv_change ''/u'' demo_files True (lv_read ''/u''
     (lv_app_step (\<lambda>p. True) (\<lambda>xs. xs) (FaModel (demo_fm_env, EvSetPath ''/u'')) (init_live ''/h'' (\<lambda>p. []))))"

definition demo_live_due :: files_live where
  "demo_live_due = lv_app_step (\<lambda>p. True) (\<lambda>xs. xs) FaTimeout ((lv_app_step (\<lambda>p. True) (\<lambda>xs. xs) (FaChanged ''/u'')
     (lv_finish (\<lambda>p. True) (\<lambda>xs. xs) demo_fm_env [] demo_live))\<lparr>lv_notices := []\<rparr>)"

definition demo_live_end :: files_live where
  "demo_live_end = lv_finish (\<lambda>p. True) (\<lambda>xs. xs) demo_fm_env demo_files (lv_read ''/u'' demo_live_due)"

lemmas live_simps = lv_change_def lv_read_def lv_app_step_def lv_finish_def init_live_def files_start_def setCurrentPath_def
  init_file_model_def init_fs_watcher_def refresh_def startDirectoryLoad_def setWatchedPath_def onDirectoryLoaded_def
  sortEntries_def onDirectoryChanged_def onDebounceTimeout_def Let_def

lemma demo_live_reached:
  "(live_step demo_fm_env (\<lambda>p. True) (\<lambda>xs. xs))\<^sup>*\<^sup>* (init_live ''/h'' (\<lambda>p. [])) demo_live"
proof -
  let ?R = "(live_step demo_fm_env (\<lambda>p. True) (\<lambda>xs. xs))\<^sup>*\<^sup>* (init_live ''/h'' (\<lambda>p. []))"
  let ?l = "lv_app_step (\<lambda>p. True) (\<lambda>xs. xs) (FaModel (demo_fm_env, EvSetPath ''/u'')) (init_live ''/h'' (\<lambda>p. []))"
  have "?R ?l"
    by (intro r_into_rtranclp live_step.user) (simp_all add: same_tables_def demo_fm_env_def)
  moreover have "fm_watch (lv_model ?l) = Some ''/u''" and "lv_result ?l = None" by (simp_all add: live_simps)
  then have "live_step demo_fm_env (\<lambda>p. True) (\<lambda>xs. xs) ?l (lv_read ''/u'' ?l)"
    by (intro live_step.internal live_internal.read)
  ultimately have "?R (lv_read ''/u'' ?l)" by (rule rtranclp.rtrancl_into_rtrancl)
  then show ?thesis unfolding demo_live_def by (rule rtranclp.rtrancl_into_rtrancl) (rule live_step.change)
qed

lemma demo_live_run:
  "(live_internal demo_fm_env (\<lambda>p. True) (\<lambda>xs. xs) ^^ 5) demo_live demo_live_end"
proof -
  let ?I = "live_internal demo_fm_env (\<lambda>p. True) (\<lambda>xs. xs)"
  let ?l1 = "lv_finish (\<lambda>p. True) (\<lambda>xs. xs) demo_fm_env [] demo_live"
  let ?l2 = "(lv_app_step (\<lambda>p. True) (\<lambda>xs. xs) (FaChanged ''/u'') ?l1)\<lparr>lv_notices := []\<rparr>"
  have "?I demo_live ?l1" by (rule live_internal.finish) (simp_all add: demo_live_def live_simps)
  moreover have "?I ?l1 ?l2" by (rule live_internal.notice) (simp add: demo_live_def live_simps)
  moreover have "?I ?l2 demo_live_due"
    unfolding demo_live_due_def by (rule live_internal.timeout) (simp add: demo_live_def live_simps)
  moreover have "?I demo_live_due (lv_read ''/u'' demo_live_due)"
    by (rule live_internal.read) (simp_all add: demo_live_due_def demo_live_def live_simps)
  moreover have "?I (lv_read ''/u'' demo_live_due) demo_live_end"
    unfolding demo_live_end_def
    by (rule live_internal.finish) (simp_all add: demo_live_due_def demo_live_def live_simps)
  ultimately show ?thesis by (simp add: numeral_eq_Suc relcompp.simps) blast
qed

theorem view_catches_up_witness:
  "mset (map fe_fileName (fm_entries (lv_model demo_live_end))) = {#''z'', ''a'', ''b''#}"
proof -
  have each: "enumerates (\<lambda>xs. xs)" by (simp add: enumerates_def)
  have q: "quiet demo_live_end" "\<not> lv_unseen demo_live_end" "lv_path demo_live_end = ''/u''"
    by (simp_all add: quiet_def demo_live_end_def demo_live_due_def demo_live_def live_simps demo_fm_env_def isort_def)
  have d: "lv_disk demo_live ''/u'' = demo_files" by (simp add: demo_live_def live_simps)
  have p: "fm_passes demo_fm_env (lv_model demo_live_end) e \<longleftrightarrow> \<not> fe_isHidden e" for e
    by (simp add: fm_passes_def demo_live_end_def demo_live_due_def demo_live_def live_simps)
  from view_catches_up [OF demo_fm_env_ok each _ demo_live_reached demo_live_run] q
  have "mset (fm_entries (lv_model demo_live_end)) = mset (filter (\<lambda>e. \<not> fe_isHidden e) demo_files)"
    by (simp add: d p)
  then have "image_mset fe_fileName (mset (fm_entries (lv_model demo_live_end))) =
      mset (map fe_fileName (filter (\<lambda>e. \<not> fe_isHidden e) demo_files))" by simp
  also have "map fe_fileName (filter (\<lambda>e. \<not> fe_isHidden e) demo_files) = [''b'', ''a'', ''z'']" by code_simp
  finally show ?thesis by (simp add: add_mset_commute)
qed

end
