(* ===== verification/Bags.thy ===== *)
theory Bags
  imports Prelude "HOL-Library.Multiset"
begin

text \<open>
  Lists as bags: what a list loses when one of its elements is taken out, and the sums of bags by
  which the theories of threads account for every call.
\<close>

lemma mset_remove_at: "i < length xs \<Longrightarrow> mset xs = add_mset (xs ! i) (mset (remove_at i xs))"
  unfolding remove_at_def by (metis id_take_nth_drop mset.simps(2) mset_append union_mset_add_mset_right)

lemma mset_map_remove_at:
  "i < length xs \<Longrightarrow> mset (map f xs) = add_mset (f (xs ! i)) (mset (map f (remove_at i xs)))"
  using mset_remove_at [of i xs] by (metis image_mset_add_mset mset_map)

lemma mset_map_update_at:
  "i < length xs \<Longrightarrow> mset (map f (xs[i := y])) = add_mset (f y) (mset (map f (remove_at i xs)))"
  by (simp add: upd_conv_take_nth_drop remove_at_def)

lemma list_all_remove_at: "list_all P xs \<Longrightarrow> list_all P (remove_at i xs)"
  by (auto simp: remove_at_def list_all_iff dest: in_set_takeD in_set_dropD)

lemma add_mset_sub: "add_mset c A \<subseteq># B \<Longrightarrow> A \<subseteq># B"
  by (metis add_mset_add_single mset_subset_eq_add_left subset_mset.order_trans)

lemma add_mset_eq_sub: "add_mset c A = B \<Longrightarrow> A \<subseteq># B"
  by (metis add_mset_sub subset_mset.order_refl)

lemma drop_middle: "A + B + C = D \<Longrightarrow> A + C \<subseteq># (D :: 'a multiset)"
  by (metis add.commute add.left_commute mset_subset_eq_add_left)

lemma distinct_submset:
  assumes "mset xs \<subseteq># mset ys" and "distinct ys"
  shows "distinct xs"
proof -
  obtain zs where "mset ys = mset (xs @ zs)"
    using assms(1) by (metis ex_mset mset_append subset_mset.le_iff_add)
  with assms(2) show ?thesis by (metis distinct_append mset_eq_imp_distinct_iff)
qed

end
