(* ===== verification/SettingsThreads.thy ===== *)
theory SettingsThreads
  imports Clients Bags
begin

text \<open>
  The threads of the settings client, desktop/settings/src/SettingsClient.cpp. Each call of
  \<open>getSetting\<close> or \<open>setSetting\<close> starts a thread that makes one gRPC call through the client's stub,
  tests that the client is still there, and posts the answer to it; the event loop of the
  client's thread delivers what was posted. Threads run side by side and end in any order,
  and the client can be destroyed at any moment.

  A call is numbered (a history variable); what the service answers is an argument of the step.
\<close>

datatype settings_request = GetRequest string | SetRequest string string

fun request_key :: "settings_request \<Rightarrow> string" where
  "request_key (GetRequest k) = k"
| "request_key (SetRequest k v) = k"

fun settings_reply :: "settings_request \<Rightarrow> grpc_status \<Rightarrow> bool \<Rightarrow> string \<Rightarrow> settings_signal" where
  "settings_reply (GetRequest k) status exists value = get_setting_reply k status value exists"
| "settings_reply (SetRequest k v) status success err = set_setting_reply k status success err"

fun signal_key :: "settings_signal \<Rightarrow> string" where
  "signal_key (SettingValueReceived k v e) = k"
| "signal_key (SettingSaved k s e) = k"

datatype job_pc = JCalling | JTesting settings_signal | JPosting settings_signal

type_synonym call = "nat \<times> settings_request"

record settings_state =
  sc_alive :: bool
  sc_jobs :: "(call \<times> job_pc) list"
  sc_queue :: "(call \<times> settings_signal) list"
  sc_shown :: "(call \<times> settings_signal) list"
  sc_calls :: "call list"
  sc_posted_to_dead :: bool

definition init_settings :: settings_state where
  "init_settings = \<lparr>sc_alive = True, sc_jobs = [], sc_queue = [], sc_shown = [], sc_calls = [], sc_posted_to_dead = False\<rparr>"

definition settings_call :: "settings_request \<Rightarrow> settings_state \<Rightarrow> settings_state" where
  "settings_call r s =
     (let c = (length (sc_calls s), r) in s\<lparr>sc_calls := sc_calls s @ [c], sc_jobs := sc_jobs s @ [(c, JCalling)]\<rparr>)"

text \<open>The three steps of a thread: its gRPC call returns, it tests the client, it posts the answer.\<close>

definition job_returns :: "nat \<Rightarrow> grpc_status \<Rightarrow> bool \<Rightarrow> string \<Rightarrow> settings_state \<Rightarrow> settings_state" where
  "job_returns i status flag txt s =
     (case sc_jobs s ! i of (c, pc) \<Rightarrow>
        s\<lparr>sc_jobs := (sc_jobs s)[i := (c, JTesting (settings_reply (snd c) status flag txt))]\<rparr>)"

definition job_tests :: "nat \<Rightarrow> settings_signal \<Rightarrow> settings_state \<Rightarrow> settings_state" where
  "job_tests i sig s =
     (if \<not> sc_alive s then s\<lparr>sc_jobs := remove_at i (sc_jobs s)\<rparr>
      else s\<lparr>sc_jobs := (sc_jobs s)[i := (fst (sc_jobs s ! i), JPosting sig)]\<rparr>)"

definition job_posts :: "nat \<Rightarrow> settings_signal \<Rightarrow> settings_state \<Rightarrow> settings_state" where
  "job_posts i sig s =
     (if sc_alive s
      then s\<lparr>sc_jobs := remove_at i (sc_jobs s), sc_queue := sc_queue s @ [(fst (sc_jobs s ! i), sig)]\<rparr>
      else s\<lparr>sc_jobs := remove_at i (sc_jobs s), sc_posted_to_dead := True\<rparr>)"

definition settings_deliver :: "settings_state \<Rightarrow> settings_state" where
  "settings_deliver s = (case sc_queue s of [] \<Rightarrow> s | x # xs \<Rightarrow> s\<lparr>sc_queue := xs, sc_shown := sc_shown s @ [x]\<rparr>)"

text \<open>What is posted to an object is dropped with it.\<close>

definition settings_destroy :: "settings_state \<Rightarrow> settings_state" where
  "settings_destroy s = s\<lparr>sc_alive := False, sc_queue := []\<rparr>"

inductive settings_step :: "settings_state \<Rightarrow> settings_state \<Rightarrow> bool" where
  call: "sc_alive s \<Longrightarrow> settings_step s (settings_call r s)"
| returns: "i < length (sc_jobs s) \<Longrightarrow> snd (sc_jobs s ! i) = JCalling \<Longrightarrow> settings_step s (job_returns i status flag txt s)"
| tests: "i < length (sc_jobs s) \<Longrightarrow> snd (sc_jobs s ! i) = JTesting sig \<Longrightarrow> settings_step s (job_tests i sig s)"
| posts: "i < length (sc_jobs s) \<Longrightarrow> snd (sc_jobs s ! i) = JPosting sig \<Longrightarrow> settings_step s (job_posts i sig s)"
| deliver: "sc_alive s \<Longrightarrow> settings_step s (settings_deliver s)"
| destroy: "sc_alive s \<Longrightarrow> settings_step s (settings_destroy s)"

lemmas settings_moves = settings_call_def job_returns_def job_tests_def job_posts_def settings_deliver_def
  settings_destroy_def

text \<open>The answer to a call is an answer about its key.\<close>

lemma reply_key: "signal_key (settings_reply r status flag txt) = request_key r"
  by (cases r) (simp_all add: get_setting_reply_def set_setting_reply_def)

fun job_ok :: "call \<times> job_pc \<Rightarrow> bool" where
  "job_ok (c, JCalling) = True"
| "job_ok (c, JTesting sig) = (signal_key sig = request_key (snd c))"
| "job_ok (c, JPosting sig) = (signal_key sig = request_key (snd c))"

definition answer_ok :: "call \<times> settings_signal \<Rightarrow> bool" where
  "answer_ok a \<longleftrightarrow> signal_key (snd a) = request_key (snd (fst a))"

definition settings_inv :: "settings_state \<Rightarrow> bool" where
  "settings_inv s \<longleftrightarrow>
     map fst (sc_calls s) = [0..<length (sc_calls s)] \<and>
     list_all job_ok (sc_jobs s) \<and> list_all answer_ok (sc_queue s) \<and> list_all answer_ok (sc_shown s) \<and>
     mset (map fst (sc_jobs s)) + mset (map fst (sc_queue s)) + mset (map fst (sc_shown s)) \<subseteq># mset (sc_calls s) \<and>
     (sc_alive s \<longrightarrow> \<not> sc_posted_to_dead s \<and>
        mset (map fst (sc_jobs s)) + mset (map fst (sc_queue s)) + mset (map fst (sc_shown s)) = mset (sc_calls s)) \<and>
     (\<not> sc_alive s \<longrightarrow> sc_queue s = [])"

lemma map_fst_job: "i < length xs \<Longrightarrow> map fst (xs[i := (fst (xs ! i), pc)]) = map fst xs"
  by (simp add: map_update list_update_same_conv)

lemma settings_step_inv:
  assumes "settings_step s t" and "settings_inv s"
  shows "settings_inv t"
  using assms(1)
proof cases
  case (call r)
  with assms(2) show ?thesis
    by (auto simp: settings_inv_def settings_call_def Let_def intro: subset_mset.order_trans)
next
  case (returns i status flag msg)
  obtain c where c: "sc_jobs s ! i = (c, JCalling)" using returns(3) by (metis prod.collapse)
  have jobs: "sc_jobs t = (sc_jobs s)[i := (fst (sc_jobs s ! i), JTesting (settings_reply (snd c) status flag msg))]"
    and rest: "sc_queue t = sc_queue s" "sc_shown t = sc_shown s" "sc_calls t = sc_calls s" "sc_alive t = sc_alive s"
      "sc_posted_to_dead t = sc_posted_to_dead s"
    using returns(1) by (simp_all add: job_returns_def c)
  have "map fst (sc_jobs t) = map fst (sc_jobs s)" unfolding jobs using returns(2) by (rule map_fst_job)
  moreover have "list_all job_ok (sc_jobs t)"
    using assms(2) unfolding jobs c settings_inv_def
    by (auto simp: list_all_iff reply_key dest!: set_update_subset_insert [THEN subsetD])
  ultimately show ?thesis using assms(2) unfolding settings_inv_def rest by simp
next
  case (tests i sig)
  obtain c where c: "sc_jobs s ! i = (c, JTesting sig)" using tests(3) by (metis prod.collapse)
  have ok: "signal_key sig = request_key (snd c)"
    using assms(2) tests(2) c unfolding settings_inv_def by (metis job_ok.simps(2) list_all_length)
  show ?thesis
  proof (cases "sc_alive s")
    case True
    then have jobs: "sc_jobs t = (sc_jobs s)[i := (fst (sc_jobs s ! i), JPosting sig)]"
      and rest: "sc_queue t = sc_queue s" "sc_shown t = sc_shown s" "sc_calls t = sc_calls s" "sc_alive t = sc_alive s"
        "sc_posted_to_dead t = sc_posted_to_dead s"
      using tests(1) by (simp_all add: job_tests_def)
    have "map fst (sc_jobs t) = map fst (sc_jobs s)" unfolding jobs using tests(2) by (rule map_fst_job)
    moreover have "list_all job_ok (sc_jobs t)"
      using assms(2) ok unfolding jobs c settings_inv_def
      by (auto simp: list_all_iff dest!: set_update_subset_insert [THEN subsetD])
    ultimately show ?thesis using assms(2) unfolding settings_inv_def rest by simp
  next
    case False
    with tests(1) assms(2) mset_map_remove_at [OF tests(2), of fst] show ?thesis
      by (auto simp: settings_inv_def job_tests_def list_all_remove_at intro: add_mset_sub)
  qed
next
  case (posts i sig)
  obtain c where c: "sc_jobs s ! i = (c, JPosting sig)" using posts(3) by (metis prod.collapse)
  have ok: "answer_ok (c, sig)"
    using assms(2) posts(2) c unfolding settings_inv_def answer_ok_def fst_conv snd_conv
    by (metis job_ok.simps(3) list_all_length)
  show ?thesis
    using posts(1) assms(2) ok mset_map_remove_at [OF posts(2), of fst]
    by (auto simp: settings_inv_def job_posts_def c list_all_remove_at intro: add_mset_sub add_mset_eq_sub)
next
  case deliver
  with assms(2) show ?thesis by (auto simp: settings_inv_def settings_deliver_def split: list.splits)
next
  case destroy
  with assms(2) show ?thesis
    by (auto simp: settings_inv_def settings_destroy_def intro: drop_middle)
qed

lemma init_settings_inv: "settings_inv init_settings"
  by (simp add: settings_inv_def init_settings_def)

lemma settings_reach_inv: "settings_step\<^sup>*\<^sup>* init_settings s \<Longrightarrow> settings_inv s"
  by (induction rule: rtranclp_induct) (auto intro: init_settings_inv settings_step_inv)

text \<open>
  C37. Every question about a setting gets one answer. However the threads of the client interleave:
  while the client lives, the calls made so far are exactly those still under way, those
  whose answer is posted, and those answered, each once; every answer is about the key that was
  asked for; and QML is told nothing once the client is gone.
\<close>

theorem settings_answered_once:
  assumes "settings_step\<^sup>*\<^sup>* init_settings s"
  shows "(sc_alive s \<longrightarrow>
      mset (sc_calls s) = mset (map fst (sc_jobs s)) + mset (map fst (sc_queue s)) + mset (map fst (sc_shown s))) \<and>
    distinct (sc_calls s) \<and> distinct (map fst (sc_shown s)) \<and>
    (\<forall>(c, sig) \<in> set (sc_shown s). c \<in> set (sc_calls s) \<and> signal_key sig = request_key (snd c)) \<and>
    (\<not> sc_alive s \<and> settings_step s t \<longrightarrow> sc_shown t = sc_shown s \<and> \<not> sc_alive t)"
proof -
  have inv: "settings_inv s" using assms by (rule settings_reach_inv)
  then have d: "distinct (sc_calls s)" unfolding settings_inv_def by (metis distinct_map distinct_upt)
  have sub: "mset (map fst (sc_shown s)) \<subseteq># mset (sc_calls s)"
    using inv unfolding settings_inv_def by (meson mset_subset_eq_add_right subset_mset.order_trans)
  then have "distinct (map fst (sc_shown s))" using d by (rule distinct_submset)
  moreover have "\<forall>(c, sig) \<in> set (sc_shown s). c \<in> set (sc_calls s) \<and> signal_key sig = request_key (snd c)"
  proof -
    have "set (map fst (sc_shown s)) \<subseteq> set (sc_calls s)" using sub by (metis set_mset_mono set_mset_mset)
    then show ?thesis using inv by (force simp: settings_inv_def answer_ok_def list_all_iff)
  qed
  moreover have "\<not> sc_alive s \<and> settings_step s t \<longrightarrow> sc_shown t = sc_shown s \<and> \<not> sc_alive t"
    by (auto elim!: settings_step.cases simp: settings_moves split: prod.splits)
  ultimately show ?thesis using inv d by (simp add: settings_inv_def)
qed

text \<open>Two calls, the second of which is answered first.\<close>

definition demo_settings :: settings_state where
  "demo_settings = settings_deliver (job_posts 1 (SettingSaved ''b'' True []) (job_tests 1 (SettingSaved ''b'' True [])
     (job_returns 1 GrpcOk True [] (settings_call (SetRequest ''b'' ''1'') (settings_call (GetRequest ''a'') init_settings)))))"

lemmas demo_settings_simps = demo_settings_def settings_moves init_settings_def set_setting_reply_def Let_def remove_at_def

lemma settings_more: "settings_step\<^sup>*\<^sup>* a s \<Longrightarrow> settings_step s t \<Longrightarrow> settings_step\<^sup>*\<^sup>* a t"
  by (rule rtranclp.rtrancl_into_rtrancl)

lemmas settings_intros =
  settings_more [OF _ settings_step.call] settings_more [OF _ settings_step.returns] settings_more [OF _ settings_step.tests]
  settings_more [OF _ settings_step.posts] settings_more [OF _ settings_step.deliver] settings_more [OF _ settings_step.destroy]

lemma demo_settings_reached: "settings_step\<^sup>*\<^sup>* init_settings demo_settings"
  unfolding demo_settings_def
  by (intro settings_intros rtranclp.rtrancl_refl) (simp_all add: demo_settings_simps)

theorem settings_answered_once_witness:
  "sc_shown demo_settings = [((1, SetRequest ''b'' ''1''), SettingSaved ''b'' True [])] \<and>
   distinct (map fst (sc_shown demo_settings)) \<and>
   mset (sc_calls demo_settings) = mset (map fst (sc_jobs demo_settings)) + mset (map fst (sc_shown demo_settings))"
proof -
  have "sc_alive demo_settings" and "sc_queue demo_settings = []"
    and "sc_shown demo_settings = [((1, SetRequest ''b'' ''1''), SettingSaved ''b'' True [])]"
    by (simp_all add: demo_settings_simps)
  with settings_answered_once [OF demo_settings_reached] show ?thesis by simp
qed

text \<open>Two defects of the life times. The call goes through a plain pointer to the stub, which the client
  owns: a client that is destroyed meanwhile leaves the thread with a dangling stub.\<close>

lemma call_outlives_stub:
  "\<exists>s. settings_step\<^sup>*\<^sup>* init_settings s \<and> \<not> sc_alive s \<and> (\<exists>c. (c, JCalling) \<in> set (sc_jobs s))"
proof -
  let ?s = "settings_destroy (settings_call (GetRequest ''a'') init_settings)"
  have "settings_step\<^sup>*\<^sup>* init_settings ?s"
    by (intro settings_intros rtranclp.rtrancl_refl) (simp_all add: demo_settings_simps)
  moreover have "\<not> sc_alive ?s \<and> ((0, GetRequest ''a''), JCalling) \<in> set (sc_jobs ?s)"
    by (simp add: demo_settings_simps)
  ultimately show ?thesis by blast
qed

text \<open>And the test of the \<open>QPointer\<close> is on the thread: the client can go between the test and the post.\<close>

lemma posts_to_destroyed_client:
  "\<exists>s. settings_step\<^sup>*\<^sup>* init_settings s \<and> sc_posted_to_dead s"
proof -
  let ?sig = "SettingSaved ''b'' True []"
  let ?s = "job_posts 0 ?sig (settings_destroy (job_tests 0 ?sig (job_returns 0 GrpcOk True []
    (settings_call (SetRequest ''b'' ''1'') init_settings))))"
  have "settings_step\<^sup>*\<^sup>* init_settings ?s"
    by (intro settings_intros rtranclp.rtrancl_refl) (simp_all add: demo_settings_simps)
  moreover have "sc_posted_to_dead ?s" by (simp add: demo_settings_simps)
  ultimately show ?thesis by blast
qed

end
