(* ===== verification/QmlProperties.thy ===== *)
theory QmlProperties
  imports Greeter Exporter Wallpapers Workspace Notifications Tray Clients DesktopIcons Launcher FileModel
    StorageManager FsWatcher
begin

text \<open>
  The properties the C++ objects offer to QML (\<open>Q_PROPERTY(type name READ f NOTIFY sig)\<close> in the
  headers). A binding in QML reads a property once and again whenever the signal of its NOTIFY
  clause is emitted, and at no other time: a handler that changes a property without the signal
  leaves the view with the old value for good.

  A table of properties gives for each name what READ returns and the signal; \<open>qml_run\<close> is an object
  that handles events together with the bindings on it. Locale \<open>qml_object\<close> is the contract, and
  derives that the bindings always show the present values. It is interpreted for every class
  that has such properties; the login dialogue keeps it for two of its four properties only.
  In each of the classes the fields of a property are assigned before its signal is emitted.
\<close>

subsection \<open>Bindings\<close>

type_synonym ('s, 'o) qprops = "(string \<times> ('s \<Rightarrow> variant) \<times> 'o) list"

definition qml_values :: "('s, 'o) qprops \<Rightarrow> 's \<Rightarrow> (string \<times> variant) list" where
  "qml_values props s = map (\<lambda>(n, read, sig). (n, read s)) props"

definition qml_receive :: "('s, 'o) qprops \<Rightarrow> 's \<Rightarrow> 'o list \<Rightarrow> (string \<times> variant) list \<Rightarrow> (string \<times> variant) list" where
  "qml_receive props s os seen =
     map (\<lambda>((n, read, sig), b). if sig \<in> set os then (n, read s) else b) (zip props seen)"

fun qml_run ::
  "('s, 'o) qprops \<Rightarrow> ('e \<Rightarrow> 's \<Rightarrow> 's \<times> 'o list) \<Rightarrow> 'e list \<Rightarrow> 's \<Rightarrow> (string \<times> variant) list
    \<Rightarrow> 's \<times> (string \<times> variant) list" where
  "qml_run props step [] s seen = (s, seen)"
| "qml_run props step (e # es) s seen =
     (case step e s of (s', os) \<Rightarrow> qml_run props step es s' (qml_receive props s' os seen))"

definition in_step :: "('s, 'o) qprops \<Rightarrow> ('e \<Rightarrow> 's \<Rightarrow> 's \<times> 'o list) \<Rightarrow> 'e list \<Rightarrow> 's \<Rightarrow> bool" where
  "in_step props step es s \<longleftrightarrow>
     (case qml_run props step es s (qml_values props s) of (s', seen) \<Rightarrow> seen = qml_values props s')"

locale qml_object =
  fixes props :: "('s, 'o) qprops"
    and step :: "'e \<Rightarrow> 's \<Rightarrow> 's \<times> 'o list"
  assumes announced: "list_all (\<lambda>(n, read, sig). read (fst (step e s)) = read s \<or> sig \<in> set (snd (step e s))) props"
begin

lemma receive_current:
  "qml_receive props (fst (step e s)) (snd (step e s)) (qml_values props s) = qml_values props (fst (step e s))"
proof -
  have "list_all (\<lambda>(n, read, sig). read s' = read s \<or> sig \<in> set os) ps \<Longrightarrow>
      qml_receive ps s' os (qml_values ps s) = qml_values ps s'" for ps :: "('s, 'o) qprops" and s s' os
    by (induction ps) (auto simp: qml_receive_def qml_values_def)
  then show ?thesis using announced by blast
qed

lemma bindings_current: "in_step props step es s"
proof (induction es arbitrary: s)
  case (Cons e es)
  from Cons [of "fst (step e s)"] show ?case
    by (simp add: in_step_def case_prod_beta receive_current)
qed (simp add: in_step_def)

lemma silent_unchanged:
  assumes "snd (step e s) = []"
  shows "qml_values props (fst (step e s)) = qml_values props s"
  using receive_current [of e s] assms by (simp add: qml_receive_def qml_values_def zip_map2 comp_def case_prod_beta zip_same_conv_map)

end


subsection \<open>Steps that name their signals\<close>

text \<open>The classes whose operations are not one step function yet.\<close>

datatype vc_event = VcRefresh | VcMute "string \<Rightarrow> string \<Rightarrow> bool" string | VcVolume string | VcSet "int \<Rightarrow> string" int | VcToggle

fun vc_step :: "vc_event \<Rightarrow> volume \<Rightarrow> volume \<times> vc_out list" where
  "vc_step VcRefresh v = (v, vc_refresh v)"
| "vc_step (VcMute containsCI out) v = muteReply containsCI out v"
| "vc_step (VcVolume out) v = volumeReply out v"
| "vc_step (VcSet num percent) v = setVolume num percent v"
| "vc_step VcToggle v = toggleMuted v"

fun tr_step :: "'fs trash_fs \<Rightarrow> bool \<times> 'fs \<Rightarrow> trash \<Rightarrow> trash \<times> tr_signal list" where
  "tr_step F (False, s) t = onTrashChanged F s t"
| "tr_step F (True, s) t = (case emptyTrash F s t of (ok, s', t', os) \<Rightarrow> (t', os))"

datatype ww_signal = WallpaperChanged

definition ww_step :: "url_ops \<Rightarrow> (path \<Rightarrow> bool) \<times> path \<Rightarrow> wall_watcher \<Rightarrow> wall_watcher \<times> ww_signal list" where
  "ww_step U c w =
     (disk_change U c w,
      if snd c \<in> set (ww_directories w) \<or> snd c \<in> set (ww_files w) then [WallpaperChanged] else [])"

fun ce_signals :: "ce_event \<Rightarrow> exporter \<Rightarrow> ce_signal list" where
  "ce_signals (SetAppId a) e = snd (setActiveAppId a e)"
| "ce_signals (SetTitle t) e = snd (setActiveTitle t e)"
| "ce_signals _ e = []"

datatype st_event = StPoll grpc_status ai_status | StMode string grpc_status bool string | StUnload

fun st_step :: "st_event \<Rightarrow> ai_status \<Rightarrow> ai_status \<times> ai_signal list" where
  "st_step (StPoll status resp) a = poll_reply status resp a"
| "st_step (StMode mode status success err) a = mode_reply mode status success err a"
| "st_step StUnload a = (a, suggestUnload)"

datatype sm_event = SmRefresh "qstorage list" | SmPoll "qstorage list" "qstorage list"

fun sm_step :: "(string \<Rightarrow> string \<Rightarrow> bool) \<Rightarrow> sm_event \<Rightarrow> storage \<Rightarrow> storage \<times> sm_signal list" where
  "sm_step containsCI (SmRefresh mounts) s = sm_refresh containsCI mounts s"
| "sm_step containsCI (SmPoll mounts mounts2) s = pollDrives containsCI mounts mounts2 s"

datatype filter_signal = FilterChanged

definition filter_step :: "string \<Rightarrow> string \<Rightarrow> string \<times> filter_signal list" where
  "filter_step f old = (case setFilter f old of (new, emitted) \<Rightarrow> (new, if emitted then [FilterChanged] else []))"


subsection \<open>The tables\<close>

definition greeter_properties :: "(greeter, gout) qprops" where
  "greeter_properties =
     [(''statusMessage'', \<lambda>g. VStr (statusMessage g), gout.StatusChanged),
      (''authenticated'', \<lambda>g. VBool (authenticated g), gout.StatusChanged),
      (''awaitingResponse'', \<lambda>g. VBool (awaitingResponse g), gout.StatusChanged),
      (''busy'', \<lambda>g. VBool (busy g), gout.StatusChanged)]"

definition exporter_properties :: "(exporter, ce_signal) qprops" where
  "exporter_properties =
     [(''activeAppId'', \<lambda>e. VStr (ce_activeAppId e), ActiveWindowChanged),
      (''activeTitle'', \<lambda>e. VStr (ce_activeTitle e), ActiveWindowChanged)]"

definition wall_watcher_properties :: "(wall_watcher, ww_signal) qprops" where
  "wall_watcher_properties = [(''wallpaperSource'', \<lambda>w. VUrl (ww_cachedSource w), WallpaperChanged)]"

definition wallpaper_properties :: "(wallpapers, wp_out) qprops" where
  "wallpaper_properties =
     [(''currentWallpaper'', \<lambda>m. VUrl (wp_current m), WpCurrentChanged),
      (''count'', \<lambda>m. VInt (int (length (wp_entries m))), WpCountChanged)]"

definition workspace_properties :: "(workspace, ws_out) qprops" where
  "workspace_properties =
     [(''count'', \<lambda>w. VInt (ws_count w), CountChanged), (''current'', \<lambda>w. VInt (ws_current w), CurrentChanged),
      (''names'', \<lambda>w. VStrs (ws_names w), NamesChanged)]"

definition notification_properties :: "(notif_list, nc_signal) qprops" where
  "notification_properties = [(''unreadCount'', \<lambda>c. VInt (int (unreadCount c)), UnreadCountChanged)]"

definition volume_properties :: "(volume, vc_out) qprops" where
  "volume_properties =
     [(''available'', \<lambda>v. VBool (vc_available v), AvailableChanged), (''volume'', \<lambda>v. VInt (vc_volume v), VolumeChanged),
      (''muted'', \<lambda>v. VBool (vc_muted v), MutedChanged)]"

definition power_properties :: "(power, ps_signal) qprops" where
  "power_properties =
     [(''present'', \<lambda>p. VBool (ps_present p), PresentChanged), (''percent'', \<lambda>p. VInt (ps_percent p), PercentChanged),
      (''status'', \<lambda>p. VStr (ps_status p), ps_signal.StatusChanged),
      (''charging'', \<lambda>p. VBool (charging p), ps_signal.StatusChanged)]"

definition ai_properties :: "(ai_status, ai_signal) qprops" where
  "ai_properties =
     [(''activeModel'', \<lambda>a. VStr (ai_activeModel a), ai_signal.StatusChanged),
      (''vramUsageMb'', \<lambda>a. VReal (ai_vramUsageMb a), ai_signal.StatusChanged),
      (''isLoading'', \<lambda>a. VBool (ai_isLoading a), ai_signal.StatusChanged),
      (''aiMode'', \<lambda>a. VStr (ai_aiMode a), ai_signal.StatusChanged),
      (''aiState'', \<lambda>a. VStr (ai_aiState a), ai_signal.StatusChanged)]"

text \<open>The path of the desktop never changes, and its signal is never emitted: the table has the two others.\<close>

definition desktop_properties :: "(desktop, dt_out) qprops" where
  "desktop_properties =
     [(''iconCount'', \<lambda>m. VInt (int (length (dt_entries m))), IconCountChanged),
      (''showHidden'', \<lambda>m. VBool (dt_showHidden m), dt_out.ShowHiddenChanged)]"

definition launcher_properties :: "(string, filter_signal) qprops" where
  "launcher_properties = [(''filter'', VStr, filter_signal.FilterChanged)]"

definition trash_properties :: "(trash, tr_signal) qprops" where
  "trash_properties =
     [(''isEmpty'', \<lambda>t. VBool (isEmpty t), IsEmptyChanged), (''itemCount'', \<lambda>t. VInt (tr_itemCount t), ItemCountChanged)]"

definition files_properties :: "(file_model, fm_out) qprops" where
  "files_properties =
     [(''currentPath'', \<lambda>m. VStr (fm_currentPath m), CurrentPathChanged),
      (''sortColumn'', \<lambda>m. VInt (fm_sortColumn m), SortChanged),
      (''sortOrder'', \<lambda>m. VInt (if fm_sortOrder m = AscendingOrder then 0 else 1), SortChanged),
      (''nameFilter'', \<lambda>m. VStr (fm_nameFilter m), fm_out.FilterChanged),
      (''showHidden'', \<lambda>m. VBool (fm_showHidden m), fm_out.ShowHiddenChanged),
      (''loading'', \<lambda>m. VBool (fm_loading m), LoadingChanged)]"

definition storage_properties :: "(int \<Rightarrow> int \<Rightarrow> rat) \<Rightarrow> (storage, sm_signal) qprops" where
  "storage_properties percent = [(''drives'', \<lambda>s. VList (map VMap (drives percent s)), DrivesChanged)]"

definition watcher_properties :: "(fs_watcher, fw_out) qprops" where
  "watcher_properties = [(''watchedPath'', \<lambda>w. VStr (fw_watchedPath w), WatchedPathChanged)]"


subsection \<open>The contract for every class\<close>

interpretation exporter_qml: qml_object exporter_properties "\<lambda>ev e. (ce_step json ev e, ce_signals ev e)" for json
proof (unfold_locales)
  fix ev e
  show "list_all (\<lambda>(n, read, sig). read (fst (ce_step json ev e, ce_signals ev e)) = read e \<or>
      sig \<in> set (snd (ce_step json ev e, ce_signals ev e))) exporter_properties"
    by (cases ev) (auto simp: exporter_properties_def setActiveAppId_def setActiveTitle_def onFlushTimer_def
        ce_flush_def split: worker.splits)
qed

interpretation wall_watcher_qml: qml_object wall_watcher_properties "ww_step U" for U
  by unfold_locales (simp add: wall_watcher_properties_def ww_step_def disk_change_def Let_def)

interpretation wallpaper_qml: qml_object wallpaper_properties "wp_step U" for U
proof (unfold_locales)
  fix e m
  show "list_all (\<lambda>(n, read, sig). read (fst (wp_step U e m)) = read m \<or> sig \<in> set (snd (wp_step U e m)))
      wallpaper_properties"
    by (cases e) (auto simp: wallpaper_properties_def wp_onDirectoryChanged_def scanAll_def setCurrentWallpaper_def
        loadCurrent_def)
qed

interpretation notification_qml: qml_object notification_properties "nc_step low" for low
proof (unfold_locales)
  fix e c
  show "list_all (\<lambda>(n, read, sig). read (fst (nc_step low e c)) = read c \<or> sig \<in> set (snd (nc_step low e c)))
      notification_properties"
    by (cases e) (auto simp: notification_properties_def unreadCount_def onNotificationAdded_def dismiss_def
        dismissAll_def Let_def split: option.splits)
qed

interpretation volume_qml: qml_object volume_properties vc_step
proof (unfold_locales)
  fix e v
  show "list_all (\<lambda>(n, read, sig). read (fst (vc_step e v)) = read v \<or> sig \<in> set (snd (vc_step e v))) volume_properties"
    by (cases e) (auto simp: volume_properties_def muteReply_def volumeReply_def setVolume_def toggleMuted_def Let_def
        split: option.splits)
qed

interpretation power_qml: qml_object power_properties scan_power
  by unfold_locales (auto simp: power_properties_def charging_def scan_power_def set_present_def read_capacity_def
      read_status_def Let_def split: option.splits prod.splits if_splits)

interpretation ai_qml: qml_object ai_properties st_step
proof (unfold_locales)
  fix e a
  show "list_all (\<lambda>(n, read, sig). read (fst (st_step e a)) = read a \<or> sig \<in> set (snd (st_step e a))) ai_properties"
    by (cases e) (auto simp: ai_properties_def poll_reply_def mode_reply_def Let_def)
qed

interpretation launcher_qml: qml_object launcher_properties filter_step
  by unfold_locales (simp add: launcher_properties_def filter_step_def setFilter_def)

interpretation trash_qml: qml_object trash_properties "tr_step F" for F
proof (unfold_locales)
  fix e :: "bool \<times> 'a" and t
  obtain b s where e: "e = (b, s)" by (cases e)
  have scan: "isEmpty (fst (tr_rescan F s t)) = isEmpty t \<and> tr_itemCount (fst (tr_rescan F s t)) = tr_itemCount t \<or>
      {IsEmptyChanged, ItemCountChanged} \<subseteq> set (snd (tr_rescan F s t))" for s t
    by (auto simp: tr_rescan_def isEmpty_def Let_def)
  obtain ok1 s1 t1 where r1: "rm_dir F (tr_trashPath t) True s t = (ok1, s1, t1)" by (metis prod_cases3)
  obtain ok2 s2 t2 where r2: "rm_dir F (tr_infoPath t) ok1 s1 t1 = (ok2, s2, t2)" by (metis prod_cases3)
  have "tr_itemCount t2 = tr_itemCount t" using rm_dir_paths [OF r1] rm_dir_paths [OF r2] by simp
  then show "list_all (\<lambda>(n, read, sig). read (fst (tr_step F e t)) = read t \<or> sig \<in> set (snd (tr_step F e t)))
      trash_properties"
    using scan [of s t] scan [of s2 t2] r1 r2
    by (cases b) (auto simp: e trash_properties_def onTrashChanged_def emptyTrash_def isEmpty_def case_prod_beta)
qed

interpretation storage_qml: qml_object "storage_properties percent" "sm_step containsCI" for percent containsCI
proof (unfold_locales)
  fix e s
  show "list_all (\<lambda>(n, read, sig). read (fst (sm_step containsCI e s)) = read s \<or>
      sig \<in> set (snd (sm_step containsCI e s))) (storage_properties percent)"
    by (cases e) (simp_all add: storage_properties_def sm_refresh_def pollDrives_def Let_def)
qed

interpretation watcher_qml: qml_object watcher_properties "fw_step ok each" for ok each
proof (unfold_locales)
  fix e w
  show "list_all (\<lambda>(n, read, sig). read (fst (fw_step ok each e w)) = read w \<or> sig \<in> set (snd (fw_step ok each e w)))
      watcher_properties"
    by (cases e) (auto simp: watcher_properties_def setWatchedPath_def onDirectoryChanged_def onFileChanged_def
        onDebounceTimeout_def Let_def)
qed

interpretation desktop_qml: qml_object desktop_properties dt_step
proof (unfold_locales)
  fix e :: "dt_env \<times> dt_event" and m
  obtain V ev where e: "e = (V, ev)" by (cases e)
  have scan: "dt_showHidden (fst (scanDirectory V m)) = dt_showHidden m \<and>
      (length (dt_entries (fst (scanDirectory V m))) = length (dt_entries m) \<or> IconCountChanged \<in> set (snd (scanDirectory V m)))" for m
    by (auto simp: scanDirectory_def Let_def)
  show "list_all (\<lambda>(n, read, sig). read (fst (dt_step e m)) = read m \<or> sig \<in> set (snd (dt_step e m))) desktop_properties"
    using scan [of m] scan [of "m\<lparr>dt_showHidden := \<not> dt_showHidden m\<rparr>"]
    by (cases ev) (auto simp: e desktop_properties_def dt_onDirectoryChanged_def dt_onFileChanged_def dt_refresh_def
        dt_setShowHidden_def case_prod_beta)
qed

text \<open>A step after another: what the first has announced stays announced.\<close>

definition announces :: "('s, 'o) qprops \<Rightarrow> 's \<Rightarrow> 's \<times> 'o list \<Rightarrow> bool" where
  "announces props s r \<longleftrightarrow> list_all (\<lambda>(n, read, sig). read (fst r) = read s \<or> sig \<in> set (snd r)) props"

lemma announces_seq:
  "announces props s (t, o1) \<Longrightarrow> announces props t (u, o2) \<Longrightarrow> announces props s (u, o1 @ o2)"
  by (induction props) (auto simp: announces_def)

lemma announces_none: "announces props s (s, [])"
  by (simp add: announces_def list_all_iff case_prod_beta)

lemma workspace_setters:
  "announces workspace_properties w (ws_set_count n w)"
  "announces workspace_properties w (ws_set_current i w)"
  "announces workspace_properties w (ws_set_names an ns w)"
  by (simp_all add: announces_def workspace_properties_def ws_set_count_def ws_set_current_def ws_set_names_def)

lemma workspace_iface: "announces workspace_properties (w\<lparr>ws_iface := b\<rparr>) r \<longleftrightarrow> announces workspace_properties w r"
  by (simp add: announces_def workspace_properties_def)

lemma probe_announces: "announces workspace_properties w (Workspace.probe an r w)"
proof -
  let ?w0 = "if pr_registered r then w\<lparr>ws_iface := pr_valid r\<rparr> else w"
  have w0: "announces workspace_properties ?w0 x \<Longrightarrow> announces workspace_properties w x" for x
    by (simp add: workspace_iface split: if_splits)
  obtain w1 o1 where c: "ws_set_count 1 ?w0 = (w1, o1)" by fastforce
  obtain w2 o2 where d: "ws_set_current 0 w1 = (w2, o2)" by fastforce
  have single: "announces workspace_properties ?w0 (w2, o1 @ o2)"
    using announces_seq [OF workspace_setters(1) [of ?w0 1, unfolded c] workspace_setters(2) [of w1 0, unfolded d]] .
  have names: "announces workspace_properties w2 (w2\<lparr>ws_names := ns\<rparr>, [NamesChanged])" for ns
    by (simp add: announces_def workspace_properties_def)
  obtain v1 p1 where e: "(case pr_count r of None \<Rightarrow> (?w0, []) | Some n \<Rightarrow> ws_set_count n ?w0) = (v1, p1)" by fastforce
  obtain v2 p2 where f: "(case pr_current r of None \<Rightarrow> (v1, []) | Some n \<Rightarrow> ws_set_current n v1) = (v2, p2)" by fastforce
  obtain v3 p3 where h: "(case pr_names r of None \<Rightarrow> (v2, []) | Some ns \<Rightarrow> ws_set_names an ns v2) = (v3, p3)" by fastforce
  have "announces workspace_properties ?w0 (v1, p1)" "announces workspace_properties v1 (v2, p2)"
    "announces workspace_properties v2 (v3, p3)"
    unfolding e [symmetric] f [symmetric] h [symmetric]
    by (simp_all add: announces_none workspace_setters split: option.split)
  then have three: "announces workspace_properties ?w0 (v3, p1 @ p2 @ p3)" by (metis announces_seq)
  show ?thesis
    unfolding Workspace.probe_def Let_def c d e f h prod.case
    using w0 [OF single] w0 [OF announces_seq [OF single names]] w0 [OF three] by simp
qed

interpretation workspace_qml: qml_object workspace_properties "ws_step an" for an
proof (unfold_locales)
  fix e w
  show "list_all (\<lambda>(n, read, sig). read (fst (ws_step an e w)) = read w \<or> sig \<in> set (snd (ws_step an e w)))
      workspace_properties"
  proof (cases e)
    case (WsProbe r)
    then show ?thesis using probe_announces [of w an r] by (simp add: announces_def)
  qed (auto simp: workspace_properties_def switchTo_def next_ws_def previous_ws_def ws_set_current_def)
qed

interpretation files_qml: qml_object files_properties fm_step
proof (unfold_locales)
  fix e :: "fm_env \<times> fm_event" and m
  obtain V ev where e: "e = (V, ev)" by (cases e)
  show "list_all (\<lambda>(n, read, sig). read (fst (fm_step e m)) = read m \<or> sig \<in> set (snd (fm_step e m))) files_properties"
    by (cases ev)
      (auto simp: e files_properties_def setCurrentPath_def setSortColumn_def setSortOrder_def setNameFilter_def
        setShowHidden_def refresh_def startDirectoryLoad_def applySort_def sortEntries_def navigateUp_def navigateTo_def
        onDirectoryLoaded_def Let_def)
qed

text \<open>The login dialogue: every handler but \<open>submitPassword\<close> keeps the contract for all four properties,
  and \<open>submitPassword\<close> keeps it for the first two.\<close>

lemma announced_if:
  "x \<in> set (snd a) \<or> fst a = g \<Longrightarrow> x \<in> set (snd b) \<or> fst b = g \<Longrightarrow>
    x \<in> set (snd (if c then a else b)) \<or> fst (if c then a else b) = g"
  by simp

lemma greeter_message_announced:
  "gout.StatusChanged \<in> set (snd (handleMessage E st m g)) \<or> fst (handleMessage E st m g) = g"
  unfolding handleMessage_def handleAuthMessage_def Let_def by (intro announced_if) (simp_all add: case_prod_beta)

lemma drain_announced:
  "gout.StatusChanged \<in> set (snd (drain E st g)) \<or>
   statusMessage (fst (drain E st g)) = statusMessage g \<and> authenticated (fst (drain E st g)) = authenticated g \<and>
   awaitingResponse (fst (drain E st g)) = awaitingResponse g \<and> phase (fst (drain E st g)) = phase g"
proof (induction E st g rule: drain.induct)
  case (1 E st g)
  show ?case
  proof (cases "next_frame (bigEndian E) (readBuffer g)")
    case NeedMore
    then show ?thesis by (subst (1 2 3 4 5) drain.simps) simp
  next
    case BadLength
    then show ?thesis by (subst (1 2 3 4 5) drain.simps) simp
  next
    case (Frame payload rest)
    show ?thesis
    proof (cases "fromJson E payload")
      case None
      then show ?thesis using 1(1) [OF Frame None] Frame by (subst (1 2 3 4 5) drain.simps) simp
    next
      case (Some obj)
      then show ?thesis
        using 1(2) [OF Frame Some refl] Frame greeter_message_announced [of E st obj "g\<lparr>readBuffer := rest\<rparr>"]
        by (subst (1 2 3 4 5) drain.simps) (auto simp: Let_def)
    qed
  qed
qed

lemma greeter_announced:
  assumes "\<forall>p. snd e \<noteq> EvSubmitPassword p"
  shows "list_all (\<lambda>(n, read, sig). read (fst (gstep E e g)) = read g \<or> sig \<in> set (snd (gstep E e g))) greeter_properties"
proof (cases e)
  case (Pair st ev)
  with assms show ?thesis
    using drain_announced [of E st "g\<lparr>readBuffer := readBuffer g @ (case ev of EvReadyRead bs \<Rightarrow> bs | _ \<Rightarrow> [])\<rparr>"]
    by (cases ev) (auto simp: greeter_properties_def busy_def startAuth_def sendCreateSession_def startSession_def
        onReadyRead_def onError_def Let_def)
qed

interpretation greeter_qml: qml_object "take 2 greeter_properties" "gstep E" for E
proof (unfold_locales)
  fix e g
  show "list_all (\<lambda>(n, read, sig). read (fst (gstep E e g)) = read g \<or> sig \<in> set (snd (gstep E e g)))
      (take 2 greeter_properties)"
  proof (cases "\<forall>p. snd e \<noteq> EvSubmitPassword p")
    case True
    from greeter_announced [OF this, of E g] show ?thesis by (simp add: greeter_properties_def)
  next
    case False
    then obtain st p where "e = (st, EvSubmitPassword p)" by (metis prod.collapse)
    then show ?thesis by (simp add: greeter_properties_def submitPassword_def)
  qed
qed

text \<open>The password that answers a second question of the login service: the view keeps showing that an
  answer is awaited and that the greeter is not busy, so the button stays enabled. Its next
  click calls \<open>startAuth\<close> (Main.qml reads \<open>awaitingResponse\<close> afresh), with the password field that the
  first click has cleared, and that aborts the conversation.\<close>

lemma submit_password_unannounced:
  assumes "phase g = Authenticating" and "awaitingResponse g"
  shows "busy (fst (submitPassword E st p g)) \<and> \<not> busy g \<and> \<not> awaitingResponse (fst (submitPassword E st p g)) \<and>
    gout.StatusChanged \<notin> set (snd (submitPassword E st p g)) \<and>
    \<not> in_step greeter_properties (gstep E) [(st, EvSubmitPassword p)] g"
  using assms
  by (simp add: submitPassword_def qml_values_def greeter_properties_def busy_def in_step_def qml_receive_def
      sendJson_def Let_def)

text \<open>The properties declared CONSTANT, and the path of the desktop.\<close>

lemma constant_properties:
  "ce_seatName (ce_step json ev x) = ce_seatName x"
  "tr_trashPath (fst (tr_step F d t)) = tr_trashPath t"
  "dt_path (fst (dt_step c m)) = dt_path m"
proof -
  show "ce_seatName (ce_step json ev x) = ce_seatName x"
    by (cases ev) (auto simp: setActiveAppId_def setActiveTitle_def onFlushTimer_def ce_flush_def split: worker.splits)
  show "tr_trashPath (fst (tr_step F d t)) = tr_trashPath t"
    by (cases d; cases "fst d")
      (auto simp: onTrashChanged_def emptyTrash_def tr_rescan_def Let_def dest!: rm_dir_paths split: prod.splits if_splits)
  show "dt_path (fst (dt_step c m)) = dt_path m"
    by (cases c; cases "snd c")
      (auto simp: dt_onDirectoryChanged_def dt_onFileChanged_def dt_refresh_def dt_setShowHidden_def scanDirectory_def
        Let_def)
qed

text \<open>
  C40. What QML shows is what the objects hold. For each class with properties, whatever the events
  and their order: a binding that reads a property when it is made and then only on the signal
  of its NOTIFY clause always has the present value (of the login dialogue, the message and
  whether the user is authenticated; \<open>greeter_announced\<close> and \<open>submit_password_unannounced\<close> say when the
  two others are late). The properties declared constant never change.
\<close>

theorem bindings_never_stale:
  "in_step (take 2 greeter_properties) (gstep E) login_events g \<and>
   in_step exporter_properties (\<lambda>ev e. (ce_step json ev e, ce_signals ev e)) export_events x \<and>
   in_step wall_watcher_properties (ww_step U) disk_changes w \<and>
   in_step wallpaper_properties (wp_step U) picker_events p \<and>
   in_step workspace_properties (ws_step an) workspace_events s \<and>
   in_step notification_properties (nc_step low) notification_events c \<and>
   in_step volume_properties vc_step volume_events v \<and>
   in_step power_properties scan_power scans b \<and>
   in_step trash_properties (tr_step F) trash_events t \<and>
   in_step ai_properties st_step replies a \<and>
   in_step desktop_properties dt_step desktop_events d \<and>
   in_step launcher_properties filter_step filters f \<and>
   in_step files_properties fm_step view_events m \<and>
   in_step (storage_properties percent) (sm_step containsCI) polls r \<and>
   in_step watcher_properties (fw_step ok each) watch_events o' \<and>
   ce_seatName (ce_step json ev x) = ce_seatName x \<and> tr_trashPath (fst (tr_step F te t)) = tr_trashPath t \<and>
   dt_path (fst (dt_step de d)) = dt_path d"
  by (intro conjI constant_properties greeter_qml.bindings_current exporter_qml.bindings_current
      wall_watcher_qml.bindings_current wallpaper_qml.bindings_current workspace_qml.bindings_current
      notification_qml.bindings_current volume_qml.bindings_current power_qml.bindings_current
      trash_qml.bindings_current ai_qml.bindings_current desktop_qml.bindings_current launcher_qml.bindings_current
      files_qml.bindings_current storage_qml.bindings_current watcher_qml.bindings_current)

end
