(* ===== verification/FileThreads.thy ===== *)
theory FileThreads
  imports FileReports Bags
begin

text \<open>
  The file operations as they run: copy, move, delete and duplicate each on a thread of Qt's pool
  (\<open>QtConcurrent::run\<close>), rename and the two create operations on the main thread, all at the same
  time and on the same disk (apps/files/src/FileOperations.cpp). An operation is a \<open>job\<close>, the
  sequence of its calls of the file system, each of which may depend on the answers before; a
  step of the program is one such call of one of the jobs.

  \<^theory_text>\<open>FileOps\<close> has the operations as functions; here a job that runs alone is shown to be that
  function. FilePool puts the jobs side by side. \<open>fuel\<close> bounds the depth of the
  recursion as there; a job that runs out of it ends with \<open>None\<close> and reports nothing.
\<close>

subsection \<open>Jobs\<close>

datatype ('fs, 'a) job = Ended 'a | Call "'fs \<Rightarrow> 'fs \<times> ('fs, 'a) job"

primrec run_job :: "('fs, 'a) job \<Rightarrow> 'fs \<Rightarrow> 'fs \<times> 'a" where
  "run_job (Ended a) = (\<lambda>s. (s, a))"
| "run_job (Call f) = (\<lambda>s. snd (map_prod id run_job (f s)) (fst (f s)))"

definition ask :: "('fs \<Rightarrow> 'b) \<Rightarrow> ('b \<Rightarrow> ('fs, 'a) job) \<Rightarrow> ('fs, 'a) job" where
  "ask f k = Call (\<lambda>s. (s, k (f s)))"

definition act :: "('fs \<Rightarrow> 'b \<times> 'fs) \<Rightarrow> ('b \<Rightarrow> ('fs, 'a) job) \<Rightarrow> ('fs, 'a) job" where
  "act f k = Call (\<lambda>s. (snd (f s), k (fst (f s))))"

lemma run_ask [simp]: "run_job (ask f k) s = run_job (k (f s)) s"
  by (simp add: ask_def)

lemma run_act [simp]: "run_job (act f k) s = run_job (k (fst (f s))) (snd (f s))"
  by (simp add: act_def)


subsection \<open>The operations as jobs\<close>

primrec probe_job :: "'fs qfs \<Rightarrow> (nat \<Rightarrow> path) \<Rightarrow> nat \<Rightarrow> nat \<Rightarrow> path \<Rightarrow> (path \<Rightarrow> ('fs, 'a) job) \<Rightarrow> ('fs, 'a) job" where
  "probe_job Q cand i 0 target k = k target"
| "probe_job Q cand i (Suc n) target k =
     ask (\<lambda>s. fExists Q s (cand i)) (\<lambda>taken. if \<not> taken then k (cand i) else probe_job Q cand (Suc i) n (cand i) k)"

function copy_job :: "nat \<Rightarrow> 'fs qfs \<Rightarrow> path \<Rightarrow> path \<Rightarrow> (bool option \<Rightarrow> ('fs, 'a) job) \<Rightarrow> ('fs, 'a) job"
  and entries_job :: "nat \<Rightarrow> 'fs qfs \<Rightarrow> path \<Rightarrow> path \<Rightarrow> string list \<Rightarrow> (bool option \<Rightarrow> ('fs, 'a) job) \<Rightarrow> ('fs, 'a) job"
where
  "copy_job 0 Q sourceDir destDir k = k None"
| "copy_job (Suc n) Q sourceDir destDir k =
     ask (\<lambda>s. dExists Q s sourceDir) (\<lambda>there.
       if \<not> there then k (Some False)
       else
         let entries = ask (\<lambda>s. dEntries Q s sourceDir) (\<lambda>es. entries_job n Q sourceDir destDir es k) in
         ask (\<lambda>s. dExists Q s destDir) (\<lambda>made.
           if \<not> made then act (\<lambda>s. dMkpath Q s destDir) (\<lambda>ok. if \<not> ok then k (Some False) else entries)
           else entries))"
| "entries_job n Q sourceDir destDir [] k = k (Some True)"
| "entries_job n Q sourceDir destDir (e # es) k =
     (let srcPath = pJoin Q sourceDir e; dstPath = pJoin Q destDir e;
          go_on = (\<lambda>r. if r = Some True then entries_job n Q sourceDir destDir es k else k r) in
      ask (\<lambda>s. fIsDir Q s srcPath) (\<lambda>isDir.
        if isDir then copy_job n Q srcPath dstPath go_on
        else act (\<lambda>s. fCopy Q s srcPath dstPath) (\<lambda>ok. go_on (Some ok))))"
  by pat_completeness auto

termination
  by (relation "measures
      [\<lambda>x. case x of Inl (n, _) \<Rightarrow> 2 * n | Inr (n, _) \<Rightarrow> Suc (2 * n),
       \<lambda>x. case x of Inl _ \<Rightarrow> 0 | Inr (n, Q, a, b, es, k) \<Rightarrow> length es]") auto

function delete_job :: "nat \<Rightarrow> 'fs qfs \<Rightarrow> path \<Rightarrow> (bool option \<Rightarrow> ('fs, 'a) job) \<Rightarrow> ('fs, 'a) job"
  and delete_entries_job :: "nat \<Rightarrow> 'fs qfs \<Rightarrow> path \<Rightarrow> string list \<Rightarrow> (bool option \<Rightarrow> ('fs, 'a) job) \<Rightarrow> ('fs, 'a) job"
where
  "delete_job 0 Q p k = k None"
| "delete_job (Suc n) Q p k =
     ask (\<lambda>s. dExists Q s p) (\<lambda>there.
       if \<not> there then k (Some True)
       else
         ask (\<lambda>s. dEntries Q s p) (\<lambda>es.
           delete_entries_job n Q p es (\<lambda>r.
             if r = Some True then act (\<lambda>s. dRmdir Q s p) (\<lambda>ok. k (Some ok)) else k r)))"
| "delete_entries_job n Q p [] k = k (Some True)"
| "delete_entries_job n Q p (e # es) k =
     (let go_on = (\<lambda>r. if r = Some True then delete_entries_job n Q p es k else k r) in
      ask (\<lambda>s. fIsDir Q s (pJoin Q p e)) (\<lambda>isDir.
        if isDir then delete_job n Q (pJoin Q p e) go_on
        else act (\<lambda>s. fRemove Q s (pJoin Q p e)) (\<lambda>ok. go_on (Some ok))))"
  by pat_completeness auto

termination
  by (relation "measures
      [\<lambda>x. case x of Inl (n, _) \<Rightarrow> 2 * n | Inr (n, _) \<Rightarrow> Suc (2 * n),
       \<lambda>x. case x of Inl _ \<Rightarrow> 0 | Inr (n, Q, p, es, k) \<Rightarrow> length es]") auto

text \<open>A \<open>QFileInfo\<close> keeps what it has read: whether a path exists and whether it is a directory is one
  question where the code asks one object for both.\<close>

definition kind_of :: "'fs qfs \<Rightarrow> path \<Rightarrow> 'fs \<Rightarrow> bool \<times> bool" where
  "kind_of Q p s = (fExists Q s p, fIsDir Q s p)"

definition copy_as_job :: "bool \<Rightarrow> nat \<Rightarrow> 'fs qfs \<Rightarrow> path \<Rightarrow> path \<Rightarrow> (bool option \<Rightarrow> ('fs, 'a) job) \<Rightarrow> ('fs, 'a) job" where
  "copy_as_job isDir fuel Q source dest k =
     (if isDir then copy_job fuel Q source dest k else act (\<lambda>s. fCopy Q s source dest) (\<lambda>ok. k (Some ok)))"

definition copy_any_job :: "nat \<Rightarrow> 'fs qfs \<Rightarrow> path \<Rightarrow> path \<Rightarrow> (bool option \<Rightarrow> ('fs, 'a) job) \<Rightarrow> ('fs, 'a) job" where
  "copy_any_job fuel Q source dest k =
     ask (\<lambda>s. fIsDir Q s source) (\<lambda>isDir. copy_as_job isDir fuel Q source dest k)"

definition trash_job :: "nat \<Rightarrow> 'fs qfs \<Rightarrow> path \<Rightarrow> (bool option \<Rightarrow> ('fs, 'a) job) \<Rightarrow> ('fs, 'a) job" where
  "trash_job fuel Q p k =
     act (\<lambda>s. gioTrash Q s p) (\<lambda>result.
       if result = GioExited 0 then k (Some True)
       else
         act (\<lambda>s. dMkpath Q s (dataHome Q @ ''/Trash/files'')) (\<lambda>made.
         probe_job Q (\<lambda>i. (dataHome Q @ ''/Trash/files'') @ ''/'' @ trash_candidate Q p i) 0 10000 [] (\<lambda>target.
         act (\<lambda>s. fRename Q s p target) (\<lambda>renamed.
           if renamed then k (Some True)
           else copy_any_job fuel Q p target (\<lambda>r. if r = Some True then delete_job fuel Q p k else k r)))))"

definition remove_job :: "nat \<Rightarrow> 'fs qfs \<Rightarrow> path \<Rightarrow> bool \<Rightarrow> (bool option \<Rightarrow> ('fs, 'a) job) \<Rightarrow> ('fs, 'a) job" where
  "remove_job fuel Q p permanent k =
     ask (kind_of Q p) (\<lambda>(there, isDir).
       if \<not> there then k (Some True)
       else if \<not> permanent then trash_job fuel Q p k
       else if isDir then delete_job fuel Q p k
       else act (\<lambda>s. fRemove Q s p) (\<lambda>ok. k (Some ok)))"

definition relocate_job :: "nat \<Rightarrow> 'fs qfs \<Rightarrow> path \<Rightarrow> path \<Rightarrow> (bool option \<Rightarrow> ('fs, 'a) job) \<Rightarrow> ('fs, 'a) job" where
  "relocate_job fuel Q source dest k =
     act (\<lambda>s. fRename Q s source dest) (\<lambda>renamed.
       if renamed then k (Some True)
       else copy_any_job fuel Q source dest (\<lambda>r. if r = Some True then remove_job fuel Q source False k else k r))"

text \<open>The reports; \<open>None\<close> when the depth was not enough.\<close>

definition told :: "(bool \<Rightarrow> string \<Rightarrow> fo_signal) \<Rightarrow> string \<Rightarrow> bool option \<Rightarrow> ('fs, fo_signal option) job" where
  "told sig failure r = Ended (map_option (\<lambda>ok. sig ok (if \<not> ok then failure else [])) r)"

fun fo_job :: "nat \<Rightarrow> 'fs qfs \<Rightarrow> fo_call \<Rightarrow> ('fs, fo_signal option) job" where
  "fo_job fuel Q (CallCopy source dest) =
     ask (kind_of Q source) (\<lambda>(there, isDir).
       if \<not> there then Ended (Some (CopyFinished False (''Source does not exist: '' @ source)))
       else
         ask (\<lambda>s. resolveDestination Q s source dest) (\<lambda>target.
           copy_as_job isDir fuel Q source target (told CopyFinished (''Failed to copy '' @ pFileName Q source))))"
| "fo_job fuel Q (CallMove source dest) =
     ask (\<lambda>s. resolveDestination Q s source dest) (\<lambda>target.
       relocate_job fuel Q source target (told MoveFinished (''Failed to move '' @ pFileName Q source)))"
| "fo_job fuel Q (CallRename p newName) =
     (if \<not> isSafeName newName then Ended (Some (RenameFinished False (''Invalid name: '' @ newName)))
      else
        let destPath = pJoin Q (pDir Q p) newName in
        ask (\<lambda>s. fExists Q s destPath) (\<lambda>there.
          if there \<and> destPath \<noteq> pAbs Q p
          then Ended (Some (RenameFinished False (''A file named '' @ newName @ '' already exists.'')))
          else act (\<lambda>s. fRename Q s p destPath) (\<lambda>ok. told RenameFinished (''Failed to rename to '' @ newName) (Some ok))))"
| "fo_job fuel Q (CallDelete p permanent) =
     remove_job fuel Q p permanent (told DeleteFinished (''Failed to delete '' @ pFileName Q p))"
| "fo_job fuel Q (CallCreateFolder parentDir name) =
     (if \<not> isSafeName name then Ended (Some (CreateFolderFinished False (''Invalid folder name: '' @ name)))
      else act (\<lambda>s. dMkpath Q s (pJoin Q parentDir name))
        (\<lambda>ok. told CreateFolderFinished (''Failed to create folder '' @ name) (Some ok)))"
| "fo_job fuel Q (CallCreateFile parentDir name) =
     (if \<not> isSafeName name then Ended (Some (CreateFileFinished False (''Invalid file name: '' @ name)))
      else act (\<lambda>s. fCreate Q s (pJoin Q parentDir name)) (\<lambda>err. Ended (Some
        (case err of
           None \<Rightarrow> CreateFileFinished True []
         | Some e \<Rightarrow> CreateFileFinished False (''Failed to create file '' @ name @ '': '' @ e)))))"
| "fo_job fuel Q (CallDuplicate p) =
     probe_job Q (\<lambda>i. pDir Q p @ ''/'' @ duplicate_name Q p i) 1 999 [] (\<lambda>newPath.
       copy_any_job fuel Q p newPath (told DuplicateFinished (''Failed to duplicate '' @ pFileName Q p)))"


subsection \<open>A job that runs alone\<close>

text \<open>\<open>gives j k s r\<close>: the job \<open>j\<close>, started in \<open>s\<close>, comes to \<open>k\<close> with what the function gives.\<close>

definition gives ::
  "('fs, 'a) job \<Rightarrow> (bool option \<Rightarrow> ('fs, 'a) job) \<Rightarrow> 'fs \<Rightarrow> (bool \<times> 'fs) option \<Rightarrow> bool" where
  "gives j k s r \<longleftrightarrow>
     (\<exists>t. run_job j s = run_job (k (map_option fst r)) t \<and> (\<forall>x. r = Some x \<longrightarrow> t = snd x))"

lemma run_probe [simp]:
  "run_job (probe_job Q cand i n l k) s = run_job (k (probe (fExists Q s) cand i n l)) s"
  by (induction n arbitrary: i l) auto

lemma gives_k [simp]: "gives (k (Some ok)) k s (Some (ok, s))" "gives (k None) k s None"
  by (auto simp: gives_def)

lemma gives_ask [simp]: "gives (ask f j) k s r \<longleftrightarrow> gives (j (f s)) k s r"
  by (simp add: gives_def)

lemma gives_act [simp]: "gives (act f j) k s r \<longleftrightarrow> gives (j (fst (f s))) k (snd (f s)) r"
  by (simp add: gives_def)

lemma gives_probe [simp]: "gives (probe_job Q cand i n l j) k s r \<longleftrightarrow> gives (j (probe (fExists Q s) cand i n l)) k s r"
  by (simp add: gives_def)

lemma gives_fn: "gives (k (Some (fst r))) k (snd r) (Some r)"
  using gives_k(1) [of k "fst r" "snd r"] by simp

lemma gives_then:
  assumes "gives j (\<lambda>r. if r = Some True then j' else k r) s r" and "\<And>s1. gives j' k s1 (f s1)"
  shows "gives j k s (case r of None \<Rightarrow> None | Some (False, s1) \<Rightarrow> Some (False, s1) | Some (True, s1) \<Rightarrow> f s1)"
proof (cases r)
  case None
  with assms(1) show ?thesis by (simp add: gives_def)
next
  case (Some x)
  obtain ok s1 where x: "x = (ok, s1)" by (cases x)
  show ?thesis
  proof (cases ok)
    case True
    with assms(1) Some x have "run_job j s = run_job j' s1" by (simp add: gives_def)
    with assms(2) [of s1] Some x True show ?thesis by (simp add: gives_def)
  next
    case False
    with assms(1) Some x show ?thesis by (simp add: gives_def)
  qed
qed

lemma entries_job_gives:
  fixes k :: "bool option \<Rightarrow> ('fs, 'a) job"
  assumes "\<And>a b (k :: bool option \<Rightarrow> ('fs, 'a) job) s. gives (copy_job n Q a b k) k s (performRecursiveCopy n Q a b s)"
  shows "gives (entries_job n Q a b es k) k s (copy_entries n Q a b es s)"
proof (induction es arbitrary: s)
  case (Cons e es)
  let ?a = "pJoin Q a e" and ?b = "pJoin Q b e"
  let ?go = "\<lambda>r. if r = Some True then entries_job n Q a b es k else k r"
  have "gives (if fIsDir Q s ?a then copy_job n Q ?a ?b ?go else act (\<lambda>s. fCopy Q s ?a ?b) (\<lambda>ok. ?go (Some ok))) ?go s
      (copy_one n Q ?a ?b s)"
    using assms [of ?a ?b ?go s] gives_fn [of ?go "fCopy Q s ?a ?b"] by (simp add: copy_one_def)
  from gives_then [OF this Cons] show ?case
    by (simp only: entries_job.simps copy_entries_step Let_def gives_ask)
qed simp

lemma copy_job_gives: "gives (copy_job n Q a b k) k s (performRecursiveCopy n Q a b s)"
proof (induction n arbitrary: a b k s)
  case (Suc n)
  note es = entries_job_gives [OF Suc.IH]
  obtain ok s1 where mk: "enter_dir Q b s = (ok, s1)" by fastforce
  show ?case
  proof (cases "dExists Q s a")
    case True
    have c: "performRecursiveCopy (Suc n) Q a b s =
        (if ok then copy_entries n Q a b (dEntries Q s1 a) s1 else Some (False, s1))"
      using True mk by (auto simp: enter_dir_def split: bool.splits)
    show ?thesis unfolding c
      using True mk es [of a b "dEntries Q s1 a" k s1]
      by (cases ok) (auto simp: enter_dir_def Let_def split: if_splits)
  qed simp
qed simp

lemma delete_entries_job_gives:
  fixes k :: "bool option \<Rightarrow> ('fs, 'a) job"
  assumes "\<And>p (k :: bool option \<Rightarrow> ('fs, 'a) job) s. gives (delete_job n Q p k) k s (performRecursiveDelete n Q p s)"
  shows "gives (delete_entries_job n Q p es k) k s (delete_entries n Q p es s)"
proof (induction es arbitrary: s)
  case (Cons e es)
  let ?p = "pJoin Q p e"
  let ?go = "\<lambda>r. if r = Some True then delete_entries_job n Q p es k else k r"
  have "gives (if fIsDir Q s ?p then delete_job n Q ?p ?go else act (\<lambda>s. fRemove Q s ?p) (\<lambda>ok. ?go (Some ok))) ?go s
      (delete_one n Q ?p s)"
    using assms [of ?p ?go s] gives_fn [of ?go "fRemove Q s ?p"] by (simp add: delete_one_def)
  from gives_then [OF this Cons] show ?case
    by (simp only: delete_entries_job.simps delete_entries_step Let_def gives_ask)
qed simp

lemma delete_job_gives: "gives (delete_job n Q p k) k s (performRecursiveDelete n Q p s)"
proof (induction n arbitrary: p k s)
  case (Suc n)
  let ?rm = "act (\<lambda>s. dRmdir Q s p) (\<lambda>ok. k (Some ok))"
  have "gives ?rm k s1 (Some (dRmdir Q s1 p))" for s1
    using gives_fn [of k "dRmdir Q s1 p"] by simp
  from gives_then [OF delete_entries_job_gives [OF Suc.IH] this] show ?case by simp
qed simp

lemma copy_as_job_gives: "gives (copy_as_job (fIsDir Q s a) n Q a b k) k s (copy_one n Q a b s)"
  using copy_job_gives [of n Q a b k s] gives_fn [of k "fCopy Q s a b"] by (simp add: copy_as_job_def copy_one_def)

lemma copy_any_job_gives: "gives (copy_any_job n Q a b k) k s (copy_one n Q a b s)"
  using copy_as_job_gives [of Q s a n b k] by (simp add: copy_any_job_def)

lemma trash_job_gives: "gives (trash_job n Q p k) k s (moveToTrash n Q p s)"
proof -
  obtain g s1 where g: "gioTrash Q s p = (g, s1)" by fastforce
  let ?s2 = "snd (dMkpath Q s1 (dataHome Q @ ''/Trash/files''))" and ?t = "trash_target Q p"
  obtain ok s3 where rn: "fRename Q ?s2 p (?t ?s2) = (ok, s3)" by fastforce
  note gives_then [OF copy_any_job_gives delete_job_gives, of n Q p "?t ?s2" n Q p k s3]
  then show ?thesis
    using g rn by (cases ok) (simp_all add: trash_job_def moveToTrash_def trash_target_def copy_one_def Let_def)
qed

lemma remove_job_gives: "gives (remove_job n Q p permanent k) k s (performDelete n Q p permanent s)"
  using trash_job_gives [of n Q p k s] delete_job_gives [of n Q p k s] gives_fn [of k "fRemove Q s p"]
  by (simp add: remove_job_def performDelete_def kind_of_def)

lemma relocate_job_gives: "gives (relocate_job n Q a b k) k s (performMove n Q a b s)"
proof -
  obtain ok s1 where rn: "fRename Q s a b = (ok, s1)" by fastforce
  note gives_then [OF copy_any_job_gives remove_job_gives, of n Q a b n Q a False k s1]
  with rn show ?thesis by (cases ok) (simp_all add: relocate_job_def performMove_def copy_one_def)
qed

lemma run_told:
  "gives j (told sig failure) s r \<Longrightarrow>
    snd (run_job j s) = map_option (\<lambda>x. sig (fst x) (if \<not> fst x then failure else [])) r \<and>
    (r \<noteq> None \<longrightarrow> fst (run_job j s) = snd (the r))"
  by (auto simp: gives_def told_def map_option_case split: option.splits)

lemma job_alone_parts:
  "snd (run_job (fo_job fuel Q c) s) = map_option snd (fo_dispatch fuel Q c s) \<and>
   (fo_dispatch fuel Q c s \<noteq> None \<longrightarrow> fst (run_job (fo_job fuel Q c) s) = fst (the (fo_dispatch fuel Q c s)))"
proof (cases c)
  case (CallCopy a d)
  let ?t = "resolveDestination Q s a d" and ?k = "told CopyFinished (''Failed to copy '' @ pFileName Q a)"
  have "copy_op fuel Q a d s = (if \<not> fExists Q s a then Some (s, CopyFinished False (''Source does not exist: '' @ a))
      else map_option (\<lambda>x. (snd x, CopyFinished (fst x) (if \<not> fst x then ''Failed to copy '' @ pFileName Q a else [])))
        (copy_one fuel Q a ?t s))"
    by (auto simp: copy_op_def copy_one_def performCopy_def Let_def split: option.splits prod.splits)
  with CallCopy run_told [OF copy_as_job_gives, of Q s a fuel ?t CopyFinished "''Failed to copy '' @ pFileName Q a"]
  show ?thesis by (auto simp: comp_def option.map_comp kind_of_def)
next
  case (CallMove a d)
  let ?t = "resolveDestination Q s a d"
  have "move_op fuel Q a d s =
      map_option (\<lambda>x. (snd x, MoveFinished (fst x) (if \<not> fst x then ''Failed to move '' @ pFileName Q a else [])))
        (performMove fuel Q a ?t s)"
    by (auto simp: move_op_def Let_def split: option.splits)
  with CallMove run_told [OF relocate_job_gives, of fuel Q a ?t MoveFinished "''Failed to move '' @ pFileName Q a" s]
  show ?thesis by (auto simp: comp_def option.map_comp)
next
  case (CallDelete p permanent)
  have "delete_op fuel Q p permanent s =
      map_option (\<lambda>x. (snd x, DeleteFinished (fst x) (if \<not> fst x then ''Failed to delete '' @ pFileName Q p else [])))
        (performDelete fuel Q p permanent s)"
    by (auto simp: delete_op_def split: option.splits)
  with CallDelete run_told [OF remove_job_gives, of fuel Q p permanent DeleteFinished "''Failed to delete '' @ pFileName Q p" s]
  show ?thesis by (auto simp: comp_def option.map_comp)
next
  case (CallDuplicate p)
  let ?t = "duplicate_target Q p s"
  have "duplicate_op fuel Q p s =
      map_option (\<lambda>x. (snd x, DuplicateFinished (fst x) (if \<not> fst x then ''Failed to duplicate '' @ pFileName Q p else [])))
        (copy_one fuel Q p ?t s)"
    by (auto simp: duplicate_op_def copy_one_def Let_def split: option.splits prod.splits)
  with CallDuplicate
    run_told [OF copy_any_job_gives, of fuel Q p ?t DuplicateFinished "''Failed to duplicate '' @ pFileName Q p" s]
  show ?thesis by (auto simp: comp_def option.map_comp duplicate_target_def)
qed (auto simp: rename_op_def createFolder_op_def createFile_op_def told_def Let_def split: prod.splits option.splits)

text \<open>
  An operation that runs alone is the operation as modelled. For every call, depth and state of
  the disk: the job of the call, its steps taken one after the other, ends with the report that
  the function of the operation gives, and with the disk it gives; with no report exactly if the
  function has none, because the depth was not enough.
\<close>

theorem job_alone:
  "(case fo_dispatch fuel Q c s of
      None \<Rightarrow> snd (run_job (fo_job fuel Q c) s) = None
    | Some (s', sig) \<Rightarrow> run_job (fo_job fuel Q c) s = (s', Some sig))"
  using job_alone_parts [of fuel Q c s] by (cases "run_job (fo_job fuel Q c) s") (auto split: option.splits)

end
