(* ===== verification/FilePool.thy ===== *)
theory FilePool
  imports FileThreads
begin

text \<open>
  The jobs of apps/files/src/FileOperations.cpp side by side: the threads of the pool, the main
  thread with at most one operation of its own, the queue of reports posted to it, and the end
  of the program. Every step is one call of the file system, one report, or one thing the user
  does. Shown: nothing is lost that no call names, every call is reported once, and the program
  comes to rest.
\<close>

subsection \<open>The program\<close>

type_synonym numbered_call = "nat \<times> fo_call"

record 'fs pool =
  po_fs :: 'fs
  po_alive :: bool
  po_jobs :: "(numbered_call \<times> ('fs, fo_signal option) job) list"
  po_main :: "(numbered_call \<times> ('fs, fo_signal option) job) option"
  po_queue :: "(numbered_call \<times> fo_signal) list"
  po_told :: "(numbered_call \<times> fo_signal) list"
  po_calls :: "numbered_call list"
  po_posted_to_dead :: bool

definition init_pool :: "'fs \<Rightarrow> 'fs pool" where
  "init_pool s = \<lparr>po_fs = s, po_alive = True, po_jobs = [], po_main = None, po_queue = [], po_told = [],
     po_calls = [], po_posted_to_dead = False\<rparr>"

text \<open>The operations that do not go to the pool.\<close>

fun on_main :: "fo_call \<Rightarrow> bool" where
  "on_main (CallRename p n) = True"
| "on_main (CallCreateFolder p n) = True"
| "on_main (CallCreateFile p n) = True"
| "on_main _ = False"

definition po_invoke :: "nat \<Rightarrow> 'fs qfs \<Rightarrow> fo_call \<Rightarrow> 'fs pool \<Rightarrow> 'fs pool" where
  "po_invoke fuel Q c P =
     (let x = (length (po_calls P), c); j = fo_job fuel Q c; P1 = P\<lparr>po_calls := po_calls P @ [x]\<rparr> in
      if on_main c then P1\<lparr>po_main := Some (x, j)\<rparr> else P1\<lparr>po_jobs := po_jobs P @ [(x, j)]\<rparr>)"

definition po_work :: "nat \<Rightarrow> ('fs \<Rightarrow> 'fs \<times> ('fs, fo_signal option) job) \<Rightarrow> 'fs pool \<Rightarrow> 'fs pool" where
  "po_work i f P =
     P\<lparr>po_fs := fst (f (po_fs P)), po_jobs := (po_jobs P)[i := (fst (po_jobs P ! i), snd (f (po_fs P)))]\<rparr>"

definition po_post :: "nat \<Rightarrow> fo_signal \<Rightarrow> 'fs pool \<Rightarrow> 'fs pool" where
  "po_post i sig P =
     (if po_alive P
      then P\<lparr>po_jobs := remove_at i (po_jobs P), po_queue := po_queue P @ [(fst (po_jobs P ! i), sig)]\<rparr>
      else P\<lparr>po_jobs := remove_at i (po_jobs P), po_posted_to_dead := True\<rparr>)"

definition po_main_work :: "numbered_call \<Rightarrow> ('fs \<Rightarrow> 'fs \<times> ('fs, fo_signal option) job) \<Rightarrow> 'fs pool \<Rightarrow> 'fs pool" where
  "po_main_work x f P = P\<lparr>po_fs := fst (f (po_fs P)), po_main := Some (x, snd (f (po_fs P)))\<rparr>"

definition po_main_emit :: "numbered_call \<Rightarrow> fo_signal \<Rightarrow> 'fs pool \<Rightarrow> 'fs pool" where
  "po_main_emit x sig P = P\<lparr>po_main := None, po_told := po_told P @ [(x, sig)]\<rparr>"

definition po_deliver :: "'fs pool \<Rightarrow> 'fs pool" where
  "po_deliver P = (case po_queue P of [] \<Rightarrow> P | r # rs \<Rightarrow> P\<lparr>po_queue := rs, po_told := po_told P @ [r]\<rparr>)"

text \<open>At the end of main the object is destroyed, and what is posted to it with it; the threads of the
  pool are waited for only after that, by the application object.\<close>

definition po_quit :: "'fs pool \<Rightarrow> 'fs pool" where
  "po_quit P = P\<lparr>po_alive := False, po_queue := []\<rparr>"

inductive pool_internal :: "'fs pool \<Rightarrow> 'fs pool \<Rightarrow> bool" where
  work: "i < length (po_jobs P) \<Longrightarrow> snd (po_jobs P ! i) = Call f \<Longrightarrow> pool_internal P (po_work i f P)"
| post: "i < length (po_jobs P) \<Longrightarrow> snd (po_jobs P ! i) = Ended (Some sig) \<Longrightarrow> pool_internal P (po_post i sig P)"
| main_work: "po_main P = Some (x, Call f) \<Longrightarrow> pool_internal P (po_main_work x f P)"
| main_emit: "po_main P = Some (x, Ended (Some sig)) \<Longrightarrow> pool_internal P (po_main_emit x sig P)"
| deliver: "po_alive P \<Longrightarrow> po_main P = None \<Longrightarrow> po_queue P \<noteq> [] \<Longrightarrow> pool_internal P (po_deliver P)"

inductive pool_step :: "nat \<Rightarrow> 'fs qfs \<Rightarrow> 'fs pool \<Rightarrow> 'fs pool \<Rightarrow> bool" for fuel Q where
  invoke: "po_alive P \<Longrightarrow> po_main P = None \<Longrightarrow> pool_step fuel Q P (po_invoke fuel Q c P)"
| quit: "po_alive P \<Longrightarrow> po_main P = None \<Longrightarrow> pool_step fuel Q P (po_quit P)"
| internal: "pool_internal P P' \<Longrightarrow> pool_step fuel Q P P'"

inductive_cases pool_internalE: "pool_internal P P'"
inductive_cases pool_stepE: "pool_step fuel Q P P'"

lemmas pool_moves = po_invoke_def po_work_def po_post_def po_main_work_def po_main_emit_def po_deliver_def po_quit_def


subsection \<open>Every call of a job, and its report\<close>

text \<open>\<open>job_keeps I G R j\<close>: while the disk satisfies \<open>I\<close>, each of the calls \<open>j\<close> can still make takes it from
  \<open>s\<close> to a disk related to it by \<open>G\<close>, and what the job ends with satisfies \<open>R\<close>.\<close>

inductive job_keeps :: "('fs \<Rightarrow> bool) \<Rightarrow> ('fs \<Rightarrow> 'fs \<Rightarrow> bool) \<Rightarrow> ('a \<Rightarrow> bool) \<Rightarrow> ('fs, 'a) job \<Rightarrow> bool" for I G R where
  ended: "R a \<Longrightarrow> job_keeps I G R (Ended a)"
| call: "(\<And>s. I s \<Longrightarrow> G s (fst (f s))) \<Longrightarrow> (\<And>s. I s \<Longrightarrow> job_keeps I G R (snd (f s))) \<Longrightarrow> job_keeps I G R (Call f)"

inductive_simps job_keeps_simps [simp]: "job_keeps I G R (Ended a)" "job_keeps I G R (Call f)"

lemma job_keeps_ask: "(\<And>s. G s s) \<Longrightarrow> job_keeps I G R (ask f k) \<longleftrightarrow> (\<forall>s. I s \<longrightarrow> job_keeps I G R (k (f s)))"
  by (simp add: ask_def)

lemma job_keeps_act: "job_keeps I G R (act f k) \<longleftrightarrow> (\<forall>s. I s \<longrightarrow> G s (snd (f s)) \<and> job_keeps I G R (k (fst (f s))))"
  by (auto simp: act_def)

lemma job_keeps_told: "(\<And>ok m. R (Some (sig ok m))) \<Longrightarrow> R None \<Longrightarrow> job_keeps I G R (told sig failure r)"
  by (cases r) (simp_all add: told_def)

lemma job_keeps_probe:
  assumes "\<And>s. G s s" and "\<And>i. job_keeps I G R (k (cand i))" and "0 < n"
  shows "job_keeps I G R (probe_job Q cand i n l k)"
proof -
  have "job_keeps I G R (probe_job Q cand i m (cand i') k)" for i m i'
    by (induction m arbitrary: i i') (auto simp: job_keeps_ask [OF assms(1)] assms(2))
  with assms show ?thesis by (cases n) (auto simp: job_keeps_ask [OF assms(1)])
qed

text \<open>What a call may change of what is there: at and below the path that it moves or removes, or the file
  that it creates, which createFile empties if there is one; and whether it may use the trash.
  Everything else it does to the disk is to add.\<close>

fun taken_from :: "'fs qfs \<Rightarrow> fo_call \<Rightarrow> path option" where
  "taken_from Q (CallMove a d) = Some a"
| "taken_from Q (CallRename p n) = Some p"
| "taken_from Q (CallDelete p permanent) = Some p"
| "taken_from Q (CallCreateFile p n) = Some (pJoin Q p n)"
| "taken_from Q _ = None"

fun bins :: "fo_call \<Rightarrow> bool" where
  "bins (CallMove a d) = True"
| "bins (CallDelete p permanent) = (\<not> permanent)"
| "bins _ = False"

definition owned :: "'fs qfs \<Rightarrow> path option \<Rightarrow> path \<Rightarrow> bool" where
  "owned Q taken q \<longleftrightarrow> (case taken of None \<Rightarrow> False | Some p \<Rightarrow> below Q p q)"

definition touches :: "'fs qfs \<Rightarrow> (path \<Rightarrow> bool) \<Rightarrow> fo_call \<Rightarrow> path \<Rightarrow> bool" where
  "touches Q trash c q \<longleftrightarrow> owned Q (taken_from Q c) q \<or> bins c \<and> trash q"

text \<open>What a call adds: something below one of these paths, or a directory on the way to it. \<open>D\<close> are folders
  that are known to stay: what is copied or moved to one of them gets a place in it.\<close>

definition trash_dests :: "'fs qfs \<Rightarrow> path \<Rightarrow> path set" where
  "trash_dests Q p = insert (dataHome Q @ ''/Trash/files'')
     (range (\<lambda>i. (dataHome Q @ ''/Trash/files'') @ ''/'' @ trash_candidate Q p i))"

definition into_dests :: "'fs qfs \<Rightarrow> path set \<Rightarrow> path \<Rightarrow> path \<Rightarrow> path set" where
  "into_dests Q D a d = (if d \<in> D then {} else {d}) \<union> {pJoin Q d (pFileName Q a)}"

fun dests :: "'fs qfs \<Rightarrow> path set \<Rightarrow> fo_call \<Rightarrow> path set" where
  "dests Q D (CallCopy a d) = into_dests Q D a d"
| "dests Q D (CallMove a d) = into_dests Q D a d \<union> trash_dests Q a"
| "dests Q D (CallRename p n) = {pJoin Q (pDir Q p) n}"
| "dests Q D (CallDelete p permanent) = (if permanent then {} else trash_dests Q p)"
| "dests Q D (CallCreateFolder p n) = {pJoin Q p n}"
| "dests Q D (CallCreateFile p n) = {}"
| "dests Q D (CallDuplicate p) = range (\<lambda>i. pDir Q p @ ''/'' @ duplicate_name Q p i)"

definition around :: "'fs qfs \<Rightarrow> path set \<Rightarrow> path \<Rightarrow> bool" where
  "around Q B q \<longleftrightarrow> (\<exists>b \<in> B. \<exists>r. below Q b r \<and> below Q q r)"

text \<open>From \<open>s\<close> to \<open>s'\<close> only paths in \<open>T\<close> change, and paths in \<open>A\<close> that were free.\<close>

definition leaves :: "('fs \<Rightarrow> path \<Rightarrow> node option) \<Rightarrow> (path \<Rightarrow> bool) \<Rightarrow> (path \<Rightarrow> bool) \<Rightarrow> 'fs \<Rightarrow> 'fs \<Rightarrow> bool" where
  "leaves node_at A T s s' \<longleftrightarrow> (\<forall>q. node_at s' q \<noteq> node_at s q \<longrightarrow> node_at s q = None \<and> A q \<or> T q)"

text \<open>Calls about canonical paths, whatever the state of the disk.\<close>

definition all_trash :: "'fs qfs \<Rightarrow> (path \<Rightarrow> bool) \<Rightarrow> path \<Rightarrow> bool" where
  "all_trash Q canon p \<longleftrightarrow> (\<forall>t \<in> trash_dests Q p. canon t)"

fun canon_paths :: "'fs qfs \<Rightarrow> (path \<Rightarrow> bool) \<Rightarrow> fo_call \<Rightarrow> bool" where
  "canon_paths Q canon (CallCopy a d) = (canon a \<and> canon d \<and> canon (pJoin Q d (pFileName Q a)))"
| "canon_paths Q canon (CallMove a d) =
     (canon a \<and> canon d \<and> canon (pJoin Q d (pFileName Q a)) \<and> all_trash Q canon a)"
| "canon_paths Q canon (CallRename p n) = (canon p \<and> canon (pDir Q p))"
| "canon_paths Q canon (CallDelete p permanent) = (canon p \<and> (permanent \<or> all_trash Q canon p))"
| "canon_paths Q canon (CallCreateFolder p n) = canon p"
| "canon_paths Q canon (CallCreateFile p n) = canon p"
| "canon_paths Q canon (CallDuplicate p) = (canon p \<and> (\<forall>i. canon (pDir Q p @ ''/'' @ duplicate_name Q p i)))"

text \<open>The calls of the file system that a job makes, as laws of \<open>G\<close> for the paths \<open>src\<close> it reads and may
  take away and the paths \<open>dst\<close> it may add.\<close>

locale disk_guarantee =
  fixes Q :: "'fs qfs"
    and G :: "'fs \<Rightarrow> 'fs \<Rightarrow> bool"
    and canon :: "path \<Rightarrow> bool"
    and own :: "path \<Rightarrow> bool"
    and put :: "path \<Rightarrow> bool"
    and may_trash :: bool
    and I :: "'fs \<Rightarrow> bool"
    and D :: "path set"
  assumes same: "G s s"
    and canon_join: "canon p \<Longrightarrow> canon d \<Longrightarrow> n \<in> set (dEntries Q s p) \<Longrightarrow> canon (pJoin Q d n)"
    and canon_safe: "canon p \<Longrightarrow> isSafeName n \<Longrightarrow> canon (pJoin Q p n)"
    and own_join: "canon p \<Longrightarrow> own p \<Longrightarrow> n \<in> set (dEntries Q s p) \<Longrightarrow> own (pJoin Q p n)"
    and put_join: "canon p \<Longrightarrow> put d \<Longrightarrow> n \<in> set (dEntries Q s p) \<Longrightarrow> put (pJoin Q d n)"
    and steady: "I s \<Longrightarrow> d \<in> D \<Longrightarrow> canon d \<Longrightarrow> fIsDir Q s d"
    and mkpath: "canon d \<Longrightarrow> put d \<Longrightarrow> G s (snd (dMkpath Q s d))"
    and copies: "canon a \<Longrightarrow> canon b \<Longrightarrow> put b \<Longrightarrow> G s (snd (fCopy Q s a b))"
    and removes: "canon p \<Longrightarrow> own p \<Longrightarrow> G s (snd (fRemove Q s p))"
    and rmdirs: "canon p \<Longrightarrow> own p \<Longrightarrow> G s (snd (dRmdir Q s p))"
    and renames: "canon a \<Longrightarrow> own a \<Longrightarrow> canon b \<Longrightarrow> put b \<Longrightarrow> G s (snd (fRename Q s a b))"
    and creates: "canon p \<Longrightarrow> own p \<Longrightarrow> G s (snd (fCreate Q s p))"
    and gio: "canon p \<Longrightarrow> own p \<Longrightarrow> may_trash \<Longrightarrow> G s (snd (gioTrash Q s p))"
begin

lemma job_keeps_asks: "job_keeps I G R (ask f k) \<longleftrightarrow> (\<forall>s. I s \<longrightarrow> job_keeps I G R (k (f s)))"
  by (rule job_keeps_ask) (rule same)

lemmas steps = job_keeps_asks job_keeps_act mkpath copies removes rmdirs renames creates gio

abbreviation trashable :: "path \<Rightarrow> bool" where
  "trashable p \<equiv> canon p \<and> own p \<and> may_trash \<and> all_trash Q canon p \<and> all_trash Q put p"

lemma entries_job_keeps:
  fixes k :: "bool option \<Rightarrow> ('fs, 'a) job"
  assumes "\<And>a b k. canon a \<Longrightarrow> canon b \<Longrightarrow> put b \<Longrightarrow> (\<And>r. job_keeps I G R (k r)) \<Longrightarrow> job_keeps I G R (copy_job n Q a b (k :: bool option \<Rightarrow> ('fs, 'a) job))"
    and "canon a" and "canon b" and "put b" and "\<And>r. job_keeps I G R (k r)" and "set es \<subseteq> set (dEntries Q s a)"
  shows "job_keeps I G R (entries_job n Q a b es k)"
  using assms(6)
proof (induction es)
  case (Cons e es)
  then have e: "e \<in> set (dEntries Q s a)" and es: "job_keeps I G R (entries_job n Q a b es k)" by simp_all
  from e assms(2-4) have "canon (pJoin Q a e)" and "canon (pJoin Q b e)" and "put (pJoin Q b e)"
    by (blast intro: canon_join put_join)+
  with es assms(1,5) show ?case by (simp add: steps Let_def)
qed (simp add: assms(5))

lemma copy_job_keeps:
  "canon a \<Longrightarrow> canon b \<Longrightarrow> put b \<Longrightarrow> (\<And>r. job_keeps I G R (k r)) \<Longrightarrow> job_keeps I G R (copy_job n Q a b k)"
proof (induction n arbitrary: a b k)
  case (Suc n)
  have "job_keeps I G R (entries_job n Q a b (dEntries Q s a) k)" for s
    by (rule entries_job_keeps [OF Suc.IH Suc.prems]) auto
  then show ?case using Suc.prems by (simp add: steps Let_def)
qed simp

lemma delete_entries_job_keeps:
  fixes k :: "bool option \<Rightarrow> ('fs, 'a) job"
  assumes "\<And>p k. canon p \<Longrightarrow> own p \<Longrightarrow> (\<And>r. job_keeps I G R (k r)) \<Longrightarrow> job_keeps I G R (delete_job n Q p (k :: bool option \<Rightarrow> ('fs, 'a) job))"
    and "canon p" and "own p" and "\<And>r. job_keeps I G R (k r)" and "set es \<subseteq> set (dEntries Q s p)"
  shows "job_keeps I G R (delete_entries_job n Q p es k)"
  using assms(5)
proof (induction es)
  case (Cons e es)
  then have e: "e \<in> set (dEntries Q s p)" and es: "job_keeps I G R (delete_entries_job n Q p es k)" by simp_all
  from e assms(2,3) have "canon (pJoin Q p e)" and "own (pJoin Q p e)" by (blast intro: canon_join own_join)+
  with es assms(1,4) show ?case by (simp add: steps Let_def)
qed (simp add: assms(4))

lemma delete_job_keeps:
  "canon p \<Longrightarrow> own p \<Longrightarrow> (\<And>r. job_keeps I G R (k r)) \<Longrightarrow> job_keeps I G R (delete_job n Q p k)"
proof (induction n arbitrary: p k)
  case (Suc n)
  let ?k = "\<lambda>r. if r = Some True then act (\<lambda>s. dRmdir Q s p) (\<lambda>ok. k (Some ok)) else k r"
  have k: "job_keeps I G R (?k r)" for r using Suc.prems by (simp add: steps)
  have "job_keeps I G R (delete_entries_job n Q p (dEntries Q s p) ?k)" for s
    by (rule delete_entries_job_keeps [OF Suc.IH Suc.prems(1,2) k subset_refl])
  then show ?case using Suc.prems by (simp add: steps)
qed simp

lemma copy_as_job_keeps:
  "canon a \<Longrightarrow> canon b \<Longrightarrow> put b \<Longrightarrow> (\<And>r. job_keeps I G R (k r)) \<Longrightarrow> job_keeps I G R (copy_as_job isDir n Q a b k)"
  unfolding copy_as_job_def by (simp add: steps copy_job_keeps)

lemma copy_any_job_keeps:
  "canon a \<Longrightarrow> canon b \<Longrightarrow> put b \<Longrightarrow> (\<And>r. job_keeps I G R (k r)) \<Longrightarrow> job_keeps I G R (copy_any_job n Q a b k)"
  unfolding copy_any_job_def by (simp add: steps copy_as_job_keeps)

lemma trash_job_keeps:
  assumes "trashable p" and "\<And>r. job_keeps I G R (k r)"
  shows "job_keeps I G R (trash_job n Q p k)"
proof -
  have p: "canon p" "own p" using assms(1) by simp_all
  have "job_keeps I G R (act (\<lambda>s. fRename Q s p t) (\<lambda>renamed. if renamed then k (Some True)
      else copy_any_job n Q p t (\<lambda>r. if r = Some True then delete_job n Q p k else k r)))"
    if "canon t" and "put t" for t
    using that p assms(2) by (simp add: steps copy_any_job_keeps delete_job_keeps)
  with assms show ?thesis unfolding trash_job_def all_trash_def trash_dests_def
    by (simp add: steps job_keeps_probe same)
qed

lemma remove_job_keeps:
  assumes "canon p" and "own p" and "permanent \<or> trashable p" and "\<And>r. job_keeps I G R (k r)"
  shows "job_keeps I G R (remove_job n Q p permanent k)"
  unfolding remove_job_def using assms by (auto simp: steps kind_of_def delete_job_keeps trash_job_keeps)

lemma relocate_job_keeps:
  assumes "trashable a" and "canon b" and "put b" and "\<And>r. job_keeps I G R (k r)"
  shows "job_keeps I G R (relocate_job n Q a b k)"
proof -
  have "canon a" "own a" using assms(1) by simp_all
  with assms show ?thesis unfolding relocate_job_def
    by (simp add: steps copy_any_job_keeps remove_job_keeps)
qed

lemma fo_job_keeps:
  assumes "canon_paths Q canon c" and "\<And>p. taken_from Q c = Some p \<Longrightarrow> own p" and "bins c \<Longrightarrow> may_trash"
    and "\<And>b. b \<in> dests Q D c \<Longrightarrow> put b"
    and "\<And>sig. answers c sig \<Longrightarrow> R (Some sig)" and "\<not> on_main c \<Longrightarrow> R None"
  shows "job_keeps I G R (fo_job fuel Q c)"
proof (cases c)
  case (CallCopy a d)
  have "canon (resolveDestination Q s a d)" and "I s \<Longrightarrow> put (resolveDestination Q s a d)" for s
    using CallCopy assms(1,4) steady [of s d] by (auto simp: resolveDestination_def into_dests_def split: if_splits)
  moreover have "R (Some (CopyFinished ok m))" for ok m using CallCopy assms(5) by simp
  ultimately show ?thesis using CallCopy assms(1,4,6) by (simp add: steps kind_of_def copy_as_job_keeps job_keeps_told)
next
  case (CallMove a d)
  have "canon (resolveDestination Q s a d)" and "I s \<Longrightarrow> put (resolveDestination Q s a d)" for s
    using CallMove assms(1,4) steady [of s d] by (auto simp: resolveDestination_def into_dests_def split: if_splits)
  moreover have "all_trash Q put a" using CallMove assms(4) by (simp add: all_trash_def)
  moreover have "R (Some (MoveFinished ok m))" for ok m using CallMove assms(5) by simp
  ultimately show ?thesis using CallMove assms(1-4,6) by (simp add: steps relocate_job_keeps job_keeps_told)
next
  case (CallRename p n)
  moreover have "R (Some (RenameFinished ok m))" for ok m using CallRename assms(5) by simp
  ultimately show ?thesis using assms(1,2,4) by (simp add: steps canon_safe Let_def told_def)
next
  case (CallDelete p permanent)
  moreover have "permanent \<or> all_trash Q put p" using CallDelete assms(4) by (auto simp: all_trash_def)
  moreover have "R (Some (DeleteFinished ok m))" for ok m using CallDelete assms(5) by simp
  ultimately show ?thesis using assms(1-4,6) by (auto intro!: remove_job_keeps job_keeps_told)
next
  case (CallCreateFolder p n)
  moreover have "R (Some (CreateFolderFinished ok m))" for ok m using CallCreateFolder assms(5) by simp
  ultimately show ?thesis using assms(1,4) by (simp add: steps canon_safe told_def)
next
  case (CallCreateFile p n)
  moreover have "R (Some (CreateFileFinished ok m))" for ok m using CallCreateFile assms(5) by simp
  ultimately show ?thesis using assms(1,2) by (auto simp: steps canon_safe split: option.splits)
next
  case (CallDuplicate p)
  moreover have "R (Some (DuplicateFinished ok m))" for ok m using CallDuplicate assms(5) by simp
  ultimately show ?thesis using assms(1,4,6) by (simp add: job_keeps_probe same copy_any_job_keeps job_keeps_told)
qed

end

text \<open>Without any law of the disk the jobs still answer their calls.\<close>

interpretation any_disk: disk_guarantee Q "\<lambda>s s'. True" "\<lambda>p. True" "\<lambda>p. True" "\<lambda>p. True" True "\<lambda>s. True" "{}" for Q :: "'fs qfs"
  by unfold_locales simp_all

text \<open>At any depth: a call of the pool may end without a report. That this takes a directory deeper than
  \<open>fuel\<close> is shown in PoolDepth.\<close>

definition reports_to :: "fo_call \<Rightarrow> fo_signal option \<Rightarrow> bool" where
  "reports_to c a \<longleftrightarrow> (case a of None \<Rightarrow> \<not> on_main c | Some sig \<Rightarrow> answers c sig)"

lemma fo_job_reports: "job_keeps (\<lambda>s. True) (\<lambda>s s'. True) (reports_to c) (fo_job fuel Q c)"
proof (rule any_disk.fo_job_keeps)
  show "canon_paths Q (\<lambda>p. True) c" by (cases c) (simp_all add: all_trash_def trash_dests_def)
qed (simp_all add: reports_to_def)

text \<open>Renaming onto a free name takes away what is below the old name and adds below the new one.\<close>

definition rename_confined :: "'fs qfs \<Rightarrow> (path \<Rightarrow> bool) \<Rightarrow> ('fs \<Rightarrow> path \<Rightarrow> node option) \<Rightarrow> bool" where
  "rename_confined Q canon node_at \<longleftrightarrow>
     (\<forall>s a b s' q. canon a \<longrightarrow> canon b \<longrightarrow> fRename Q s a b = (True, s') \<longrightarrow> node_at s' q \<noteq> node_at s q \<longrightarrow>
        below Q a q \<or> node_at s q = None \<and> below Q b q)"

locale confined_disk =
  fixes Q :: "'fs qfs"
    and canon :: "path \<Rightarrow> bool"
    and node_at :: "'fs \<Rightarrow> path \<Rightarrow> node option"
    and hidden :: "string \<Rightarrow> bool"
    and trash :: "path \<Rightarrow> bool"
    and taken :: "path option"
    and may_trash :: bool
    and into :: "path set"
    and D :: "path set"
  assumes laws: "qfs_laws Q canon node_at hidden"
    and renaming: "rename_confined Q canon node_at"
    and trashing: "gio_ok Q canon node_at trash"

abbreviation effect ::
  "'fs qfs \<Rightarrow> ('fs \<Rightarrow> path \<Rightarrow> node option) \<Rightarrow> (path \<Rightarrow> bool) \<Rightarrow> path option \<Rightarrow> bool \<Rightarrow> path set \<Rightarrow> 'fs \<Rightarrow> 'fs \<Rightarrow> bool"
where
  "effect Q node_at trash taken may_trash into \<equiv>
     leaves node_at (around Q into) (\<lambda>q. owned Q taken q \<or> may_trash \<and> trash q)"

definition inside :: "'fs qfs \<Rightarrow> path set \<Rightarrow> path \<Rightarrow> bool" where
  "inside Q B q \<longleftrightarrow> (\<exists>b \<in> B. below Q b q)"

lemma inside_below: "inside Q B p \<Longrightarrow> below Q p r \<Longrightarrow> below Q q r \<Longrightarrow> around Q B q"
  unfolding inside_def around_def by (blast intro: below_trans)

lemma leaves_adds: "adds_below Q node_at b s s' \<Longrightarrow> inside Q B b \<Longrightarrow> leaves node_at (around Q B) T s s'"
  unfolding leaves_def adds_below_def by (blast intro: inside_below)

lemma leaves_removes: "removes_below Q node_at p s s' \<Longrightarrow> (\<And>q. below Q p q \<Longrightarrow> T q) \<Longrightarrow> leaves node_at A T s s'"
  by (auto simp: leaves_def removes_below_def)

lemma owned_below: "owned Q taken p \<Longrightarrow> below Q p q \<Longrightarrow> owned Q taken q"
  by (auto simp: owned_def intro: below_trans split: option.splits)

sublocale confined_disk \<subseteq> disk_guarantee Q "effect Q node_at trash taken may_trash into" canon "owned Q taken" "inside Q into" may_trash
  "\<lambda>s. \<forall>d \<in> D. node_at s d = Some Dir" D
proof (unfold_locales)
  fix s p d n
  show "effect Q node_at trash taken may_trash into s s" by (simp add: leaves_def)
  show "canon (pJoin Q d n)" if "canon p" "canon d" "n \<in> set (dEntries Q s p)"
    using that qfs_queries(4) [OF laws, of p n s] qfs_canon [OF laws, of d n] by simp
  show "canon (pJoin Q p n)" if "canon p" "isSafeName n"
    using that safe_plain [of n] qfs_canon [OF laws, of p n] by simp
  show "owned Q taken (pJoin Q p n)" if "canon p" "owned Q taken p" "n \<in> set (dEntries Q s p)"
    using that qfs_queries(4) [OF laws, of p n s] below_join [of n Q p] owned_below [of Q taken p] by simp
  show "inside Q into (pJoin Q d n)" if "canon p" "inside Q into d" "n \<in> set (dEntries Q s p)"
    using that qfs_queries(4) [OF laws, of p n s] below_join [of n Q d] unfolding inside_def by (blast intro: below_trans)
  show "effect Q node_at trash taken may_trash into s (snd (dMkpath Q s d))" if "canon d" "inside Q into d"
    by (rule leaves_adds [OF adds_below_mkpath [OF laws that(1) prod.collapse [symmetric]] that(2)])
  show "fIsDir Q s d" if "\<forall>d \<in> D. node_at s d = Some Dir" "d \<in> D" "canon d"
    using that qfs_queries(2) [OF laws that(3)] by simp
  fix a b
  show "effect Q node_at trash taken may_trash into s (snd (fCopy Q s a b))" if "canon a" "canon b" "inside Q into b"
    by (rule leaves_adds [OF adds_below_copy [OF laws that(1,2) prod.collapse [symmetric]] that(3)])
  show "effect Q node_at trash taken may_trash into s (snd (fRemove Q s p))" if "canon p" "owned Q taken p"
    by (rule leaves_removes [OF remove_removes(1) [OF laws that(1) prod.collapse [symmetric]]])
      (simp add: owned_below [OF that(2)])
  show "effect Q node_at trash taken may_trash into s (snd (dRmdir Q s p))" if "canon p" "owned Q taken p"
    by (rule leaves_removes [OF rmdir_removes(1) [OF laws that(1) prod.collapse [symmetric]]])
      (simp add: owned_below [OF that(2)])
  show "effect Q node_at trash taken may_trash into s (snd (fRename Q s a b))" if "canon a" "owned Q taken a" "canon b" "inside Q into b"
  proof (cases "fRename Q s a b")
    case (Pair ok s')
    have "node_at s q = None \<and> around Q into q \<or> owned Q taken q" if "node_at s' q \<noteq> node_at s q" for q
    proof (cases ok)
      case True
      with Pair have "fRename Q s a b = (True, s')" by simp
      from renaming [unfolded rename_confined_def, rule_format, OF \<open>canon a\<close> \<open>canon b\<close> this that]
      have "below Q a q \<or> node_at s q = None \<and> below Q b q" .
      with owned_below [OF \<open>owned Q taken a\<close>] inside_below [OF \<open>inside Q into b\<close> _ below_refl] show ?thesis by blast
    next
      case False
      with that Pair qfs_rename(3) [OF laws \<open>canon a\<close> \<open>canon b\<close>] show ?thesis by simp
    qed
    then have "\<forall>q. node_at s' q \<noteq> node_at s q \<longrightarrow> node_at s q = None \<and> around Q into q \<or> owned Q taken q \<or> may_trash \<and> trash q" by blast
    then show ?thesis unfolding leaves_def Pair snd_conv .
  qed
  show "effect Q node_at trash taken may_trash into s (snd (fCreate Q s p))" if "canon p" "owned Q taken p"
    using that qfs_create [OF laws that(1), of s]
    by (cases "fCreate Q s p"; cases "fst (fCreate Q s p)") (auto simp: leaves_def)
  show "effect Q node_at trash taken may_trash into s (snd (gioTrash Q s p))" if "canon p" "owned Q taken p" may_trash
  proof (cases "gioTrash Q s p")
    case (Pair r s')
    have "below Q p q \<or> trash q" if "node_at s' q \<noteq> node_at s q" for q
      using trashing [unfolded gio_ok_def, rule_format, OF \<open>canon p\<close> Pair] that by blast
    then have "\<forall>q. node_at s' q \<noteq> node_at s q \<longrightarrow> node_at s q = None \<and> around Q into q \<or> owned Q taken q \<or> may_trash \<and> trash q"
      using \<open>may_trash\<close> owned_below [OF \<open>owned Q taken p\<close>] by blast
    then show ?thesis unfolding leaves_def Pair snd_conv .
  qed
qed

context confined_disk
begin

lemma job_confined:
  assumes "canon_paths Q canon c" and "taken_from Q c = taken" and "bins c = may_trash" and "dests Q D c = into"
  shows "job_keeps (\<lambda>s. \<forall>d \<in> D. node_at s d = Some Dir) (effect Q node_at trash taken may_trash into) (\<lambda>a. True) (fo_job fuel Q c)"
  using assms by (intro fo_job_keeps) (auto simp: owned_def inside_def intro: below_refl)

end

lemma mem_rename: "rename_confined mem_fs mem_canon map_of"
  by (auto simp: rename_confined_def mem_fs_def split: option.splits if_splits)

interpretation mem_disk: confined_disk mem_fs mem_canon map_of mem_hidden "\<lambda>q. False" taken may_trash into D for taken may_trash into D
  by unfold_locales (rule mem_fs_laws mem_rename mem_gio)+

end
