(* ===== verification/PoolDepth.thy ===== *)
theory PoolDepth
  imports FilePool
begin

text \<open>
  How deep the recursions of apps/files/src/FileOperations.cpp go. Each level is one directory further
  down, so its path is longer; the system bounds the length of paths (PATH_MAX), hence a depth of
  that bound is never used up, and every job ends with the report of its call.
\<close>

definition dirs_bounded :: "'fs qfs \<Rightarrow> nat \<Rightarrow> bool" where
  "dirs_bounded Q N \<longleftrightarrow> 0 < N \<and>
     (\<forall>s p n. n \<in> set (dEntries Q s p) \<longrightarrow> length p < length (pJoin Q p n)) \<and>
     (\<forall>s p. fIsDir Q s p \<or> dExists Q s p \<longrightarrow> length p < N)"

lemma dirs_boundedD:
  assumes "dirs_bounded Q N"
  shows "0 < N" "n \<in> set (dEntries Q s p) \<Longrightarrow> length p < length (pJoin Q p n)"
    "fIsDir Q s p \<Longrightarrow> length p < N" "dExists Q s p \<Longrightarrow> length p < N"
  using assms unfolding dirs_bounded_def by blast+

abbreviation ends :: "('a \<Rightarrow> bool) \<Rightarrow> ('fs, 'a) job \<Rightarrow> bool" where
  "ends \<equiv> job_keeps (\<lambda>s. True) (\<lambda>s s'. True)"

text \<open>A continuation that is told the outcome, not that the depth was not enough.\<close>

abbreviation answered :: "('a \<Rightarrow> bool) \<Rightarrow> (bool option \<Rightarrow> ('fs, 'a) job) \<Rightarrow> bool" where
  "answered R k \<equiv> \<forall>ok. ends R (k (Some ok))"

lemma ends_simps [simp]:
  "ends R (ask g h) \<longleftrightarrow> (\<forall>s. ends R (h (g s)))" "ends R (act f k) \<longleftrightarrow> (\<forall>s. ends R (k (fst (f s))))"
  by (simp_all add: job_keeps_ask job_keeps_act)

lemma ends_probe: "(\<And>t. ends R (k t)) \<Longrightarrow> ends R (probe_job Q cand i n l k)"
  by (induction n arbitrary: i l) simp_all

lemma entries_job_ends:
  fixes k :: "bool option \<Rightarrow> ('fs, 'a) job"
  assumes "\<And>a b (k :: bool option \<Rightarrow> ('fs, 'a) job).
      length a < N \<Longrightarrow> N \<le> n + length a \<Longrightarrow> answered R k \<Longrightarrow> ends R (copy_job n Q a b k)"
    and "dirs_bounded Q N" and "N \<le> Suc n + length a" and "answered R k" and "set es \<subseteq> set (dEntries Q s a)"
  shows "ends R (entries_job n Q a b es k)"
  using assms(5)
proof (induction es)
  case (Cons e es)
  note bound = dirs_boundedD [OF assms(2)]
  from Cons have "length a < length (pJoin Q a e)" and es: "ends R (entries_job n Q a b es k)" using bound(2) by auto
  then have "ends R (copy_job n Q (pJoin Q a e) (pJoin Q b e) (\<lambda>r. if r = Some True then entries_job n Q a b es k else k r))"
    if "fIsDir Q t (pJoin Q a e)" for t
    using bound(3) [OF that] assms(3,4) by (intro assms(1)) auto
  with es assms(4) show ?case by (simp add: Let_def)
qed (simp add: assms(4))

lemma copy_job_ends:
  assumes "dirs_bounded Q N"
  shows "length a < N \<Longrightarrow> N \<le> n + length a \<Longrightarrow> answered R k \<Longrightarrow> ends R (copy_job n Q a b k)"
proof (induction n arbitrary: a b k)
  case (Suc n)
  have "ends R (entries_job n Q a b (dEntries Q s a) k)" for s
    using Suc.prems by (intro entries_job_ends [OF Suc.IH assms]) auto
  with Suc.prems show ?case by (simp add: Let_def)
qed simp

lemma delete_entries_job_ends:
  fixes k :: "bool option \<Rightarrow> ('fs, 'a) job"
  assumes "\<And>p (k :: bool option \<Rightarrow> ('fs, 'a) job).
      0 < n \<Longrightarrow> N \<le> n + length p \<Longrightarrow> answered R k \<Longrightarrow> ends R (delete_job n Q p k)"
    and "dirs_bounded Q N" and "N \<le> Suc n + length p" and "answered R k" and "set es \<subseteq> set (dEntries Q s p)"
  shows "ends R (delete_entries_job n Q p es k)"
  using assms(5)
proof (induction es)
  case (Cons e es)
  note bound = dirs_boundedD [OF assms(2)]
  from Cons have "length p < length (pJoin Q p e)" and es: "ends R (delete_entries_job n Q p es k)" using bound(2) by auto
  then have "ends R (delete_job n Q (pJoin Q p e) (\<lambda>r. if r = Some True then delete_entries_job n Q p es k else k r))"
    if "fIsDir Q t (pJoin Q p e)" for t
    using bound(3) [OF that] assms(3,4) by (intro assms(1)) auto
  with es assms(4) show ?case by (simp add: Let_def)
qed (simp add: assms(4))

lemma delete_job_ends:
  assumes "dirs_bounded Q N"
  shows "0 < n \<Longrightarrow> N \<le> n + length p \<Longrightarrow> answered R k \<Longrightarrow> ends R (delete_job n Q p k)"
proof (induction n arbitrary: p k)
  case (Suc n)
  let ?k = "\<lambda>r. if r = Some True then act (\<lambda>s. dRmdir Q s p) (\<lambda>ok. k (Some ok)) else k r"
  have "ends R (delete_entries_job n Q p (dEntries Q s p) ?k)" for s
    using Suc.prems by (intro delete_entries_job_ends [OF Suc.IH assms]) auto
  with Suc.prems show ?case by simp
qed simp

text \<open>The operations, at a depth that no path exceeds.\<close>

lemma copy_as_ends: "dirs_bounded Q fuel \<Longrightarrow> (isDir \<Longrightarrow> length a < fuel) \<Longrightarrow> answered R k \<Longrightarrow> ends R (copy_as_job isDir fuel Q a b k)"
  by (auto simp: copy_as_job_def intro!: copy_job_ends)

lemma copy_any_ends: "dirs_bounded Q fuel \<Longrightarrow> answered R k \<Longrightarrow> ends R (copy_any_job fuel Q a b k)"
  using dirs_boundedD(3) [of Q fuel] by (simp add: copy_any_job_def copy_as_ends)

lemma delete_ends: "dirs_bounded Q fuel \<Longrightarrow> answered R k \<Longrightarrow> ends R (delete_job fuel Q p k)"
  by (rule delete_job_ends) (auto dest: dirs_boundedD(1))

lemma trash_ends: "dirs_bounded Q fuel \<Longrightarrow> answered R k \<Longrightarrow> ends R (trash_job fuel Q p k)"
  by (simp add: trash_job_def ends_probe copy_any_ends delete_ends)

lemma remove_ends: "dirs_bounded Q fuel \<Longrightarrow> answered R k \<Longrightarrow> ends R (remove_job fuel Q p permanent k)"
  by (simp add: remove_job_def trash_ends delete_ends kind_of_def)

lemma relocate_ends: "dirs_bounded Q fuel \<Longrightarrow> answered R k \<Longrightarrow> ends R (relocate_job fuel Q a b k)"
  by (simp add: relocate_job_def copy_any_ends remove_ends)

lemma fo_job_ends:
  assumes bounded: "dirs_bounded Q fuel"
  shows "ends (\<lambda>a. \<exists>sig. a = Some sig \<and> answers c sig) (fo_job fuel Q c)"
proof (cases c)
  case (CallCopy a d)
  then show ?thesis using bounded dirs_boundedD(3) [OF bounded] by (auto simp: kind_of_def copy_as_ends told_def)
next
  case (CallCreateFile p n)
  then show ?thesis by (auto split: option.splits)
qed (auto simp: bounded relocate_ends remove_ends ends_probe copy_any_ends told_def Let_def)

end
