(* ===== verification/PoolRuns.thy ===== *)
theory PoolRuns
  imports PoolDepth
begin

text \<open>
  The runs of \<^theory_text>\<open>FilePool\<close>, any interleaving of the operations of
  apps/files/src/FileOperations.cpp: they keep their hands off what no call names, they come to
  rest, and every call is reported once.
\<close>

subsection \<open>The jobs that run\<close>

definition running :: "'fs pool \<Rightarrow> (numbered_call \<times> ('fs, fo_signal option) job) list" where
  "running P = po_jobs P @ (case po_main P of None \<Rightarrow> [] | Some xj \<Rightarrow> [xj])"

text \<open>What holds of the job of every call, and of what is left of a job after one call of the file
  system, holds of the jobs of a run.\<close>

lemma running_after:
  assumes "pool_step fuel Q P P'" and "\<And>x f. I x (Call f) \<Longrightarrow> I x (snd (f (po_fs P)))"
    and "\<And>x c. x \<in> set (po_calls P') \<Longrightarrow> I x (fo_job fuel Q (snd x))" and "\<forall>(x, j) \<in> set (running P). I x j"
  shows "\<forall>(x, j) \<in> set (running P'). I x j"
  using assms(1)
proof (cases rule: pool_step.cases)
  case (invoke c)
  with assms(3) [of "(length (po_calls P), c)"] assms(4) show ?thesis
    by (auto simp: running_def po_invoke_def Let_def)
next
  case quit
  with assms(4) show ?thesis by (simp add: running_def po_quit_def)
next
  case internal
  then show ?thesis
  proof (cases rule: pool_internal.cases)
    case (work i f)
    then have "po_jobs P ! i \<in> set (running P)" by (simp add: running_def)
    with assms(2,4) work(3) have "I (fst (po_jobs P ! i)) (snd (f (po_fs P)))" by (metis case_prodD prod.collapse)
    with assms(4) work(1) show ?thesis
      by (auto simp: running_def po_work_def dest!: set_update_subset_insert [THEN subsetD])
  next
    case (post i sig)
    with assms(4) set_remove_at_subset [of i "po_jobs P"] show ?thesis
      by (simp add: running_def po_post_def) blast
  next
    case (main_work x f)
    with assms(2,4) show ?thesis by (auto simp: running_def po_main_work_def)
  next
    case (main_emit x sig)
    with assms(4) show ?thesis by (auto simp: running_def po_main_emit_def)
  next
    case deliver
    with assms(4) show ?thesis by (auto simp: running_def po_deliver_def split: list.splits)
  qed
qed

lemma calls_grow: "pool_step fuel Q P P' \<Longrightarrow> set (po_calls P) \<subseteq> set (po_calls P')"
  by (auto elim!: pool_step.cases pool_internal.cases simp: pool_moves Let_def split: list.splits)


subsection \<open>Nothing is lost that no call names\<close>

lemma leaves_refl: "leaves node_at A T s s"
  by (simp add: leaves_def)

lemma leaves_trans: "leaves node_at A T s s' \<Longrightarrow> leaves node_at A T s' s'' \<Longrightarrow> leaves node_at A T s s''"
  unfolding leaves_def by metis

lemma leaves_mono:
  "leaves node_at A T s s' \<Longrightarrow> (\<And>q. A q \<Longrightarrow> A' q) \<Longrightarrow> (\<And>q. T q \<Longrightarrow> T' q) \<Longrightarrow> leaves node_at A' T' s s'"
  unfolding leaves_def by blast

abbreviation touched :: "'fs qfs \<Rightarrow> (path \<Rightarrow> bool) \<Rightarrow> 'fs pool \<Rightarrow> path \<Rightarrow> bool" where
  "touched Q trash P \<equiv> \<lambda>q. \<exists>x \<in> set (po_calls P). touches Q trash (snd x) q"

abbreviation filled :: "'fs qfs \<Rightarrow> path set \<Rightarrow> 'fs pool \<Rightarrow> path \<Rightarrow> bool" where
  "filled Q D P \<equiv> \<lambda>q. \<exists>x \<in> set (po_calls P). around Q (dests Q D (snd x)) q"

text \<open>\<open>D\<close> is a set of folders that stay.\<close>

abbreviation stay :: "('fs \<Rightarrow> path \<Rightarrow> node option) \<Rightarrow> path set \<Rightarrow> 'fs \<Rightarrow> bool" where
  "stay node_at D \<equiv> \<lambda>s. \<forall>d \<in> D. node_at s d = Some Dir"

definition confined_job ::
  "'fs qfs \<Rightarrow> ('fs \<Rightarrow> path \<Rightarrow> node option) \<Rightarrow> (path \<Rightarrow> bool) \<Rightarrow> path set \<Rightarrow> fo_call \<Rightarrow> ('fs, fo_signal option) job \<Rightarrow> bool"
where
  "confined_job Q node_at trash D c =
     job_keeps (stay node_at D) (leaves node_at (around Q (dests Q D c)) (touches Q trash c)) (\<lambda>a. True)"

lemma job_keeps_guarantee: "job_keeps I G R j \<Longrightarrow> (\<And>s s'. G s s' \<Longrightarrow> G' s s') \<Longrightarrow> job_keeps I G' R j"
  by (induction j rule: job_keeps.induct) auto

lemma fo_job_confined:
  assumes "qfs_laws Q canon node_at hidden" and "rename_confined Q canon node_at" and "gio_ok Q canon node_at trash"
    and "canon_paths Q canon c"
  shows "confined_job Q node_at trash D c (fo_job fuel Q c)"
  unfolding confined_job_def
proof (rule job_keeps_guarantee)
  show "job_keeps (stay node_at D) (effect Q node_at trash (taken_from Q c) (bins c) (dests Q D c)) (\<lambda>a. True) (fo_job fuel Q c)"
    using assms(4) refl refl refl by (rule confined_disk.job_confined [OF confined_disk.intro [OF assms(1-3)]])
qed (simp add: leaves_def touches_def)

lemma confined_step:
  "confined_job Q node_at trash D c (Call f) \<Longrightarrow> stay node_at D s \<Longrightarrow>
    leaves node_at (around Q (dests Q D c)) (touches Q trash c) s (fst (f s)) \<and> confined_job Q node_at trash D c (snd (f s))"
  by (simp add: confined_job_def)

definition confined_pool ::
  "'fs qfs \<Rightarrow> ('fs \<Rightarrow> path \<Rightarrow> node option) \<Rightarrow> (path \<Rightarrow> bool) \<Rightarrow> path set \<Rightarrow> 'fs pool \<Rightarrow> bool" where
  "confined_pool Q node_at trash D P \<longleftrightarrow>
     (\<forall>(x, j) \<in> set (running P). x \<in> set (po_calls P) \<and> confined_job Q node_at trash D (snd x) j)"

text \<open>A step changes nothing, or it is one call of a job that runs.\<close>

lemma step_is_call:
  assumes "pool_step fuel Q P P'"
  shows "po_fs P' = po_fs P \<or> (\<exists>x f. (x, Call f) \<in> set (running P) \<and> po_fs P' = fst (f (po_fs P)))"
  using assms
proof (cases rule: pool_step.cases)
  case internal
  then show ?thesis
  proof (cases rule: pool_internal.cases)
    case (work i f)
    then have "(fst (po_jobs P ! i), Call f) \<in> set (running P)"
      by (metis Un_iff nth_mem prod.collapse running_def set_append)
    moreover have "po_fs P' = fst (f (po_fs P))" by (simp add: work(1) po_work_def)
    ultimately show ?thesis by blast
  next
    case (main_work x f)
    then have "(x, Call f) \<in> set (running P)" by (simp add: running_def)
    moreover have "po_fs P' = fst (f (po_fs P))" by (simp add: main_work(1) po_main_work_def)
    ultimately show ?thesis by blast
  qed (auto simp: pool_moves split: list.splits)
qed (simp_all add: pool_moves Let_def)

lemma confined_pool_step:
  assumes "pool_step fuel Q P P'" and "confined_pool Q node_at trash D P" and "stay node_at D (po_fs P)"
  shows "leaves node_at (filled Q D P) (touched Q trash P) (po_fs P) (po_fs P')"
  using step_is_call [OF assms(1)]
proof
  assume "\<exists>x f. (x, Call f) \<in> set (running P) \<and> po_fs P' = fst (f (po_fs P))"
  then obtain x f where "(x, Call f) \<in> set (running P)" and fs: "po_fs P' = fst (f (po_fs P))" by blast
  with assms(2) have "x \<in> set (po_calls P)" and "confined_job Q node_at trash D (snd x) (Call f)"
    by (auto simp: confined_pool_def)
  with confined_step [of Q node_at trash D "snd x" f "po_fs P"] assms(3) show ?thesis unfolding fs by (blast intro: leaves_mono)
qed (simp add: leaves_refl)

lemma stay_kept:
  "leaves node_at A T s s' \<Longrightarrow> stay node_at D s \<Longrightarrow> \<forall>d \<in> D. \<not> T d \<Longrightarrow> stay node_at D s'"
  unfolding leaves_def by (metis option.distinct(1))

lemma confined_run:
  assumes "qfs_laws Q canon node_at hidden" and "rename_confined Q canon node_at" and "gio_ok Q canon node_at trash"
    and "(pool_step fuel Q)\<^sup>*\<^sup>* (init_pool s) P" and "\<forall>x \<in> set (po_calls P). canon_paths Q canon (snd x)"
    and "stay node_at D s" and "\<forall>d \<in> D. \<not> touched Q trash P d"
  shows "confined_pool Q node_at trash D P \<and> leaves node_at (filled Q D P) (touched Q trash P) s (po_fs P) \<and>
    stay node_at D (po_fs P)"
  using assms(4,5,7)
proof (induction rule: rtranclp_induct)
  case base
  show ?case using assms(6) by (simp add: confined_pool_def running_def init_pool_def leaves_refl)
next
  case (step P P')
  note grow = calls_grow [OF step.hyps(2)]
  with step.IH step.prems have inv: "confined_pool Q node_at trash D P"
    and l: "leaves node_at (filled Q D P) (touched Q trash P) s (po_fs P)" and st: "stay node_at D (po_fs P)"
    by blast+
  have "leaves node_at (filled Q D P) (touched Q trash P) s (po_fs P')"
    using l confined_pool_step [OF step.hyps(2) inv st] by (rule leaves_trans)
  then have l': "leaves node_at (filled Q D P') (touched Q trash P') s (po_fs P')"
    by (rule leaves_mono) (use grow in blast)+
  moreover have "stay node_at D (po_fs P')" using l' assms(6) step.prems(2) by (rule stay_kept)
  moreover have "\<forall>(x, j) \<in> set (running P'). x \<in> set (po_calls P') \<and> confined_job Q node_at trash D (snd x) j"
  proof (rule running_after [OF step.hyps(2)])
    fix x c
    assume "x \<in> set (po_calls P')"
    with step.prems show "x \<in> set (po_calls P') \<and> confined_job Q node_at trash D (snd x) (fo_job fuel Q (snd x))"
      by (simp add: fo_job_confined [OF assms(1-3)])
  next
    fix x f
    assume "x \<in> set (po_calls P') \<and> confined_job Q node_at trash D (snd x) (Call f)"
    then show "x \<in> set (po_calls P') \<and> confined_job Q node_at trash D (snd x) (snd (f (po_fs P)))"
      using st by (auto simp: confined_job_def)
  next
    show "\<forall>(x, j) \<in> set (running P). x \<in> set (po_calls P') \<and> confined_job Q node_at trash D (snd x) j"
      using inv grow by (auto simp: confined_pool_def)
  qed
  ultimately show ?case by (simp add: confined_pool_def)
qed

text \<open>
  C18. Operations that run at the same time change nothing that none of them is about. Whatever the file
  manager is asked to do, and however the threads of its operations interleave: a path that has
  changed was free before and lies below a destination of one of the calls, or is a folder on
  the way to one, or it lies at or below a path that one of the calls removes or moves, or it is the
  file that one of the calls is to create (an existing one is emptied), or it is in the trash and
  one of the calls may put things there. What is copied or moved to a folder of \<open>D\<close>,
  folders that no call removes, changes only its own place in it. In particular copies and
  duplicates alone never change a thing that was there, not even when two of them write to the
  same place.
\<close>

theorem operations_confined:
  assumes "qfs_laws Q canon node_at hidden" and "rename_confined Q canon node_at" and "gio_ok Q canon node_at trash"
    and "(pool_step fuel Q)\<^sup>*\<^sup>* (init_pool s) P" and "\<forall>x \<in> set (po_calls P). canon_paths Q canon (snd x)"
    and "\<forall>d \<in> D. node_at s d = Some Dir \<and> (\<forall>x \<in> set (po_calls P). \<not> touches Q trash (snd x) d)"
    and "node_at (po_fs P) q \<noteq> node_at s q"
  shows "\<exists>(i, c) \<in> set (po_calls P). node_at s q = None \<and> around Q (dests Q D c) q \<or> touches Q trash c q"
proof -
  have "leaves node_at (filled Q D P) (touched Q trash P) s (po_fs P)"
    using confined_run [OF assms(1-5), of D] assms(6) by blast
  with assms(7) show ?thesis unfolding leaves_def by fastforce
qed

subsection \<open>The program comes to rest\<close>

definition job_less :: "(('fs, 'a) job \<times> ('fs, 'a) job) set" where
  "job_less = {(snd (f s), Call f) | f s. True}"

lemma wf_job_less: "wf (job_less :: (('fs, 'a) job \<times> ('fs, 'a) job) set)"
proof (rule wfUNIVI)
  fix P :: "('fs, 'a) job \<Rightarrow> bool" and j
  assume IH: "\<forall>x. (\<forall>y. (y, x) \<in> job_less \<longrightarrow> P y) \<longrightarrow> P x"
  show "P j"
  proof (induction j)
    case (Ended a)
    show ?case using IH by (auto simp: job_less_def)
  next
    case (Call f)
    then have "P (snd (f s))" for s
      by (metis rangeI snds.intros prod.collapse)
    then have "\<forall>y. (y, Call f) \<in> job_less \<longrightarrow> P y" by (auto simp: job_less_def)
    with IH show ?case by blast
  qed
qed

definition pool_less :: "('fs pool \<times> 'fs pool) set" where
  "pool_less = inv_image (mult job_less <*lex*> less_than) (\<lambda>P. (mset (map snd (running P)), length (po_queue P)))"

lemma wf_pool_less: "wf pool_less"
  unfolding pool_less_def by (intro wf_inv_image wf_lex_prod wf_mult wf_job_less wf_less_than)

lemma mult_less: "(j', j) \<in> job_less \<Longrightarrow> (add_mset j' A, add_mset j A) \<in> mult job_less"
  using one_step_implies_mult [of "{#j#}" "{#j'#}" job_less A] by simp

lemma mult_drop: "(A, add_mset j A) \<in> mult job_less"
  using one_step_implies_mult [of "{#j#}" "{#}" job_less A] by simp

lemma job_lessI: "(snd (f s), Call f) \<in> job_less"
  by (auto simp: job_less_def)

lemma pool_lessI:
  "(mset (map snd (running P')), mset (map snd (running P))) \<in> mult job_less \<Longrightarrow> (P', P) \<in> pool_less"
  by (simp add: pool_less_def)

lemma internal_less: "pool_internal P P' \<Longrightarrow> (P', P) \<in> pool_less"
proof (induction rule: pool_internal.induct)
  case (work i P f)
  then show ?case
    using mult_less [OF job_lessI] mset_map_remove_at [OF work(1), of snd] mset_map_update_at [OF work(1), of snd]
    by (intro pool_lessI) (simp add: running_def po_work_def)
next
  case (post i P sig)
  then show ?case
    using mult_drop mset_map_remove_at [OF post(1), of snd]
    by (intro pool_lessI) (simp add: running_def po_post_def)
next
  case (main_work P x f)
  then show ?case
    using mult_less [OF job_lessI] by (intro pool_lessI) (simp add: running_def po_main_work_def)
next
  case (main_emit P x sig)
  then show ?case
    using mult_drop by (intro pool_lessI) (simp add: running_def po_main_emit_def)
next
  case (deliver P)
  then show ?case by (auto simp: pool_less_def running_def po_deliver_def split: list.splits)
qed

lemma program_rests: "wfp (\<lambda>P' P. pool_internal P P')"
  unfolding wfp_def
  by (rule wf_subset [OF wf_pool_less]) (auto dest: internal_less)

subsection \<open>Every call is reported once\<close>

text \<open>Where the calls made so far are.\<close>

definition accounted :: "'fs pool \<Rightarrow> numbered_call list" where
  "accounted P = map fst (running P) @ map fst (po_queue P) @ map fst (po_told P)"

definition pool_sums :: "'fs pool \<Rightarrow> bool" where
  "pool_sums P \<longleftrightarrow>
     map fst (po_calls P) = [0..<length (po_calls P)] \<and> mset (accounted P) \<subseteq># mset (po_calls P) \<and>
     (if po_alive P then mset (accounted P) = mset (po_calls P) else po_queue P = [] \<and> po_main P = None) \<and>
     (\<forall>(x, j) \<in> set_option (po_main P). on_main (snd x)) \<and>
     list_all (\<lambda>(x, sig). answers (snd x) sig) (po_queue P @ po_told P)"

lemma map_fst_work: "i < length xs \<Longrightarrow> map fst (xs[i := (fst (xs ! i), j)]) = map fst xs"
  by (simp add: map_update list_update_same_conv)

lemma pool_sums_step:
  assumes "pool_step fuel Q P P'" and "pool_sums P"
    and reports: "\<forall>(x, j) \<in> set (running P). job_keeps (\<lambda>s. True) (\<lambda>s s'. True) (reports_to (snd x)) j"
  shows "pool_sums P'"
  using assms(1)
proof (cases rule: pool_step.cases)
  case (invoke c)
  with assms(2) show ?thesis
    by (auto simp: pool_sums_def accounted_def running_def po_invoke_def Let_def)
next
  case quit
  with assms(2) show ?thesis
    by (auto simp: pool_sums_def accounted_def running_def po_quit_def intro: drop_middle [unfolded add.assoc])
next
  case internal
  then show ?thesis
  proof (cases rule: pool_internal.cases)
    case (work i f)
    with assms(2) map_fst_work [of i "po_jobs P"] show ?thesis
      by (auto simp: pool_sums_def accounted_def running_def po_work_def)
  next
    case (post i sig)
    then have "(fst (po_jobs P ! i), Ended (Some sig)) \<in> set (running P)"
      by (metis Un_iff nth_mem prod.collapse running_def set_append)
    with reports have "answers (snd (fst (po_jobs P ! i))) sig" by (force simp: reports_to_def)
    with post assms(2) mset_map_remove_at [OF post(2), of fst] show ?thesis
      by (auto simp: pool_sums_def accounted_def running_def po_post_def intro: add_mset_sub add_mset_eq_sub)
  next
    case (main_work x f)
    with assms(2) show ?thesis
      by (auto simp: pool_sums_def accounted_def running_def po_main_work_def split: if_splits)
  next
    case (main_emit x sig)
    with reports have "answers (snd x) sig" by (force simp: reports_to_def running_def)
    with main_emit assms(2) show ?thesis
      by (auto simp: pool_sums_def accounted_def running_def po_main_emit_def)
  next
    case deliver
    with assms(2) show ?thesis
      by (auto simp: pool_sums_def accounted_def running_def po_deliver_def split: list.splits)
  qed
qed

lemma pool_run_sums:
  "(pool_step fuel Q)\<^sup>*\<^sup>* (init_pool s) P \<Longrightarrow>
    pool_sums P \<and> (\<forall>(x, j) \<in> set (running P). job_keeps (\<lambda>s. True) (\<lambda>s s'. True) (reports_to (snd x)) j)"
proof (induction rule: rtranclp_induct)
  case base
  show ?case by (simp add: pool_sums_def accounted_def running_def init_pool_def)
next
  case (step P P')
  from step.IH have inv: "pool_sums P" and r: "\<forall>(x, j) \<in> set (running P). job_keeps (\<lambda>s. True) (\<lambda>s s'. True) (reports_to (snd x)) j"
    by blast+
  from running_after [OF step.hyps(2) _ fo_job_reports r] have
    "\<forall>(x, j) \<in> set (running P'). job_keeps (\<lambda>s. True) (\<lambda>s s'. True) (reports_to (snd x)) j" by simp
  with pool_sums_step [OF step.hyps(2) inv r] show ?case by simp
qed

text \<open>What is left to do once the program rests.\<close>

lemma job_stuck: "(\<And>f. j \<noteq> Call f) \<Longrightarrow> (\<And>sig. j \<noteq> Ended (Some sig)) \<Longrightarrow> j = Ended None"
  by (cases j; cases "case j of Ended a \<Rightarrow> a") auto

lemma pool_at_rest:
  assumes "\<And>P'. \<not> pool_internal P P'" and "pool_sums P" and "po_alive P"
    and "\<forall>(x, j) \<in> set (running P). job_keeps (\<lambda>s. True) (\<lambda>s s'. True) (reports_to (snd x)) j"
  shows "po_main P = None \<and> po_queue P = [] \<and> (\<forall>(x, j) \<in> set (po_jobs P). j = Ended None \<and> \<not> on_main (snd x))"
proof -
  have jobs: "j = Ended None \<and> \<not> on_main (snd x)" if "(x, j) \<in> set (po_jobs P)" for x j
  proof -
    from that obtain i where i: "i < length (po_jobs P)" "snd (po_jobs P ! i) = j" by (metis in_set_conv_nth snd_conv)
    have "j = Ended None"
      using assms(1) pool_internal.work [OF i(1)] pool_internal.post [OF i(1)] i(2) by (blast intro: job_stuck)
    moreover have "job_keeps (\<lambda>s. True) (\<lambda>s s'. True) (reports_to (snd x)) j" using assms(4) that by (auto simp: running_def)
    ultimately show ?thesis by (simp add: reports_to_def)
  qed
  have "po_main P = None"
  proof (rule ccontr)
    assume "po_main P \<noteq> None"
    then obtain x j where m: "po_main P = Some (x, j)" by fastforce
    have "j = Ended None"
      using assms(1) pool_internal.main_work pool_internal.main_emit m by (blast intro: job_stuck)
    with m assms(2,4) show False by (auto simp: running_def reports_to_def pool_sums_def)
  qed
  with jobs assms(1,3) pool_internal.deliver show ?thesis by blast
qed

text \<open>If no path of a directory is as long as the depth, no job ends without a report.\<close>

lemma pool_run_ends:
  assumes "dirs_bounded Q fuel"
  shows "(pool_step fuel Q)\<^sup>*\<^sup>* (init_pool s) P \<Longrightarrow>
    \<forall>(x, j) \<in> set (running P). ends (\<lambda>a. \<exists>sig. a = Some sig \<and> answers (snd x) sig) j"
proof (induction rule: rtranclp_induct)
  case base
  show ?case by (simp add: running_def init_pool_def)
next
  case (step P P')
  show ?case by (rule running_after [OF step.hyps(2) _ fo_job_ends [OF assms] step.IH]) simp
qed

text \<open>
  C19. Every operation is reported once. However the threads of the operations interleave: no call is
  answered twice, and each answer is the signal of its call. Left to itself the program comes to
  rest, whatever thread is scheduled when. If every directory has a path shorter than the depth
  \<open>fuel\<close>, as the system bounds the length of paths, then by that time every call has been answered
  and no thread is left. Once the object is destroyed nobody is told anything.
\<close>

theorem operations_reported:
  assumes "(pool_step fuel (Q :: 'fs qfs))\<^sup>*\<^sup>* (init_pool s) P"
  shows "distinct (map fst (po_told P)) \<and>
    (\<forall>(x, sig) \<in> set (po_told P). x \<in> set (po_calls P) \<and> answers (snd x) sig) \<and>
    (dirs_bounded Q fuel \<and> po_alive P \<and> (\<forall>P'. \<not> pool_internal P P') \<longrightarrow>
      po_jobs P = [] \<and> (\<forall>x \<in> set (po_calls P). \<exists>sig. (x, sig) \<in> set (po_told P))) \<and>
    (\<not> po_alive P \<and> pool_step fuel Q P P' \<longrightarrow> po_told P' = po_told P) \<and>
    wfp (\<lambda>P' (P :: 'fs pool). pool_internal P P')"
proof -
  from pool_run_sums [OF assms] have inv: "pool_sums P"
    and r: "\<forall>(x, j) \<in> set (running P). job_keeps (\<lambda>s. True) (\<lambda>s s'. True) (reports_to (snd x)) j" by blast+
  have sub: "mset (map fst (po_told P)) \<subseteq># mset (po_calls P)"
  proof (rule subset_mset.order_trans)
    show "mset (map fst (po_told P)) \<subseteq># mset (accounted P)" by (simp add: accounted_def)
    show "mset (accounted P) \<subseteq># mset (po_calls P)" using inv by (simp add: pool_sums_def)
  qed
  have "distinct (po_calls P)" using inv unfolding pool_sums_def by (metis distinct_map distinct_upt)
  with sub have "distinct (map fst (po_told P))" by (rule distinct_submset)
  moreover have "\<forall>(x, sig) \<in> set (po_told P). x \<in> set (po_calls P) \<and> answers (snd x) sig"
  proof -
    have "set (map fst (po_told P)) \<subseteq> set (po_calls P)" using sub by (metis set_mset_mono set_mset_mset)
    then show ?thesis using inv by (force simp: pool_sums_def list_all_iff)
  qed
  moreover have "po_jobs P = [] \<and> (\<forall>x \<in> set (po_calls P). \<exists>sig. (x, sig) \<in> set (po_told P))"
    if "dirs_bounded Q fuel" and "po_alive P" and "\<forall>P'. \<not> pool_internal P P'"
  proof -
    from that(2,3) have rest: "po_main P = None" "po_queue P = []" 
        "\<forall>(x, j) \<in> set (po_jobs P). j = Ended None \<and> \<not> on_main (snd x)"
      using pool_at_rest [OF _ inv _ r] by simp_all
    moreover from rest(3) pool_run_ends [OF that(1) assms] have none: "po_jobs P = []"
      by (cases "po_jobs P") (auto simp: running_def)
    moreover have "set (po_calls P) = set (accounted P)" using inv that(2) by (metis mset_eq_setD pool_sums_def)
    ultimately show ?thesis by (auto simp: accounted_def running_def)
  qed
  moreover have "po_told P' = po_told P" if "\<not> po_alive P" and "pool_step fuel Q P P'"
    using that inv by (auto elim!: pool_step.cases pool_internal.cases simp: pool_moves pool_sums_def)
  ultimately show ?thesis using program_rests by blast
qed

text \<open>A copy and a removal side by side, on the disk in memory and on one that bounds the length of the
  path of a directory.\<close>

definition short_fs :: "mem qfs" where
  "short_fs = mem_fs\<lparr>fIsDir := (\<lambda>s p. map_of s p = Some Dir \<and> length p < 8),
                    dExists := (\<lambda>s p. map_of s p = Some Dir \<and> length p < 8)\<rparr>"

lemma short_fs_bounded: "dirs_bounded short_fs 8"
  by (simp add: dirs_bounded_def short_fs_def mem_fs_def mem_join_def)

definition advance :: "nat \<Rightarrow> 'fs pool \<Rightarrow> 'fs pool" where
  "advance i P =
     (if i < length (po_jobs P)
      then case snd (po_jobs P ! i) of
          Call f \<Rightarrow> po_work i f P
        | Ended None \<Rightarrow> P
        | Ended (Some sig) \<Rightarrow> po_post i sig P
      else P)"

lemma advance_runs: "(pool_step fuel Q)\<^sup>*\<^sup>* P0 P \<Longrightarrow> (pool_step fuel Q)\<^sup>*\<^sup>* P0 (advance i P)"
  unfolding advance_def
  by (auto split: job.splits option.splits
      intro: rtranclp.rtrancl_into_rtrancl pool_step.internal pool_internal.work pool_internal.post)

lemma fold_advance_runs: "(pool_step fuel Q)\<^sup>*\<^sup>* P0 P \<Longrightarrow> (pool_step fuel Q)\<^sup>*\<^sup>* P0 (fold advance is P)"
  by (induction "is" arbitrary: P) (simp_all add: advance_runs)

lemma pool_more: "(pool_step fuel Q)\<^sup>*\<^sup>* P0 P \<Longrightarrow> pool_step fuel Q P P' \<Longrightarrow> (pool_step fuel Q)\<^sup>*\<^sup>* P0 P'"
  by (rule rtranclp.rtrancl_into_rtrancl)

lemmas pool_intros =
  fold_advance_runs pool_more [OF _ pool_step.invoke] pool_more [OF _ pool_step.quit]
  pool_more [OF _ pool_step.internal [OF deliver]]

definition demo_disk :: mem where
  "demo_disk = [(''/a'', File ''x''), (''/b'', File ''y'')]"

definition demo_asked :: "mem qfs \<Rightarrow> mem pool" where
  "demo_asked Q = po_invoke 8 Q (CallDelete ''/a'' True) (po_invoke 8 Q (CallCopy ''/b'' ''/c'') (init_pool demo_disk))"

definition demo_worked :: "mem qfs \<Rightarrow> mem pool" where
  "demo_worked Q = fold advance [0, 1, 0, 1, 0, 1, 0] (demo_asked Q)"

definition demo_pool :: "mem pool" where
  "demo_pool = po_deliver (po_deliver (demo_worked mem_fs))"

lemmas demo_pool_simps = demo_pool_def demo_worked_def demo_asked_def demo_disk_def advance_def pool_moves init_pool_def
  Let_def remove_at_def short_fs_def mem_fs_def ask_def act_def told_def kind_of_def copy_as_job_def copy_any_job_def remove_job_def resolveDestination_def mem_del_def

lemma demo_worked_is:
  assumes "Q = mem_fs \<or> Q = short_fs"
  shows "demo_worked Q = \<lparr>po_fs = [(''/c'', File ''y''), (''/b'', File ''y'')], po_alive = True, po_jobs = [], po_main = None,
    po_queue = [((1, CallDelete ''/a'' True), DeleteFinished True []), ((0, CallCopy ''/b'' ''/c''), CopyFinished True [])], po_told = [],
    po_calls = [(0, CallCopy ''/b'' ''/c''), (1, CallDelete ''/a'' True)], po_posted_to_dead = False\<rparr>"
  using assms by (elim disjE) (simp_all add: demo_pool_simps)

lemma demo_pool_is:
  "demo_pool = \<lparr>po_fs = [(''/c'', File ''y''), (''/b'', File ''y'')], po_alive = True, po_jobs = [], po_main = None,
    po_queue = [], po_told = [((1, CallDelete ''/a'' True), DeleteFinished True []), ((0, CallCopy ''/b'' ''/c''), CopyFinished True [])],
    po_calls = [(0, CallCopy ''/b'' ''/c''), (1, CallDelete ''/a'' True)], po_posted_to_dead = False\<rparr>"
  by (simp add: demo_pool_def demo_worked_is po_deliver_def)

lemma demo_pool_reached:
  assumes "Q = mem_fs \<or> Q = short_fs"
  shows "(pool_step 8 Q)\<^sup>*\<^sup>* (init_pool demo_disk) demo_pool"
proof -
  have "(pool_step 8 Q)\<^sup>*\<^sup>* (init_pool demo_disk) (demo_worked Q)"
    unfolding demo_worked_def demo_asked_def
    by (intro pool_intros rtranclp.rtrancl_refl) (simp_all add: init_pool_def po_invoke_def Let_def)
  then have "(pool_step 8 Q)\<^sup>*\<^sup>* (init_pool demo_disk) (po_deliver (po_deliver (demo_worked Q)))"
    by (intro pool_intros) (simp_all add: demo_worked_is [OF assms] po_deliver_def)
  then show ?thesis by (simp add: demo_pool_def demo_worked_is assms)
qed

lemma demo_pool_rests: "\<not> pool_internal demo_pool P'"
  by (auto simp: demo_pool_is elim!: pool_internal.cases)

theorem operations_confined_witness:
  "(\<exists>(i, c) \<in> set (po_calls demo_pool).
      map_of demo_disk ''/a'' = None \<and> around mem_fs (dests mem_fs {} c) ''/a'' \<or> touches mem_fs (\<lambda>q. False) c ''/a'') \<and>
   map_of demo_disk ''/a'' = Some (File ''x'')"
proof
  have canon: "\<forall>x \<in> set (po_calls demo_pool). canon_paths mem_fs mem_canon (snd x)"
    by (simp add: demo_pool_is mem_canon_def mem_fs_def mem_join_def)
  have "map_of (po_fs demo_pool) ''/a'' \<noteq> map_of demo_disk ''/a''" by (simp add: demo_pool_is demo_disk_def)
  from operations_confined [OF mem_fs_laws mem_rename mem_gio demo_pool_reached [OF disjI1 [OF refl]] canon _ this, of "{}"]
  show "\<exists>(i, c) \<in> set (po_calls demo_pool).
      map_of demo_disk ''/a'' = None \<and> around mem_fs (dests mem_fs {} c) ''/a'' \<or> touches mem_fs (\<lambda>q. False) c ''/a''" by simp
  show "map_of demo_disk ''/a'' = Some (File ''x'')" by (simp add: demo_disk_def)
qed

theorem operations_reported_witness:
  "(\<exists>sig. ((0, CallCopy ''/b'' ''/c''), sig) \<in> set (po_told demo_pool)) \<and> distinct (map fst (po_told demo_pool))"
  using operations_reported [OF demo_pool_reached [OF disjI2 [OF refl]]] short_fs_bounded demo_pool_rests by (simp add: demo_pool_is)

text \<open>A thread that outlives the object posts to it: \<open>this\<close> is a raw pointer in the threads' functions.\<close>

lemma posts_to_dead_object:
  "\<exists>P. (pool_step 1 mem_fs)\<^sup>*\<^sup>* (init_pool demo_disk) P \<and> po_posted_to_dead P"
proof (intro exI conjI)
  let ?P = "fold advance [0, 0, 0] (po_quit (po_invoke 1 mem_fs (CallDelete ''/a'' True) (init_pool demo_disk)))"
  show "(pool_step 1 mem_fs)\<^sup>*\<^sup>* (init_pool demo_disk) ?P"
    by (intro pool_intros rtranclp.rtrancl_refl) (simp_all add: init_pool_def po_invoke_def Let_def)
  show "po_posted_to_dead ?P" by (simp add: demo_pool_simps)
qed

end
