(* ===== verification/FileViews.thy ===== *)
theory FileViews
  imports PoolRuns "HOL-Library.Char_ord" "HOL-Library.List_Lexorder"
begin

text \<open>
  What an operation of apps/files/src/FileOperations.cpp sees of the disk: what its calls of the file
  system answer, and what they do, depends on the part of the disk at, above and below the paths
  they are about. An operation that runs beside others which keep off that part is shown to do
  what it does alone.
\<close>

subsection \<open>Jobs that see a part of the disk\<close>

text \<open>\<open>sees E s j\<close>: started in \<open>s\<close>, the job does the same on every disk that \<open>E\<close> relates to the one it would
  find if it ran alone.\<close>

inductive sees :: "('fs \<Rightarrow> 'fs \<Rightarrow> bool) \<Rightarrow> 'fs \<Rightarrow> ('fs, 'a) job \<Rightarrow> bool" for E where
  ended: "sees E s (Ended a)"
| call: "(\<And>t. E s t \<Longrightarrow> snd (f t) = snd (f s) \<and> E (fst (f s)) (fst (f t))) \<Longrightarrow> sees E (fst (f s)) (snd (f s)) \<Longrightarrow>
    sees E s (Call f)"

inductive_simps sees_ended [simp]: "sees E s (Ended a)"
inductive_cases sees_callE: "sees E s (Call f)"

lemma sees_ask: "(\<And>t. E s t \<Longrightarrow> g t = g s) \<Longrightarrow> sees E s (k (g s)) \<Longrightarrow> sees E s (ask g k)"
  unfolding ask_def by (rule sees.call) simp_all

lemma sees_act:
  "(\<And>t. E s t \<Longrightarrow> fst (g t) = fst (g s) \<and> E (snd (g s)) (snd (g t))) \<Longrightarrow> sees E (snd (g s)) (k (fst (g s))) \<Longrightarrow>
    sees E s (act g k)"
  unfolding act_def by (rule sees.call) simp_all

lemma sees_told: "sees E s (told sig failure r)"
  by (simp add: told_def)

lemma sees_probe:
  assumes "\<And>i t. E s t \<Longrightarrow> fExists Q t (cand i) = fExists Q s (cand i)" and "sees E s (k (probe (fExists Q s) cand i n l))"
  shows "sees E s (probe_job Q cand i n l k)"
  using assms(2) by (induction n arbitrary: i l) (auto intro!: sees_ask simp: assms(1))

locale disk_view =
  fixes Q :: "'fs qfs"
    and E :: "'fs \<Rightarrow> 'fs \<Rightarrow> bool"
    and near :: "path \<Rightarrow> bool"
    and peek :: "path \<Rightarrow> bool"
  assumes exists: "E s t \<Longrightarrow> peek p \<Longrightarrow> fExists Q t p = fExists Q s p"
    and isdir: "E s t \<Longrightarrow> peek p \<Longrightarrow> fIsDir Q t p = fIsDir Q s p"
    and dexists: "E s t \<Longrightarrow> peek p \<Longrightarrow> dExists Q t p = dExists Q s p"
    and entries: "E s t \<Longrightarrow> near p \<Longrightarrow> dEntries Q t p = dEntries Q s p"
    and near_peek: "near p \<Longrightarrow> peek p"
    and near_entry: "near p \<Longrightarrow> near d \<Longrightarrow> n \<in> set (dEntries Q s p) \<Longrightarrow> near (pJoin Q d n)"
    and mkpath: "E s t \<Longrightarrow> near d \<Longrightarrow> fst (dMkpath Q t d) = fst (dMkpath Q s d) \<and> E (snd (dMkpath Q s d)) (snd (dMkpath Q t d))"
    and copies: "E s t \<Longrightarrow> near a \<Longrightarrow> near b \<Longrightarrow>
      fst (fCopy Q t a b) = fst (fCopy Q s a b) \<and> E (snd (fCopy Q s a b)) (snd (fCopy Q t a b))"
    and removes: "E s t \<Longrightarrow> near p \<Longrightarrow> fst (fRemove Q t p) = fst (fRemove Q s p) \<and> E (snd (fRemove Q s p)) (snd (fRemove Q t p))"
    and rmdirs: "E s t \<Longrightarrow> near p \<Longrightarrow> fst (dRmdir Q t p) = fst (dRmdir Q s p) \<and> E (snd (dRmdir Q s p)) (snd (dRmdir Q t p))"
    and renames: "E s t \<Longrightarrow> near a \<Longrightarrow> near b \<Longrightarrow>
      fst (fRename Q t a b) = fst (fRename Q s a b) \<and> E (snd (fRename Q s a b)) (snd (fRename Q t a b))"
    and creates: "E s t \<Longrightarrow> near p \<Longrightarrow> fst (fCreate Q t p) = fst (fCreate Q s p) \<and> E (snd (fCreate Q s p)) (snd (fCreate Q t p))"
begin

text \<open>The rules for the goals \<open>sees E s (...)\<close>, and for what they ask of the disk.\<close>

lemma acts:
  "near d \<Longrightarrow> sees E (snd (dMkpath Q s d)) (j (fst (dMkpath Q s d))) \<Longrightarrow> sees E s (act (\<lambda>s. dMkpath Q s d) j)"
  "near a \<Longrightarrow> near b \<Longrightarrow> sees E (snd (fCopy Q s a b)) (j (fst (fCopy Q s a b))) \<Longrightarrow> sees E s (act (\<lambda>s. fCopy Q s a b) j)"
  "near p \<Longrightarrow> sees E (snd (fRemove Q s p)) (j (fst (fRemove Q s p))) \<Longrightarrow> sees E s (act (\<lambda>s. fRemove Q s p) j)"
  "near p \<Longrightarrow> sees E (snd (dRmdir Q s p)) (j (fst (dRmdir Q s p))) \<Longrightarrow> sees E s (act (\<lambda>s. dRmdir Q s p) j)"
  "near a \<Longrightarrow> near b \<Longrightarrow> sees E (snd (fRename Q s a b)) (j (fst (fRename Q s a b))) \<Longrightarrow> sees E s (act (\<lambda>s. fRename Q s a b) j)"
  by (rule sees_act; simp add: mkpath copies removes rmdirs renames)+

lemma creates_act:
  "near p \<Longrightarrow> sees E (snd (fCreate Q s p)) (j (fst (fCreate Q s p))) \<Longrightarrow> sees E s (act (\<lambda>s. fCreate Q s p) j)"
  by (rule sees_act) (simp_all add: creates)

lemma asks:
  "near p \<Longrightarrow> sees E s (j (fExists Q s p)) \<Longrightarrow> sees E s (ask (\<lambda>s. fExists Q s p) j)"
  "near p \<Longrightarrow> sees E s (j (fIsDir Q s p)) \<Longrightarrow> sees E s (ask (\<lambda>s. fIsDir Q s p) j)"
  "near p \<Longrightarrow> sees E s (j (dExists Q s p)) \<Longrightarrow> sees E s (ask (\<lambda>s. dExists Q s p) j)"
  by (rule sees_ask; simp add: near_peek exists isdir dexists)+

lemma entries_ask: "near p \<Longrightarrow> sees E s (j (dEntries Q s p)) \<Longrightarrow> sees E s (ask (\<lambda>s. dEntries Q s p) j)"
  by (rule sees_ask) (simp_all add: entries)

lemma kind_ask: "near p \<Longrightarrow> sees E s (j (kind_of Q p s)) \<Longrightarrow> sees E s (ask (kind_of Q p) j)"
  by (rule sees_ask) (simp_all add: kind_of_def near_peek exists isdir)

lemmas looks = acts creates_act asks entries_ask kind_ask

lemma entries_job_sees:
  fixes k :: "bool option \<Rightarrow> ('fs, 'a) job"
  assumes "\<And>a b s (k :: bool option \<Rightarrow> ('fs, 'a) job).
      near a \<Longrightarrow> near b \<Longrightarrow> (\<And>r s. sees E s (k r)) \<Longrightarrow> sees E s (copy_job n Q a b k)"
    and "near a" and "near b" and "\<And>r s. sees E s (k r)" and "set es \<subseteq> set (dEntries Q s0 a)"
  shows "sees E s (entries_job n Q a b es k)"
  using assms(5)
proof (induction es arbitrary: s)
  case (Cons e es)
  then have e: "e \<in> set (dEntries Q s0 a)" and es: "\<And>s. sees E s (entries_job n Q a b es k)" by simp_all
  from e assms(2,3) have "near (pJoin Q a e)" and "near (pJoin Q b e)" by (blast intro: near_entry)+
  with es assms(1,4) show ?case by (auto simp: Let_def intro!: looks)
qed (simp add: assms(4))

lemma copy_job_sees: "near a \<Longrightarrow> near b \<Longrightarrow> (\<And>r s. sees E s (k r)) \<Longrightarrow> sees E s (copy_job n Q a b k)"
proof (induction n arbitrary: a b s k)
  case (Suc n)
  have "sees E s1 (entries_job n Q a b (dEntries Q s2 a) k)" for s1 s2
    by (rule entries_job_sees [OF Suc.IH Suc.prems subset_refl])
  then show ?case using Suc.prems by (auto simp: Let_def intro!: looks)
qed simp

lemma delete_entries_job_sees:
  fixes k :: "bool option \<Rightarrow> ('fs, 'a) job"
  assumes "\<And>p s (k :: bool option \<Rightarrow> ('fs, 'a) job). near p \<Longrightarrow> (\<And>r s. sees E s (k r)) \<Longrightarrow> sees E s (delete_job n Q p k)"
    and "near p" and "\<And>r s. sees E s (k r)" and "set es \<subseteq> set (dEntries Q s0 p)"
  shows "sees E s (delete_entries_job n Q p es k)"
  using assms(4)
proof (induction es arbitrary: s)
  case (Cons e es)
  then have e: "e \<in> set (dEntries Q s0 p)" and es: "\<And>s. sees E s (delete_entries_job n Q p es k)" by simp_all
  from e assms(2) have "near (pJoin Q p e)" by (blast intro: near_entry)
  with es assms(1,3) show ?case by (auto simp: Let_def intro!: looks)
qed (simp add: assms(3))

lemma delete_job_sees: "near p \<Longrightarrow> (\<And>r s. sees E s (k r)) \<Longrightarrow> sees E s (delete_job n Q p k)"
proof (induction n arbitrary: p s k)
  case (Suc n)
  let ?k = "\<lambda>r. if r = Some True then act (\<lambda>s. dRmdir Q s p) (\<lambda>ok. k (Some ok)) else k r"
  have k: "sees E s (?k r)" for r s using Suc.prems by (auto intro!: looks)
  have "sees E s1 (delete_entries_job n Q p (dEntries Q s2 p) ?k)" for s1 s2
    by (rule delete_entries_job_sees [OF Suc.IH Suc.prems(1) k subset_refl])
  then show ?case using Suc.prems by (auto intro!: looks)
qed simp

lemma copy_as_job_sees:
  "near a \<Longrightarrow> near b \<Longrightarrow> (\<And>r s. sees E s (k r)) \<Longrightarrow> sees E s (copy_as_job isDir n Q a b k)"
  by (auto simp: copy_as_job_def intro!: looks copy_job_sees)

lemma copy_any_job_sees:
  "near a \<Longrightarrow> near b \<Longrightarrow> (\<And>r s. sees E s (k r)) \<Longrightarrow> sees E s (copy_any_job n Q a b k)"
  by (auto simp: copy_any_job_def intro!: looks copy_as_job_sees)

text \<open>An operation that does not go to the trash, if it is near all its paths.\<close>

fun stands_near :: "'fs \<Rightarrow> fo_call \<Rightarrow> bool" where
  "stands_near s (CallCopy a d) = (near a \<and> peek d \<and> near (resolveDestination Q s a d))"
| "stands_near s (CallMove a d) = False"
| "stands_near s (CallRename p n) = (isSafeName n \<longrightarrow> near p \<and> near (pJoin Q (pDir Q p) n))"
| "stands_near s (CallDelete p permanent) = (permanent \<and> near p)"
| "stands_near s (CallCreateFolder p n) = (isSafeName n \<longrightarrow> near (pJoin Q p n))"
| "stands_near s (CallCreateFile p n) = (isSafeName n \<longrightarrow> near (pJoin Q p n))"
| "stands_near s (CallDuplicate p) =
     (near p \<and> near (duplicate_target Q p s) \<and> (\<forall>i. peek (pDir Q p @ ''/'' @ duplicate_name Q p i)))"

lemma fo_job_sees: "stands_near s c \<Longrightarrow> sees E s (fo_job fuel Q c)"
proof (cases c)
  case (CallCopy a d)
  assume s: "stands_near s c"
  then have "resolveDestination Q t a d = resolveDestination Q s a d" if "E s t" for t
    using isdir [OF that, of d] CallCopy by (simp add: resolveDestination_def)
  then have "sees E s (ask (\<lambda>s. resolveDestination Q s a d) (\<lambda>target. copy_as_job (fIsDir Q s a) fuel Q a target (told sig e)))"
    for sig e
    using s CallCopy by (auto intro!: sees_ask copy_as_job_sees sees_told)
  with s CallCopy show ?thesis by (auto simp: kind_of_def [of Q a s] intro!: looks)
next
  case (CallDelete p permanent)
  assume "stands_near s c"
  with CallDelete show ?thesis
    by (auto simp: remove_job_def kind_of_def [of Q p s] sees_told intro!: looks delete_job_sees)
next
  case (CallDuplicate p)
  assume "stands_near s c"
  with CallDuplicate show ?thesis
    by (auto simp: sees_told duplicate_target_def exists intro!: sees_probe copy_any_job_sees)
qed (auto simp: Let_def sees_told intro!: looks)

end

text \<open>On the whole disk: a job does the same on the same disk, whatever the file system is.\<close>

interpretation whole_disk: disk_view Q "(=)" "\<lambda>p. True" "\<lambda>p. True" for Q :: "'fs qfs"
  by unfold_locales simp_all

subsection \<open>The part of the disk around a path\<close>

definition by_path :: "'fs qfs \<Rightarrow> path \<Rightarrow> path \<Rightarrow> bool" where
  "by_path Q p q \<longleftrightarrow> below Q p q \<or> below Q q p"

definition agree :: "('fs \<Rightarrow> path \<Rightarrow> node option) \<Rightarrow> (path \<Rightarrow> bool) \<Rightarrow> 'fs \<Rightarrow> 'fs \<Rightarrow> bool" where
  "agree node_at N s t \<longleftrightarrow> (\<forall>q. N q \<longrightarrow> node_at t q = node_at s q)"

text \<open>An operation of the file system is local to \<open>F\<close>: what it answers, and what it leaves on any part of
  the disk with \<open>F\<close> in it, depends only on that part.\<close>

definition local_op :: "('fs \<Rightarrow> path \<Rightarrow> node option) \<Rightarrow> (path \<Rightarrow> bool) \<Rightarrow> ('fs \<Rightarrow> 'b \<times> 'fs) \<Rightarrow> bool" where
  "local_op node_at F f \<longleftrightarrow>
     (\<forall>N s t. (\<forall>q. F q \<longrightarrow> N q) \<longrightarrow> agree node_at N s t \<longrightarrow>
        fst (f t) = fst (f s) \<and> agree node_at N (snd (f s)) (snd (f t)))"

text \<open>The laws: a folder above an entry is above its folder; a listing (sorted by name, as \<open>QDir\<close> sorts by
  default) depends on the entries; the operations are local to what is at, above and below the
  paths they are given.\<close>

definition local_ok :: "'fs qfs \<Rightarrow> (path \<Rightarrow> bool) \<Rightarrow> ('fs \<Rightarrow> path \<Rightarrow> node option) \<Rightarrow> bool" where
  "local_ok Q canon node_at \<longleftrightarrow>
     (\<forall>p n q. canon p \<longrightarrow> plain_name n \<longrightarrow> below Q q (pJoin Q p n) \<longrightarrow> q = pJoin Q p n \<or> below Q q p) \<and>
     (\<forall>p s t. canon p \<longrightarrow> (\<forall>n. plain_name n \<longrightarrow> node_at t (pJoin Q p n) = node_at s (pJoin Q p n)) \<longrightarrow>
        dEntries Q t p = dEntries Q s p) \<and>
     (\<forall>p. canon p \<longrightarrow> local_op node_at (by_path Q p) (\<lambda>s. dMkpath Q s p) \<and> local_op node_at (by_path Q p) (\<lambda>s. fRemove Q s p) \<and>
        local_op node_at (by_path Q p) (\<lambda>s. dRmdir Q s p) \<and> local_op node_at (by_path Q p) (\<lambda>s. fCreate Q s p)) \<and>
     (\<forall>a b. canon a \<longrightarrow> canon b \<longrightarrow>
        local_op node_at (\<lambda>q. by_path Q a q \<or> by_path Q b q) (\<lambda>s. fCopy Q s a b) \<and>
        local_op node_at (\<lambda>q. by_path Q a q \<or> by_path Q b q) (\<lambda>s. fRename Q s a b))"

locale local_disk =
  fixes Q :: "'fs qfs"
    and canon :: "path \<Rightarrow> bool"
    and node_at :: "'fs \<Rightarrow> path \<Rightarrow> node option"
    and hidden :: "string \<Rightarrow> bool"
    and V :: "path \<Rightarrow> bool"
  assumes laws: "qfs_laws Q canon node_at hidden"
    and local_laws: "local_ok Q canon node_at"
begin

abbreviation around_in :: "path \<Rightarrow> bool" where
  "around_in p \<equiv> canon p \<and> (\<forall>q. by_path Q p q \<longrightarrow> V q)"

lemma around_join: "around_in p \<Longrightarrow> plain_name n \<Longrightarrow> around_in (pJoin Q p n)"
  using local_laws qfs_canon [OF laws, of p n] below_join [of n Q p]
  unfolding local_ok_def by_path_def by (metis below_refl below_trans)

lemma local_opD:
  "local_op node_at F f \<Longrightarrow> (\<And>q. F q \<Longrightarrow> V q) \<Longrightarrow> agree node_at V s t \<Longrightarrow>
    fst (f t) = fst (f s) \<and> agree node_at V (snd (f s)) (snd (f t))"
  unfolding local_op_def by blast

lemma local_laws1:
  assumes "around_in p"
  shows "local_op node_at (by_path Q p) (\<lambda>s. dMkpath Q s p)" "local_op node_at (by_path Q p) (\<lambda>s. fRemove Q s p)"
    and "local_op node_at (by_path Q p) (\<lambda>s. dRmdir Q s p)" "local_op node_at (by_path Q p) (\<lambda>s. fCreate Q s p)"
  using local_laws assms by (simp_all add: local_ok_def)

lemma local_laws2:
  assumes "around_in a" and "around_in b"
  shows "local_op node_at (\<lambda>q. by_path Q a q \<or> by_path Q b q) (\<lambda>s. fCopy Q s a b)"
    and "local_op node_at (\<lambda>q. by_path Q a q \<or> by_path Q b q) (\<lambda>s. fRename Q s a b)"
  using local_laws assms by (simp_all add: local_ok_def)

end

sublocale local_disk \<subseteq> disk_view Q "agree node_at V" around_in "\<lambda>p. canon p \<and> V p"
proof (unfold_locales)
  fix s t :: 'fs and p d a b :: path and n :: string
  assume E: "agree node_at V s t"
  show "fExists Q t p = fExists Q s p" "fIsDir Q t p = fIsDir Q s p" "dExists Q t p = dExists Q s p" if "canon p \<and> V p"
    using E that qfs_queries(1-3) [OF laws, of p] by (auto simp: agree_def)
  show "dEntries Q t p = dEntries Q s p" if "around_in p"
  proof -
    have "node_at t (pJoin Q p n) = node_at s (pJoin Q p n)" if "plain_name n" for n
      using E \<open>around_in p\<close> below_join [OF that, of Q p] by (simp add: agree_def by_path_def)
    with \<open>around_in p\<close> local_laws show ?thesis by (simp add: local_ok_def)
  qed
  show "fst (dMkpath Q t p) = fst (dMkpath Q s p) \<and> agree node_at V (snd (dMkpath Q s p)) (snd (dMkpath Q t p))"
    "fst (fRemove Q t p) = fst (fRemove Q s p) \<and> agree node_at V (snd (fRemove Q s p)) (snd (fRemove Q t p))"
    "fst (dRmdir Q t p) = fst (dRmdir Q s p) \<and> agree node_at V (snd (dRmdir Q s p)) (snd (dRmdir Q t p))"
    "fst (fCreate Q t p) = fst (fCreate Q s p) \<and> agree node_at V (snd (fCreate Q s p)) (snd (fCreate Q t p))"
    if "around_in p"
    using that local_laws1 [OF that, THEN local_opD, OF _ E] by blast+
  show "fst (fCopy Q t a b) = fst (fCopy Q s a b) \<and> agree node_at V (snd (fCopy Q s a b)) (snd (fCopy Q t a b))"
    "fst (fRename Q t a b) = fst (fRename Q s a b) \<and> agree node_at V (snd (fRename Q s a b)) (snd (fRename Q t a b))"
    if "around_in a" "around_in b"
    using that local_laws2 [OF that, THEN local_opD, OF _ E] by blast+
next
  fix s :: 'fs and p d :: path and n :: string
  show "canon p \<and> V p" if "around_in p"
    using that by (simp add: by_path_def)
  show "around_in (pJoin Q d n)" if "around_in p" "around_in d" "n \<in> set (dEntries Q s p)"
    using that(2,3) qfs_queries(4) [OF laws, of p n s] that(1) by (intro around_join) simp_all
qed


text \<open>What a call sees, started on the disk \<open>s\<close>: what is at, above and below its paths, and whether the
  destination of a copy, or a name tried for a duplicate, is there.\<close>

fun places :: "'fs qfs \<Rightarrow> 'fs \<Rightarrow> fo_call \<Rightarrow> path set" where
  "places Q s (CallCopy a d) = {a, resolveDestination Q s a d}"
| "places Q s (CallMove a d) = {a, resolveDestination Q s a d}"
| "places Q s (CallRename p n) = {p, pJoin Q (pDir Q p) n}"
| "places Q s (CallDelete p permanent) = {p}"
| "places Q s (CallCreateFolder p n) = {pJoin Q p n}"
| "places Q s (CallCreateFile p n) = {pJoin Q p n}"
| "places Q s (CallDuplicate p) = {p, duplicate_target Q p s}"

fun glances :: "'fs qfs \<Rightarrow> fo_call \<Rightarrow> path set" where
  "glances Q (CallCopy a d) = {d}"
| "glances Q (CallDuplicate p) = range (\<lambda>i. pDir Q p @ ''/'' @ duplicate_name Q p i)"
| "glances Q _ = {}"

definition view :: "'fs qfs \<Rightarrow> 'fs \<Rightarrow> fo_call \<Rightarrow> path \<Rightarrow> bool" where
  "view Q s c q \<longleftrightarrow> (\<exists>p \<in> places Q s c. by_path Q p q) \<or> q \<in> glances Q c"

context local_disk
begin

lemma view_stands_near:
  assumes "canon_paths Q canon c" and "\<not> bins c" and "\<And>q. view Q s c q \<Longrightarrow> V q"
  shows "stands_near s c"
proof -
  have V: "V q" if "p \<in> places Q s c" "by_path Q p q" for p q using assms(3) that unfolding view_def by blast
  have G: "V q" if "q \<in> glances Q c" for q using assms(3) that unfolding view_def by blast
  show ?thesis
  proof (cases c)
    case (CallCopy a d)
    have "V q" if "by_path Q a q \<or> by_path Q (resolveDestination Q s a d) q" for q using V CallCopy that by auto
    moreover have "canon (resolveDestination Q s a d)" using assms(1) CallCopy by (simp add: resolveDestination_def)
    ultimately show ?thesis using CallCopy assms(1) G by simp
  next
    case (CallDuplicate p)
    obtain k where "duplicate_target Q p s = pDir Q p @ ''/'' @ duplicate_name Q p (1 + k)"
      using probe_is_candidate [of 999 "fExists Q s" "\<lambda>i. pDir Q p @ ''/'' @ duplicate_name Q p i" 1 "[]"]
      by (auto simp: duplicate_target_def)
    then have "canon (duplicate_target Q p s)" using assms(1) CallDuplicate by simp
    with CallDuplicate assms(1,2) V G show ?thesis by auto
  qed (use assms(1,2) V G safe_plain qfs_canon [OF laws] in auto)
qed

lemma call_sees:
  "canon_paths Q canon c \<Longrightarrow> \<not> bins c \<Longrightarrow> (\<And>q. view Q s c q \<Longrightarrow> V q) \<Longrightarrow> sees (agree node_at V) s (fo_job fuel Q c)"
  by (intro fo_job_sees view_stands_near) simp_all

end

subsection \<open>An instance\<close>

text \<open>The disk in memory, with listings in order.\<close>

definition sorted_fs :: "mem qfs" where
  "sorted_fs = mem_fs\<lparr>dEntries := (\<lambda>s p. sorted_list_of_set (set (dEntries mem_fs s p)))\<rparr>"

lemma sorted_fs_simps [simp]:
  "fExists sorted_fs = fExists mem_fs" "fIsDir sorted_fs = fIsDir mem_fs" "dExists sorted_fs = dExists mem_fs"
  "fCopy sorted_fs = fCopy mem_fs" "fRename sorted_fs = fRename mem_fs" "fRemove sorted_fs = fRemove mem_fs"
  "dRmdir sorted_fs = dRmdir mem_fs" "dMkpath sorted_fs = dMkpath mem_fs" "fCreate sorted_fs = fCreate mem_fs"
  "pJoin sorted_fs = pJoin mem_fs" "pFileName sorted_fs = pFileName mem_fs" "pDir sorted_fs = pDir mem_fs"
  "pAbs sorted_fs = pAbs mem_fs" "gioTrash sorted_fs = gioTrash mem_fs" "dataHome sorted_fs = dataHome mem_fs"
  "set (dEntries sorted_fs s p) = set (dEntries mem_fs s p)"
  by (simp_all add: sorted_fs_def)

lemma sorted_joins: "joins sorted_fs p ns = joins mem_fs p ns"
  by (induction ns arbitrary: p) simp_all

lemma sorted_below: "below sorted_fs = below mem_fs"
  by (intro ext) (simp add: below_def sorted_joins)

lemma sorted_fs_laws: "qfs_laws sorted_fs mem_canon map_of mem_hidden"
  using mem_fs_laws
  unfolding qfs_laws_def queries_ok_def copy_ok_def mkpath_ok_def remove_ok_def rename_ok_def create_ok_def
    sorted_fs_simps sorted_joins sorted_below .

text \<open>An operation on memory that looks at two nodes, and changes each node by what is there.\<close>

lemma local_nodes:
  fixes f :: "mem \<Rightarrow> 'b \<times> mem"
  assumes "\<And>s t. map_of t a = map_of s a \<Longrightarrow> map_of t b = map_of s b \<Longrightarrow>
      fst (f t) = fst (f s) \<and> (\<forall>q. map_of t q = map_of s q \<longrightarrow> map_of (snd (f t)) q = map_of (snd (f s)) q)"
    and "F a" and "F b"
  shows "local_op map_of F f"
  unfolding local_op_def agree_def using assms by blast

lemma by_path_refl [simp]: "by_path Q p p"
  by (simp add: by_path_def)

lemma mem_local_ops:
  "local_op map_of (by_path mem_fs p) (\<lambda>s. dMkpath mem_fs s p)"
  "local_op map_of (by_path mem_fs p) (\<lambda>s. fRemove mem_fs s p)"
  "local_op map_of (by_path mem_fs p) (\<lambda>s. fCreate mem_fs s p)"
  "local_op map_of (\<lambda>q. by_path mem_fs p q \<or> by_path mem_fs b q) (\<lambda>s. fCopy mem_fs s p b)"
  "local_op map_of (\<lambda>q. by_path mem_fs p q \<or> by_path mem_fs b q) (\<lambda>s. fRename mem_fs s p b)"
  by (rule local_nodes [of p p], simp add: mem_fs_def split: option.splits node.splits, simp, simp)
    (rule local_nodes [of p p], simp add: mem_fs_def split: option.splits node.splits, simp, simp,
     rule local_nodes [of p p], simp add: mem_fs_def split: option.splits node.splits, simp, simp,
     rule local_nodes [of p b], simp add: mem_fs_def split: option.splits node.splits, simp, simp,
     rule local_nodes [of p b], simp add: mem_fs_def split: option.splits node.splits, simp, simp)

lemma mem_local_rmdir: "local_op map_of (by_path mem_fs p) (\<lambda>s. dRmdir mem_fs s p)"
  unfolding local_op_def
proof (intro allI impI)
  fix N and s t :: mem
  assume N: "\<forall>q. by_path mem_fs p q \<longrightarrow> N q" and same: "agree map_of N s t"
  have "map_of t (mem_join p n) = map_of s (mem_join p n)" if "plain_name n" for n
    using N same below_join [OF that, of mem_fs p] by (simp add: agree_def by_path_def mem_fs_def)
  then have "set (mem_names t p) = set (mem_names s p)" by (auto simp: mem_names_iff)
  moreover have "map_of t p = map_of s p" using N same by (simp add: agree_def)
  ultimately show "fst (dRmdir mem_fs t p) = fst (dRmdir mem_fs s p) \<and>
      agree map_of N (snd (dRmdir mem_fs s p)) (snd (dRmdir mem_fs t p))"
    using same by (auto simp: mem_fs_def agree_def)
qed

lemma last_sep:
  assumes "p @ c # n = q @ c # m" and "c \<notin> set n" and "c \<notin> set m"
  shows "p = q"
proof -
  have "rev n @ c # rev p = rev m @ c # rev q" using arg_cong [OF assms(1), of rev] by simp
  then have "dropWhile (\<lambda>x. x \<noteq> c) (rev n @ c # rev p) = dropWhile (\<lambda>x. x \<noteq> c) (rev m @ c # rev q)" by simp
  moreover have "dropWhile (\<lambda>x. x \<noteq> c) (rev k @ c # ks) = c # ks" if "c \<notin> set k" for k ks
    using that by (subst dropWhile_append2) auto
  ultimately show ?thesis using assms(2,3) by simp
qed

lemma mem_above_entry:
  assumes "plain_name n" and "below mem_fs q (p @ ''/'' @ n)"
  shows "q = p @ ''/'' @ n \<or> below mem_fs q p"
proof -
  from assms(2) obtain ns where ns: "list_all plain_name ns" and eq: "p @ ''/'' @ n = joins mem_fs q ns"
    unfolding below_def by blast
  show ?thesis
  proof (cases ns rule: rev_cases)
    case Nil
    with eq show ?thesis by simp
  next
    case (snoc ms m)
    have "p @ CHR ''/'' # n = joins mem_fs q ms @ CHR ''/'' # m" using eq snoc by (simp add: joins_mem)
    moreover have "CHR ''/'' \<notin> set n" and "CHR ''/'' \<notin> set m" using assms(1) ns snoc by (simp_all add: plain_name_def)
    ultimately have "p = joins mem_fs q ms" by (rule last_sep)
    then show ?thesis using ns snoc unfolding below_def by auto
  qed
qed

lemma sorted_by_path: "by_path sorted_fs = by_path mem_fs"
  by (intro ext) (simp add: by_path_def sorted_below)

lemma mem_pJoin: "pJoin mem_fs p n = p @ ''/'' @ n"
  by (simp add: mem_fs_def mem_join_def)

lemma sorted_local: "local_ok sorted_fs mem_canon map_of"
proof -
  have "dEntries sorted_fs t p = dEntries sorted_fs s p"
    if "\<forall>n. plain_name n \<longrightarrow> map_of t (pJoin mem_fs p n) = map_of s (pJoin mem_fs p n)" for s t p
  proof -
    have "set (dEntries mem_fs t p) = set (dEntries mem_fs s p)" using that by (auto simp: mem_fs_def mem_names_iff)
    then show ?thesis by (simp add: sorted_fs_def)
  qed
  then show ?thesis
    using mem_local_ops mem_local_rmdir mem_above_entry
    unfolding local_ok_def sorted_fs_simps sorted_below sorted_by_path by (simp add: mem_pJoin)
qed

interpretation sorted_disk: local_disk sorted_fs mem_canon map_of mem_hidden V for V
  by unfold_locales (rule sorted_fs_laws sorted_local)+

end
