(* ===== verification/FilesTogether.thy ===== *)
theory FilesTogether
  imports FileViews
begin

text \<open>
  Operations of apps/files/src/FileOperations.cpp that keep off each other's part of the disk: each of
  them reports what it reports alone, and leaves on its part what it leaves alone.
\<close>

subsection \<open>One step of a run\<close>

abbreviation signals :: "'fs pool \<Rightarrow> (numbered_call \<times> fo_signal) set" where
  "signals P \<equiv> set (po_queue P) \<union> set (po_told P)"

definition works :: "numbered_call \<Rightarrow> ('fs \<Rightarrow> 'fs \<times> ('fs, fo_signal option) job) \<Rightarrow> 'fs pool \<Rightarrow> 'fs pool \<Rightarrow> bool" where
  "works x f P P' \<longleftrightarrow>
     (x, Call f) \<in> set (running P) \<and> (x, snd (f (po_fs P))) \<in> set (running P') \<and> po_fs P' = fst (f (po_fs P)) \<and>
     set (running P') \<subseteq> insert (x, snd (f (po_fs P))) (set (running P)) \<and> signals P' = signals P \<and> po_calls P' = po_calls P"

definition pauses :: "nat \<Rightarrow> 'fs qfs \<Rightarrow> 'fs pool \<Rightarrow> 'fs pool \<Rightarrow> bool" where
  "pauses fuel Q P P' \<longleftrightarrow>
     po_fs P' = po_fs P \<and>
     (\<forall>(x, sig) \<in> signals P'. (x, sig) \<in> signals P \<or> (x, Ended (Some sig)) \<in> set (running P)) \<and>
     (\<forall>(x, j) \<in> set (running P'). (x, j) \<in> set (running P) \<or> x \<notin> set (po_calls P) \<and> j = fo_job fuel Q (snd x))"

lemma call_number_new: "pool_sums P \<Longrightarrow> (length (po_calls P), c) \<notin> set (po_calls P)"
proof
  assume "pool_sums P" and "(length (po_calls P), c) \<in> set (po_calls P)"
  then have "length (po_calls P) \<in> set (map fst (po_calls P))" by force
  with \<open>pool_sums P\<close> show False by (simp add: pool_sums_def)
qed

lemma step_kinds:
  assumes "pool_step fuel Q P P'" and "pool_sums P"
  shows "(\<exists>x f. works x f P P') \<or> pauses fuel Q P P'"
  using assms(1)
proof (cases rule: pool_step.cases)
  case (invoke c)
  with call_number_new [OF assms(2), of c] show ?thesis
    by (auto simp: pauses_def running_def po_invoke_def Let_def)
next
  case quit
  then show ?thesis by (auto simp: pauses_def running_def po_quit_def)
next
  case internal
  then show ?thesis
  proof (cases rule: pool_internal.cases)
    case (work i f)
    let ?x = "fst (po_jobs P ! i)"
    have "(?x, Call f) \<in> set (running P)"
      using work by (metis Un_iff nth_mem prod.collapse running_def set_append)
    moreover have "set ((po_jobs P)[i := (?x, j)]) \<subseteq> insert (?x, j) (set (po_jobs P))"
      and "(?x, j) \<in> set ((po_jobs P)[i := (?x, j)])" for j
      using work(2) by (simp_all add: set_update_subset_insert set_update_memI)
    ultimately have "works ?x f P P'" by (auto simp: works_def running_def work(1) po_work_def)
    then show ?thesis by blast
  next
    case (post i sig)
    then have "(fst (po_jobs P ! i), Ended (Some sig)) \<in> set (running P)"
      by (metis Un_iff nth_mem prod.collapse running_def set_append)
    with post(1) set_remove_at_subset [of i "po_jobs P"] show ?thesis
      by (auto simp: pauses_def running_def po_post_def)
  next
    case (main_work x f)
    then have "works x f P P'" by (auto simp: works_def running_def po_main_work_def)
    then show ?thesis by blast
  next
    case (main_emit x sig)
    then show ?thesis by (auto simp: pauses_def running_def po_main_emit_def)
  next
    case deliver
    then show ?thesis by (auto simp: pauses_def running_def po_deliver_def split: list.splits)
  qed
qed

lemma accounted_distinct:
  assumes "pool_sums P"
  shows "distinct (accounted P)" and "distinct (map fst (po_calls P))"
  using assms distinct_submset unfolding pool_sums_def by (metis distinct_map distinct_upt)+

lemma one_job: "pool_sums P \<Longrightarrow> (x, j) \<in> set (running P) \<Longrightarrow> (x, j') \<in> set (running P) \<Longrightarrow> j' = j"
  using accounted_distinct(1) [of P] unfolding accounted_def by (metis distinct_append eq_key_imp_eq_value)

lemma job_not_reported: "pool_sums P \<Longrightarrow> (x, j) \<in> set (running P) \<Longrightarrow> (x, sig) \<notin> signals P"
  using accounted_distinct(1) [of P] unfolding accounted_def by (force simp: image_iff)

lemma running_called: "pool_sums P \<Longrightarrow> (x, j) \<in> set (running P) \<Longrightarrow> x \<in> set (po_calls P)"
proof -
  assume "pool_sums P" and "(x, j) \<in> set (running P)"
  then have "mset (accounted P) \<subseteq># mset (po_calls P)" and "x \<in> fst ` set (running P)"
    by (simp add: pool_sums_def, force)
  from set_mset_mono [OF this(1)] this(2) show ?thesis by (auto simp: accounted_def)
qed


subsection \<open>An operation beside others\<close>

text \<open>What is known of the operation \<open>x\<close>, which alone would give \<open>r\<close>: until it is called the part \<open>V\<close> of the
  disk is as at the start; while it runs, it is where it would be alone, on a disk that is the
  same on \<open>V\<close>; its report, and \<open>V\<close> from then on, are those of \<open>r\<close>.\<close>

definition on_its_own ::
  "('fs \<Rightarrow> path \<Rightarrow> node option) \<Rightarrow> (path \<Rightarrow> bool) \<Rightarrow> 'fs \<Rightarrow> numbered_call \<Rightarrow> 'fs \<times> fo_signal option \<Rightarrow> 'fs pool \<Rightarrow> bool"
where
  "on_its_own node_at V s x r P \<longleftrightarrow>
     (x \<notin> set (po_calls P) \<longrightarrow> agree node_at V s (po_fs P)) \<and>
     (\<forall>j. (x, j) \<in> set (running P) \<longrightarrow>
        (\<exists>u. sees (agree node_at V) u j \<and> run_job j u = r \<and> agree node_at V u (po_fs P))) \<and>
     (\<forall>sig. (x, sig) \<in> signals P \<longrightarrow> snd r = Some sig \<and> agree node_at V (fst r) (po_fs P))"

lemma agree_trans: "agree node_at V s t \<Longrightarrow> agree node_at V t u \<Longrightarrow> agree node_at V s u"
  by (simp add: agree_def)

lemma agree_refl: "agree node_at V s s"
  by (simp add: agree_def)

text \<open>A step of another operation, which leaves \<open>V\<close> alone.\<close>

lemma own_other:
  assumes "on_its_own node_at V s x r P" and "works y f P P'" and "y \<noteq> x" and "agree node_at V (po_fs P) (po_fs P')"
  shows "on_its_own node_at V s x r P'"
proof -
  have same: "po_calls P' = po_calls P" "signals P' = signals P"
    and runs: "(x, j) \<in> set (running P') \<Longrightarrow> (x, j) \<in> set (running P)" for j
    using assms(2,3) by (auto simp: works_def)
  have later: "agree node_at V u (po_fs P) \<Longrightarrow> agree node_at V u (po_fs P')" for u
    by (rule agree_trans [OF _ assms(4)])
  show ?thesis
    unfolding on_its_own_def same
  proof (intro conjI allI impI)
    fix j
    assume "(x, j) \<in> set (running P')"
    with runs assms(1) obtain u where "sees (agree node_at V) u j" "run_job j u = r" "agree node_at V u (po_fs P)"
      unfolding on_its_own_def by blast
    with later show "\<exists>u. sees (agree node_at V) u j \<and> run_job j u = r \<and> agree node_at V u (po_fs P')" by blast
  qed (use assms(1) later in \<open>auto simp: on_its_own_def\<close>)
qed

text \<open>A step of the operation itself.\<close>

lemma own_step:
  assumes "on_its_own node_at V s x r P" and "works x f P P'" and "pool_sums P" and "pool_sums P'"
  shows "on_its_own node_at V s x r P'"
proof -
  have f: "(x, Call f) \<in> set (running P)" "(x, snd (f (po_fs P))) \<in> set (running P')" "po_fs P' = fst (f (po_fs P))"
    and same: "po_calls P' = po_calls P" "signals P' = signals P"
    using assms(2) by (simp_all add: works_def)
  from assms(1) f(1) obtain u where u: "sees (agree node_at V) u (Call f)" "run_job (Call f) u = r"
      "agree node_at V u (po_fs P)" unfolding on_its_own_def by blast
  have step: "snd (f (po_fs P)) = snd (f u)" "agree node_at V (fst (f u)) (po_fs P')" "sees (agree node_at V) (fst (f u)) (snd (f u))"
    using u(1,3) f(3) by (auto elim!: sees_callE)
  have "run_job (snd (f u)) (fst (f u)) = r" using u(2) by simp
  moreover have "j = snd (f u)" if "(x, j) \<in> set (running P')" for j
    using one_job [OF assms(4) f(2) that] step(1) by simp
  moreover have "x \<in> set (po_calls P')" using running_called [OF assms(3) f(1)] same by simp
  moreover have "(x, sig) \<notin> signals P'" for sig using job_not_reported [OF assms(3) f(1)] same by simp
  ultimately show ?thesis using step unfolding on_its_own_def by blast
qed

lemma own_pause:
  assumes "on_its_own node_at V s x r P" and "pauses fuel Q P P'" and "set (po_calls P) \<subseteq> set (po_calls P')"
    and "sees (agree node_at V) s (fo_job fuel Q (snd x))" and "run_job (fo_job fuel Q (snd x)) s = r"
  shows "on_its_own node_at V s x r P'"
proof -
  have fs: "po_fs P' = po_fs P" using assms(2) by (simp add: pauses_def)
  have "\<exists>u. sees (agree node_at V) u j \<and> run_job j u = r \<and> agree node_at V u (po_fs P)" if "(x, j) \<in> set (running P')" for j
  proof (cases "(x, j) \<in> set (running P)")
    case True
    with assms(1) show ?thesis by (simp add: on_its_own_def)
  next
    case False
    with assms(2) that have "x \<notin> set (po_calls P)" and "j = fo_job fuel Q (snd x)" unfolding pauses_def by blast+
    with assms(1,4,5) show ?thesis by (auto simp: on_its_own_def)
  qed
  moreover have "snd r = Some sig \<and> agree node_at V (fst r) (po_fs P)" if "(x, sig) \<in> signals P'" for sig
  proof (cases "(x, sig) \<in> signals P")
    case True
    with assms(1) show ?thesis unfolding on_its_own_def by blast
  next
    case False
    with assms(2) that have "(x, Ended (Some sig)) \<in> set (running P)" unfolding pauses_def by blast
    with assms(1) show ?thesis by (fastforce simp: on_its_own_def)
  qed
  ultimately show ?thesis using assms(1,3) fs by (auto simp: on_its_own_def)
qed

text \<open>The other calls keep off \<open>V\<close>: they touch nothing in it, and put something in it at most where \<open>x\<close>
  and they share a folder that was there and stays.\<close>

definition undisturbed ::
  "'fs qfs \<Rightarrow> ('fs \<Rightarrow> path \<Rightarrow> node option) \<Rightarrow> (path \<Rightarrow> bool) \<Rightarrow> path set \<Rightarrow> 'fs \<Rightarrow> (path \<Rightarrow> bool) \<Rightarrow> numbered_call \<Rightarrow> 'fs pool \<Rightarrow> bool"
where
  "undisturbed Q node_at trash D s V x P \<longleftrightarrow>
     (\<forall>y \<in> set (po_calls P). y \<noteq> x \<longrightarrow> (\<forall>q. V q \<longrightarrow> \<not> touches Q trash (snd y) q \<and>
        (around Q (dests Q D (snd y)) q \<longrightarrow> node_at s q \<noteq> None \<and> \<not> touches Q trash (snd x) q)))"

lemma other_keeps_view:
  assumes "works y f P P'" and "y \<noteq> x" and "confined_pool Q node_at trash D P" and "stay node_at D (po_fs P)"
    and "leaves node_at (filled Q D P) (touched Q trash P) s (po_fs P)" and "undisturbed Q node_at trash D s V x P"
  shows "agree node_at V (po_fs P) (po_fs P')"
proof -
  have y: "y \<in> set (po_calls P)" and conf: "confined_job Q node_at trash D (snd y) (Call f)"
    using assms(1,3) by (auto simp: works_def confined_pool_def)
  have l: "leaves node_at (around Q (dests Q D (snd y))) (touches Q trash (snd y)) (po_fs P) (po_fs P')"
    using confined_step [of Q node_at trash D "snd y" f "po_fs P"] conf assms(1,4) by (simp add: works_def)
  have "node_at (po_fs P') q = node_at (po_fs P) q" if V: "V q" for q
  proof (rule ccontr)
    assume changed: "node_at (po_fs P') q \<noteq> node_at (po_fs P) q"
    have no: "\<not> touches Q trash (snd z) q" if "z \<in> set (po_calls P)" "z \<noteq> x" for z
      using assms(6) that V unfolding undisturbed_def by blast
    from l changed no [OF y assms(2)] have free: "node_at (po_fs P) q = None" "around Q (dests Q D (snd y)) q"
      unfolding leaves_def by blast+
    with assms(2,6) y V have there: "node_at s q \<noteq> None" "\<not> touches Q trash (snd x) q"
      unfolding undisturbed_def by blast+
    with free(1) assms(5) have "touched Q trash P q" unfolding leaves_def by metis
    with no there(2) show False by blast
  qed
  then show ?thesis by (simp add: agree_def)
qed

lemma undisturbed_before: "undisturbed Q node_at trash D s V x P' \<Longrightarrow> set (po_calls P) \<subseteq> set (po_calls P') \<Longrightarrow> undisturbed Q node_at trash D s V x P"
  unfolding undisturbed_def by blast

lemma runs_on_its_own:
  assumes "qfs_laws Q canon node_at hidden" and "rename_confined Q canon node_at" and "gio_ok Q canon node_at trash"
    and "(pool_step fuel Q)\<^sup>*\<^sup>* (init_pool s) P" and "\<forall>y \<in> set (po_calls P). canon_paths Q canon (snd y)"
    and "stay node_at D s" and "\<forall>d \<in> D. \<not> touched Q trash P d"
    and "sees (agree node_at V) s (fo_job fuel Q (snd x))" and "undisturbed Q node_at trash D s V x P"
  shows "on_its_own node_at V s x (run_job (fo_job fuel Q (snd x)) s) P"
  using assms(4,5,7,9)
proof (induction rule: rtranclp_induct)
  case base
  show ?case by (simp add: on_its_own_def init_pool_def running_def agree_refl)
next
  case (step P P')
  note grow = calls_grow [OF step.hyps(2)]
  have und: "undisturbed Q node_at trash D s V x P" using step.prems(3) grow by (rule undisturbed_before)
  have own: "on_its_own node_at V s x (run_job (fo_job fuel Q (snd x)) s) P"
    using step.IH step.prems(1,2) grow und by blast
  have sums: "pool_sums P" "pool_sums P'"
    using pool_run_sums [OF step.hyps(1)] pool_run_sums [OF rtranclp.rtrancl_into_rtrancl [OF step.hyps]] by blast+
  have conf: "confined_pool Q node_at trash D P" "leaves node_at (filled Q D P) (touched Q trash P) s (po_fs P)"
      "stay node_at D (po_fs P)"
    using confined_run [OF assms(1-3) step.hyps(1) _ assms(6)] step.prems(1,2) grow by blast+
  show ?case using step_kinds [OF step.hyps(2) sums(1)]
  proof
    assume "\<exists>y f. works y f P P'"
    then obtain y f where w: "works y f P P'" by blast
    show ?thesis
    proof (cases "y = x")
      case True
      with w own sums show ?thesis by (blast intro: own_step)
    next
      case False
      with own w show ?thesis using other_keeps_view [OF w False conf(1,3,2) und] by (rule own_other)
    qed
  next
    assume "pauses fuel Q P P'"
    with own show ?thesis using grow assms(8) refl by (rule own_pause)
  qed
qed

text \<open>
  C20. Operations on different parts of the disk do not see each other. Take any run of the thread pool and
  any call in it that is not a move or a delete to the trash: if the other calls keep off what
  it sees (they may add their own things to folders they share), it reports, whatever the
  interleaving, what its function gives on the disk at the start, and leaves on its part of the
  disk exactly what the function leaves. So what is shown of a copy, a delete, a renaming or a
  duplicate alone holds of it among others.
\<close>

theorem operations_independent:
  assumes "qfs_laws Q canon node_at hidden" and "rename_confined Q canon node_at" and "gio_ok Q canon node_at trash"
    and "local_ok Q canon node_at"
    and "(pool_step fuel Q)\<^sup>*\<^sup>* (init_pool s) P" and "\<forall>y \<in> set (po_calls P). canon_paths Q canon (snd y)"
    and "\<forall>d \<in> D. node_at s d = Some Dir \<and> (\<forall>y \<in> set (po_calls P). \<not> touches Q trash (snd y) d)"
    and "((i, c), sig) \<in> set (po_told P)" and "\<not> bins c" and "undisturbed Q node_at trash D s (view Q s c) (i, c) P"
  shows "\<exists>s'. fo_dispatch fuel Q c s = Some (s', sig) \<and> (\<forall>q. view Q s c q \<longrightarrow> node_at (po_fs P) q = node_at s' q)"
proof -
  have "set (map fst (po_told P)) \<subseteq> set (po_calls P)"
    using pool_run_sums [OF assms(5)] unfolding pool_sums_def accounted_def by (metis Un_subset_iff set_append set_mset_mono set_mset_mset)
  then have "canon_paths Q canon c" using assms(6,8) by force
  then have sees: "sees (agree node_at (view Q s c)) s (fo_job fuel Q (snd (i, c)))"
    using local_disk.call_sees [OF local_disk.intro [OF assms(1,4)]] assms(9) by simp
  have "on_its_own node_at (view Q s c) s (i, c) (run_job (fo_job fuel Q c) s) P"
    using runs_on_its_own [OF assms(1-3,5,6) _ _ sees assms(10)] assms(7) by simp
  then have r: "snd (run_job (fo_job fuel Q c) s) = Some sig"
      "agree node_at (view Q s c) (fst (run_job (fo_job fuel Q c) s)) (po_fs P)"
    using assms(8) by (auto simp: on_its_own_def)
  with job_alone_parts [of fuel Q c s] show ?thesis
    by (cases "fo_dispatch fuel Q c s") (auto simp: agree_def)
qed

text \<open>Two copies into the same folder, call by call in turn.\<close>

definition shared_disk :: mem where
  "shared_disk = [([], Dir), (''/a'', File ''x''), (''/b'', File ''y''), (''/d'', Dir)]"

definition shared_worked :: "mem pool" where
  "shared_worked = fold advance [0, 1, 0, 1, 1, 0, 1, 0]
     (po_invoke 2 sorted_fs (CallCopy ''/b'' ''/d'') (po_invoke 2 sorted_fs (CallCopy ''/a'' ''/d'') (init_pool shared_disk)))"

definition shared_pool :: "mem pool" where
  "shared_pool = po_deliver (po_deliver shared_worked)"

lemma sorted_names: "pFileName mem_fs ''/a'' = ''a''" "pFileName mem_fs ''/b'' = ''b''"
  by code_simp+

lemma mem_resolves:
  "resolveDestination sorted_fs s ''/a'' ''/d'' = (if map_of s ''/d'' = Some Dir then ''/d/a'' else ''/d'')"
  "resolveDestination sorted_fs s ''/b'' ''/d'' = (if map_of s ''/d'' = Some Dir then ''/d/b'' else ''/d'')"
  by (simp_all add: resolveDestination_def sorted_names mem_pJoin) (simp_all add: mem_fs_def)

lemma mem_steps:
  "fExists mem_fs s p = (map_of s p \<noteq> None)" "fIsDir mem_fs s p = (map_of s p = Some Dir)"
  "fCopy mem_fs s p q = (case map_of s p of
     Some (File c) \<Rightarrow> if map_of s q = None then (True, (q, File c) # s) else (False, s) | _ \<Rightarrow> (False, s))"
  by (simp_all add: mem_fs_def)

lemma shared_worked_is:
  "shared_worked = \<lparr>po_fs = (''/d/a'', File ''x'') # (''/d/b'', File ''y'') # shared_disk, po_alive = True, po_jobs = [],
    po_main = None,
    po_queue = [((1, CallCopy ''/b'' ''/d''), CopyFinished True []), ((0, CallCopy ''/a'' ''/d''), CopyFinished True [])],
    po_told = [], po_calls = [(0, CallCopy ''/a'' ''/d''), (1, CallCopy ''/b'' ''/d'')], po_posted_to_dead = False\<rparr>"
  by (simp add: shared_worked_def shared_disk_def advance_def pool_moves init_pool_def Let_def remove_at_def ask_def act_def
      told_def kind_of_def copy_as_job_def mem_resolves mem_steps)

lemma shared_pool_is:
  "shared_pool = \<lparr>po_fs = (''/d/a'', File ''x'') # (''/d/b'', File ''y'') # shared_disk, po_alive = True, po_jobs = [],
    po_main = None, po_queue = [],
    po_told = [((1, CallCopy ''/b'' ''/d''), CopyFinished True []), ((0, CallCopy ''/a'' ''/d''), CopyFinished True [])],
    po_calls = [(0, CallCopy ''/a'' ''/d''), (1, CallCopy ''/b'' ''/d'')], po_posted_to_dead = False\<rparr>"
  by (simp add: shared_pool_def shared_worked_is po_deliver_def)

lemma shared_pool_reached: "(pool_step 2 sorted_fs)\<^sup>*\<^sup>* (init_pool shared_disk) shared_pool"
proof -
  have "(pool_step 2 sorted_fs)\<^sup>*\<^sup>* (init_pool shared_disk) shared_worked"
    unfolding shared_worked_def
    by (intro pool_intros rtranclp.rtrancl_refl) (simp_all add: init_pool_def po_invoke_def Let_def)
  then show ?thesis unfolding shared_pool_def
    by (intro pool_intros) (simp_all add: shared_worked_is po_deliver_def)
qed

lemma sorted_rename: "rename_confined sorted_fs mem_canon map_of"
  using mem_rename unfolding rename_confined_def sorted_fs_simps sorted_below .

lemma sorted_gio: "gio_ok sorted_fs mem_canon map_of (\<lambda>q. False)"
  using mem_gio unfolding gio_ok_def sorted_fs_simps sorted_below .

lemma below_root: "below mem_fs q [] \<Longrightarrow> q = []"
  by (auto dest: joins_mem_prefix)

lemma above_file: "below mem_fs q ''/a'' \<Longrightarrow> q = ''/a'' \<or> q = []"
  using mem_above_entry [of "''a''" q "[]"] below_root by (auto simp: plain_name_def)

lemma above_folder: "below mem_fs q ''/d'' \<Longrightarrow> q = ''/d'' \<or> q = []"
  using mem_above_entry [of "''d''" q "[]"] below_root by (auto simp: plain_name_def)

lemma above_copy: "below mem_fs q ''/d/a'' \<Longrightarrow> q = ''/d/a'' \<or> q = ''/d'' \<or> q = []"
  using mem_above_entry [of "''a''" q "''/d''"] above_folder by (auto simp: plain_name_def)

lemma shared_view:
  assumes "view sorted_fs shared_disk (CallCopy ''/a'' ''/d'') q" and "around sorted_fs {''/d/b''} q"
  shows "q = [] \<or> q = ''/d''"
proof -
  from assms(2) obtain v w where r: "''/d/b'' @ v = q @ w"
    by (auto simp: around_def sorted_below dest!: joins_mem_prefix)
  from assms(1) consider "below mem_fs ''/a'' q" | "below mem_fs q ''/a''" | "below mem_fs ''/d/a'' q"
    | "below mem_fs q ''/d/a''" | "q = ''/d''"
    by (auto simp: view_def mem_resolves shared_disk_def sorted_by_path by_path_def)
  then show ?thesis
  proof cases
    case 2
    with above_file [of q] r show ?thesis by auto
  next
    case 4
    with above_copy [of q] r show ?thesis by auto
  qed (use r in \<open>auto dest!: joins_mem_prefix\<close>)
qed

theorem operations_independent_witness:
  "\<exists>s'. fo_dispatch 2 sorted_fs (CallCopy ''/a'' ''/d'') shared_disk = Some (s', CopyFinished True []) \<and>
     (\<forall>q. view sorted_fs shared_disk (CallCopy ''/a'' ''/d'') q \<longrightarrow> map_of (po_fs shared_pool) q = map_of s' q)"
proof (rule operations_independent [OF sorted_fs_laws sorted_rename sorted_gio sorted_local shared_pool_reached,
      where i = 0 and D = "{''/d''}"])
  show "\<forall>y \<in> set (po_calls shared_pool). canon_paths sorted_fs mem_canon (snd y)"
    by (simp add: shared_pool_is mem_canon_def mem_pJoin)
  show "\<forall>d \<in> {''/d''}. map_of shared_disk d = Some Dir \<and>
      (\<forall>y \<in> set (po_calls shared_pool). \<not> touches sorted_fs (\<lambda>q. False) (snd y) d)"
    by (simp add: shared_pool_is shared_disk_def touches_def owned_def)
  show "((0, CallCopy ''/a'' ''/d''), CopyFinished True []) \<in> set (po_told shared_pool)" and "\<not> bins (CallCopy ''/a'' ''/d'')"
    by (simp_all add: shared_pool_is)
  show "undisturbed sorted_fs map_of (\<lambda>q. False) {''/d''} shared_disk (view sorted_fs shared_disk (CallCopy ''/a'' ''/d''))
      (0, CallCopy ''/a'' ''/d'') shared_pool"
    using shared_view
    by (auto simp: undisturbed_def shared_pool_is touches_def owned_def into_dests_def sorted_names mem_pJoin shared_disk_def)
qed

end
