(* ===== verification/Programs.thy ===== *)
theory Programs
  imports Startup "HOL-Library.AList"
begin

text \<open>
  The main functions of the six programs (desktop/shell, desktop/compositor, desktop/greeter,
  desktop/settings, apps/files and apps/notepad, src/main.cpp of each), statement by statement: the
  objects on the stack of main, what the QML engine is given, the guard against a QML module
  that cannot be loaded, and the end, when the objects are destroyed in the opposite order.
  Log output is left out, and so are the statements modelled elsewhere (the environment in
  \<^theory_text>\<open>Startup\<close>, the wiring of the file manager in \<^theory_text>\<open>FsWatcher\<close>).
\<close>

subsection \<open>The statements\<close>

text \<open>What a context property stands for: an object, or a value computed when it is set.\<close>

datatype bound = Object string | Value

datatype main_stmt =
    ApplicationName string
  | ApplicationDisplayName string
  | OrganizationName string
  | IconTheme string string
  | QuickStyle string
  | Local string string
  | Static string string
  | ImageProvider string string
  | ContextProperty string bound
  | ExitOnCreationFailed
  | LoadFromModule string string

record process =
  pr_application :: string
  pr_display_name :: string
  pr_organization :: string
  pr_icon_theme :: "(string \<times> string) option"
  pr_style :: "string option"
  pr_locals :: "(string \<times> string) list"
  pr_statics :: "(string \<times> string) list"
  pr_providers :: "(string \<times> string) list"
  pr_context :: "(string \<times> bound) list"
  pr_guarded :: bool
  pr_module :: "(string \<times> string \<times> (string \<times> bound) list) option"

definition new_process :: process where
  "new_process = \<lparr>pr_application = [], pr_display_name = [], pr_organization = [], pr_icon_theme = None, pr_style = None,
     pr_locals = [], pr_statics = [], pr_providers = [], pr_context = [], pr_guarded = False, pr_module = None\<rparr>"

text \<open>The display name is the application name until it is set. A module is loaded with the context as
  it is at that moment.\<close>

fun pr_exec :: "main_stmt \<Rightarrow> process \<Rightarrow> process" where
  "pr_exec (ApplicationName n) p =
     p\<lparr>pr_application := n, pr_display_name := (if pr_display_name p = [] then n else pr_display_name p)\<rparr>"
| "pr_exec (ApplicationDisplayName n) p = p\<lparr>pr_display_name := n\<rparr>"
| "pr_exec (OrganizationName n) p = p\<lparr>pr_organization := n\<rparr>"
| "pr_exec (IconTheme n fallback) p = p\<lparr>pr_icon_theme := Some (n, fallback)\<rparr>"
| "pr_exec (QuickStyle n) p = p\<lparr>pr_style := Some n\<rparr>"
| "pr_exec (Local x cls) p = p\<lparr>pr_locals := pr_locals p @ [(x, cls)]\<rparr>"
| "pr_exec (Static x cls) p = p\<lparr>pr_statics := pr_statics p @ [(x, cls)]\<rparr>"
| "pr_exec (ImageProvider n cls) p = p\<lparr>pr_providers := AList.update n cls (pr_providers p)\<rparr>"
| "pr_exec (ContextProperty n b) p = p\<lparr>pr_context := AList.update n b (pr_context p)\<rparr>"
| "pr_exec ExitOnCreationFailed p = p\<lparr>pr_guarded := True\<rparr>"
| "pr_exec (LoadFromModule uri name) p = p\<lparr>pr_module := Some (uri, name, pr_context p)\<rparr>"

definition run_main :: "main_stmt list \<Rightarrow> process" where
  "run_main stmts = fold pr_exec stmts new_process"

subsection \<open>The programs\<close>

definition shell_main :: "main_stmt list" where
  "shell_main =
     [Local ''app'' ''QGuiApplication'', ApplicationName ''nira-shell'', ApplicationDisplayName ''NiraOS Shell'',
      OrganizationName ''NiraOS'', IconTheme ''breeze-dark'' ''hicolor'',
      Local ''aiClient'' ''AiClient'', Local ''processLauncher'' ''ProcessLauncher'', Local ''appModel'' ''AppModel'',
      Local ''taskbarModel'' ''TaskbarModel'', Local ''desktopIconModel'' ''DesktopIconModel'',
      Local ''trashIconState'' ''TrashIconState'', Local ''notificationClient'' ''NotificationClient'',
      Local ''wallpaperModel'' ''WallpaperModel'', Local ''volumeControl'' ''VolumeControl'',
      Local ''powerStatus'' ''PowerStatus'', Local ''workspaceController'' ''WorkspaceController'',
      Local ''engine'' ''QQmlApplicationEngine'', ImageProvider ''icon'' ''ThemeIconProvider'',
      ContextProperty ''aiClient'' (Object ''aiClient''), ContextProperty ''processLauncher'' (Object ''processLauncher''),
      Local ''filteredAppModel'' ''FilteredAppModel'', ContextProperty ''appModel'' (Object ''filteredAppModel''),
      ContextProperty ''taskbarModel'' (Object ''taskbarModel''),
      ContextProperty ''desktopIconModel'' (Object ''desktopIconModel''),
      ContextProperty ''trashIconState'' (Object ''trashIconState''),
      ContextProperty ''notificationClient'' (Object ''notificationClient''),
      ContextProperty ''wallpaperModel'' (Object ''wallpaperModel''),
      ContextProperty ''volumeControl'' (Object ''volumeControl''), ContextProperty ''powerStatus'' (Object ''powerStatus''),
      ContextProperty ''workspaceController'' (Object ''workspaceController''),
      Static ''metrics'' ''NiraDesktopMetrics'', ContextProperty ''desktopMetrics'' (Object ''metrics''),
      ExitOnCreationFailed, LoadFromModule ''NiraOS'' ''Main'']"

definition files_main :: "main_stmt list" where
  "files_main =
     [Local ''app'' ''QGuiApplication'', ApplicationName ''nira-files'', ApplicationDisplayName ''NiraOS Files'',
      OrganizationName ''NiraOS'', IconTheme ''breeze-dark'' ''hicolor'', QuickStyle ''Fusion'',
      Local ''fileModel'' ''FileModel'', Local ''fileOperations'' ''FileOperations'',
      Local ''fileSystemWatcher'' ''FileSystemWatcher'', Local ''searchIndexer'' ''SearchIndexer'',
      Local ''storageManager'' ''StorageManager'', Local ''engine'' ''QQmlApplicationEngine'',
      ImageProvider ''thumbnail'' ''ThumbnailProvider'', ImageProvider ''icon'' ''ThemeIconProvider'',
      ContextProperty ''fileModel'' (Object ''fileModel''), ContextProperty ''fileOperations'' (Object ''fileOperations''),
      ContextProperty ''fileSystemWatcher'' (Object ''fileSystemWatcher''),
      ContextProperty ''searchIndexer'' (Object ''searchIndexer''),
      ContextProperty ''storageManager'' (Object ''storageManager''),
      Static ''metrics'' ''NiraDesktopMetrics'', ContextProperty ''desktopMetrics'' (Object ''metrics''),
      ContextProperty ''standardPaths'' Value, ExitOnCreationFailed, LoadFromModule ''NiraFiles'' ''Main'']"

definition notepad_main :: "main_stmt list" where
  "notepad_main =
     [Local ''app'' ''QGuiApplication'', ApplicationName ''nira-notepad'', ApplicationDisplayName ''Nira Notepad'',
      OrganizationName ''NiraOS'', Local ''fileHelper'' ''FileDialogHelper'', Local ''engine'' ''QQmlApplicationEngine'',
      ImageProvider ''icon'' ''ThemeIconProvider'', ContextProperty ''fileDialogHelper'' (Object ''fileHelper''),
      ContextProperty ''initialFile'' Value, ExitOnCreationFailed, LoadFromModule ''NiraNotepad'' ''Main'']"

definition settings_main :: "main_stmt list" where
  "settings_main =
     [Local ''app'' ''QGuiApplication'', ApplicationName ''nira-settings'', ApplicationDisplayName ''NiraOS Settings'',
      Local ''settingsClient'' ''SettingsClient'', Local ''engine'' ''QQmlApplicationEngine'',
      ImageProvider ''icon'' ''ThemeIconProvider'', ContextProperty ''settingsClient'' (Object ''settingsClient''),
      ExitOnCreationFailed, LoadFromModule ''NiraSettings'' ''Main'']"

definition greeter_main :: "main_stmt list" where
  "greeter_main =
     [Local ''app'' ''QGuiApplication'', ApplicationName ''nira-greeter'', ApplicationDisplayName ''NiraOS Greeter'',
      Local ''greeterIPC'' ''GreeterIPC'', Local ''userModel'' ''UserModel'', Local ''engine'' ''QQmlApplicationEngine'',
      ContextProperty ''greeterIPC'' (Object ''greeterIPC''), ContextProperty ''userModel'' (Object ''userModel''),
      ExitOnCreationFailed, LoadFromModule ''NiraGreeter'' ''Main'']"

definition compositor_main :: "main_stmt list" where
  "compositor_main =
     [Local ''app'' ''QGuiApplication'', ApplicationName ''NiraCompositor'',
      Local ''contextExporter'' ''ContextExporter'', Local ''wallpaperWatcher'' ''WallpaperWatcher'',
      Local ''wmDBus'' ''WindowManagerDBus'', Local ''engine'' ''QQmlApplicationEngine'',
      ContextProperty ''contextExporter'' (Object ''contextExporter''),
      ContextProperty ''wallpaperWatcher'' (Object ''wallpaperWatcher''), ContextProperty ''wmDBus'' (Object ''wmDBus''),
      Static ''metrics'' ''NiraDesktopMetrics'', ContextProperty ''desktopMetrics'' (Object ''metrics''),
      ContextProperty ''outputScaleFactor'' Value, ExitOnCreationFailed, LoadFromModule ''NiraCompositor'' ''Main'']"

definition programs :: "main_stmt list list" where
  "programs = [shell_main, files_main, notepad_main, settings_main, greeter_main, compositor_main]"

lemmas program_defs = programs_def shell_main_def files_main_def notepad_main_def settings_main_def greeter_main_def
  compositor_main_def run_main_def new_process_def

subsection \<open>Start and end\<close>

text \<open>The code that main returns: the one QML quits with, or 1 if the module cannot be loaded. A program
  without the guard would run on without a window.\<close>

definition exit_code :: "process \<Rightarrow> bool \<Rightarrow> int \<Rightarrow> int option" where
  "exit_code p loads quit_code =
     (if pr_module p = None then None else if loads then Some quit_code else if pr_guarded p then Some 1 else None)"

text \<open>Objects on the stack are destroyed in the opposite order; static ones after main.\<close>

definition destroyed :: "process \<Rightarrow> string list" where
  "destroyed p = rev (map fst (pr_locals p))"

definition outlives_engine :: "process \<Rightarrow> string \<Rightarrow> bool" where
  "outlives_engine p x \<longleftrightarrow>
     x \<in> fst ` set (pr_statics p) \<or> x \<in> set (takeWhile (\<lambda>y. y \<noteq> ''engine'') (map fst (pr_locals p)))"

definition provided :: "process \<Rightarrow> (string \<times> bound) list" where
  "provided p = (case pr_module p of None \<Rightarrow> [] | Some (uri, name, context) \<Rightarrow> context)"

definition class_of :: "process \<Rightarrow> string \<times> bound \<Rightarrow> string \<times> string option" where
  "class_of p c = (fst c, case snd c of Object x \<Rightarrow> map_of (pr_locals p @ pr_statics p) x | Value \<Rightarrow> None)"

text \<open>Every program guards its module, so main returns whatever happens; every context property is set
  before the module is loaded and stands for an object that exists.\<close>

definition starts_well :: "process \<Rightarrow> bool" where
  "starts_well p \<longleftrightarrow> pr_module p \<noteq> None \<and> pr_guarded p \<and> provided p = pr_context p \<and>
     list_all (\<lambda>c. snd c = Value \<or> snd (class_of p c) \<noteq> None) (provided p)"

lemma programs_start_well: "list_all (starts_well \<circ> run_main) programs"
  by code_simp

lemma programs_exit: "p \<in> set programs \<Longrightarrow> exit_code (run_main p) loads q = Some (if loads then q else 1)"
  using programs_start_well by (auto simp: list_all_iff starts_well_def exit_code_def)

text \<open>The objects and their classes are those of \<^theory_text>\<open>Startup\<close>.\<close>

definition context_classes :: "main_stmt list \<Rightarrow> (string \<times> string option) list" where
  "context_classes p = map (class_of (run_main p)) (provided (run_main p))"

lemma contexts_agree:
  "context_classes shell_main = map (\<lambda>(n, c). (n, Some c)) shell_context"
  "context_classes greeter_main = map (\<lambda>(n, c). (n, Some c)) greeter_context"
  "context_classes settings_main = map (\<lambda>(n, c). (n, Some c)) settings_context"
  "context_classes files_main =
     map (\<lambda>(n, c). (n, if n = ''standardPaths'' then None else Some c)) files_context"
  "context_classes compositor_main =
     map (\<lambda>(n, c). (n, if n = ''outputScaleFactor'' then None else Some c)) compositor_context"
  by code_simp+

text \<open>The objects QML is given are destroyed after the engine, so that no binding ever reads one that is
  gone, except the model of the launcher, which main of the shell declares after the engine.\<close>

definition short_lived :: "process \<Rightarrow> (string \<times> bound) list" where
  "short_lived p = filter (\<lambda>c. case snd c of Object x \<Rightarrow> \<not> outlives_engine p x | Value \<Rightarrow> False) (provided p)"

lemma objects_outlive_engine:
  "map (short_lived \<circ> run_main) programs = [[(''appModel'', Object ''filteredAppModel'')], [], [], [], [], []]"
  by code_simp

lemma launcher_model_dies_first:
  "(''appModel'', Object ''filteredAppModel'') \<in> set (provided (run_main shell_main)) \<and>
   \<not> outlives_engine (run_main shell_main) ''filteredAppModel'' \<and>
   take 2 (destroyed (run_main shell_main)) = [''filteredAppModel'', ''engine'']"
  by code_simp

text \<open>\<open>QSettings\<close> without arguments is the file of the organization and the application. The two programs
  that keep settings, the shell (the wallpaper) and the notepad (the recent files), do not share one.\<close>

definition settings_scope :: "process \<Rightarrow> string \<times> string" where
  "settings_scope p = (pr_organization p, pr_application p)"

lemma settings_scopes:
  "map (settings_scope \<circ> run_main) programs =
     [(''NiraOS'', ''nira-shell''), (''NiraOS'', ''nira-files''), (''NiraOS'', ''nira-notepad''), ([], ''nira-settings''),
      ([], ''nira-greeter''), ([], ''NiraCompositor'')]"
  by code_simp

end
