(* ===== verification/TrashFlow.thy ===== *)
theory TrashFlow
  imports FileReports Tray Startup
begin

text \<open>
  The trash across programs: a file that the file manager deletes (apps/files/src/FileOperations.cpp) is
  kept in the trash directory, the tray of the shell (desktop/shell/src/TrashIconState.cpp) counts it
  at the next notification of its watcher, and the side bar of the file manager leads to it.
\<close>

abbreviation trash_dir :: "'fs qfs \<Rightarrow> path" where
  "trash_dir Q \<equiv> dataHome Q @ ''/Trash/files''"

text \<open>The names tried in the trash are names of entries: \<open>QDir::absoluteFilePath\<close> of the directory.\<close>

definition trash_names_ok :: "'fs qfs \<Rightarrow> path \<Rightarrow> bool" where
  "trash_names_ok Q p \<longleftrightarrow>
     (\<forall>i. plain_name (trash_candidate Q p i) \<and> pJoin Q (trash_dir Q) (trash_candidate Q p i) = trash_dir Q @ ''/'' @ trash_candidate Q p i)"

definition stored :: "'fs qfs \<Rightarrow> ('fs \<Rightarrow> path \<Rightarrow> node option) \<Rightarrow> 'fs \<Rightarrow> string \<Rightarrow> bool" where
  "stored Q node_at s c \<longleftrightarrow> (\<exists>n. plain_name n \<and> node_at s (pJoin Q (trash_dir Q) n) = Some (File c))"

lemma trash_target_entry: "trash_names_ok Q p \<Longrightarrow> \<exists>n. plain_name n \<and> trash_target Q p s = pJoin Q (trash_dir Q) n"
proof -
  obtain k where "trash_target Q p s = trash_dir Q @ ''/'' @ trash_candidate Q p (0 + k)"
    using probe_is_candidate [of 10000 "fExists Q s" "\<lambda>i. trash_dir Q @ ''/'' @ trash_candidate Q p i" 0 "[]"]
    by (auto simp: trash_target_def)
  moreover assume "trash_names_ok Q p"
  ultimately show ?thesis by (auto simp: trash_names_ok_def intro!: exI [of _ "trash_candidate Q p (0 + k)"])
qed

text \<open>What \<open>gio trash\<close> does with a file is its own affair: for one of another file system it uses the trash
  there. When it is missing or fails, the program moves the file to the trash directory itself.\<close>

lemma moveToTrash_stores:
  assumes laws: "qfs_laws Q canon node_at hidden" and gio: "gio_ok Q canon node_at trash"
    and no_gio: "fst (gioTrash Q s p) \<noteq> GioExited 0"
    and cp: "canon p" and paths: "trash_paths_ok Q canon p" and names: "trash_names_ok Q p"
    and node: "node_at s p = Some (File c)"
    and run: "moveToTrash fuel Q p s = Some (True, s')"
  shows "stored Q node_at s' c"
proof -
  obtain g s1 where g: "gioTrash Q s p = (g, s1)" by fastforce
  have apart: "\<not> below Q p (trash_dir Q)" and ct: "canon (trash_dir Q)" using paths by (simp_all add: trash_paths_ok_def)
  obtain b s2 where mk: "dMkpath Q s1 (trash_dir Q) = (b, s2)" by fastforce
  let ?x = "trash_target Q p s2"
  obtain ok s3 where rn: "fRename Q s2 p ?x = (ok, s3)" by fastforce
  have cx: "canon ?x" using paths by (rule trash_target_canon)
  have "node_at s1 p = Some (File c) \<or> node_at s1 p = None" using g gio cp node by (metis gio_ok_def)
  with qfs_mkpath(2) [OF laws ct mk, of p] apart
  have s2: "node_at s2 p = Some (File c) \<or> node_at s2 p = None" by metis
  have "node_at s' ?x = Some (File c)"
  proof (cases ok)
    case True
    with run g mk rn no_gio have "s' = s3" by (simp add: moveToTrash_def)
    with True rn s2 qfs_rename(1,2) [OF laws cp cx, of s2 s3] show ?thesis by auto
  next
    case False
    with rn qfs_rename(3) [OF laws cp cx] have s3: "node_at s3 = node_at s2" by simp
    then have no_dir: "\<not> fIsDir Q s3 p" using s2 qfs_queries(2) [OF laws cp] by auto
    with run g mk rn no_gio False obtain s4 where c4: "fCopy Q s3 p ?x = (True, s4)"
      and rest: "performRecursiveDelete fuel Q p s4 = Some (True, s')"
      by (auto simp: moveToTrash_def split: prod.splits bool.splits)
    from qfs_copy(1) [OF laws cp cx c4] s3 s2
    have s4: "node_at s4 = (node_at s3)(?x \<mapsto> File c)" and "node_at s3 p = Some (File c)"
      and "node_at s3 ?x = None" by auto
    then have "\<not> dExists Q s4 p" using qfs_queries(3) [OF laws cp] by auto
    with rest have "s' = s4" by (cases fuel) simp_all
    with s4 show ?thesis by simp
  qed
  with trash_target_entry [OF names] show ?thesis unfolding stored_def by metis
qed

text \<open>Disks on which every entry lies in a directory.\<close>

definition tree_at :: "'fs qfs \<Rightarrow> ('fs \<Rightarrow> path \<Rightarrow> node option) \<Rightarrow> 'fs \<Rightarrow> bool" where
  "tree_at Q node_at s \<longleftrightarrow> (\<forall>d n. plain_name n \<longrightarrow> node_at s (pJoin Q d n) \<noteq> None \<longrightarrow> node_at s d = Some Dir)"

text \<open>The tray's view of the same disk; \<open>entries\<close> counts an entry list with hidden entries.\<close>

definition tray_fs :: "'fs qfs \<Rightarrow> ('fs \<Rightarrow> path \<Rightarrow> nat) \<Rightarrow> ('fs \<Rightarrow> path \<Rightarrow> int \<times> 'fs) \<Rightarrow> 'fs trash_fs" where
  "tray_fs Q entries rm =
     \<lparr>tf_exists = dExists Q, tf_entries = entries, tf_mkpath = (\<lambda>s p. snd (dMkpath Q s p)), tf_rm = rm\<rparr>"

definition counts_entries :: "'fs qfs \<Rightarrow> ('fs \<Rightarrow> path \<Rightarrow> node option) \<Rightarrow> ('fs \<Rightarrow> path \<Rightarrow> nat) \<Rightarrow> bool" where
  "counts_entries Q node_at entries \<longleftrightarrow>
     (\<forall>s p. entries s p = 0 \<longleftrightarrow> (\<forall>n. plain_name n \<longrightarrow> node_at s (pJoin Q p n) = None))"

text \<open>
  C38. What the file manager puts into the trash can be seen and fetched back. If \<open>gio\<close> is missing or
  fails, a file that a delete, not for good, reports as removed lies in the trash directory with its
  contents, also if the trash directory had to be made. As soon as the tray of the shell is told of
  the change, and is not reloading just then, it shows a trash that is not empty and the number of
  its entries. The trash place of the file manager's side bar leads to that directory, whose
  listing has the file unless its name there is a hidden one. (On a disk where every entry lies in a
  directory; what \<open>gio\<close> itself does with a file is left open.)
\<close>

theorem trashed_file_shows:
  assumes "qfs_laws Q canon node_at hidden" and "gio_ok Q canon node_at trash"
    and "fst (gioTrash Q s p) \<noteq> GioExited 0"
    and "canon p" and "trash_paths_ok Q canon p" and "trash_names_ok Q p" and "node_at s p = Some (File c)"
    and "delete_op fuel Q p False s = Some (s', DeleteFinished True err)" and "tree_at Q node_at s'"
    and "counts_entries Q node_at entries" and "tr_trashPath t = trash_dir Q" and "\<not> tr_reloading t"
    and "writable GenericDataLocation = dataHome Q"
  shows "let t' = fst (onTrashChanged (tray_fs Q entries rm) s' t) in
    \<not> isEmpty t' \<and> tr_itemCount t' = int (entries s' (trash_dir Q)) \<and>
    (\<exists>n dir. map_of (standardPaths writable) ''trash'' = Some (VStr dir) \<and> node_at s' (pJoin Q dir n) = Some (File c) \<and>
      (n \<in> set (dEntries Q s' dir) \<or> hidden n))"
proof -
  have ct: "canon (trash_dir Q)" using assms(5) by (simp add: trash_paths_ok_def)
  have "fExists Q s p" using qfs_queries(1) [OF assms(1,4)] assms(7) by simp
  with assms(8) have "moveToTrash fuel Q p s = Some (True, s')"
    by (auto simp: delete_op_def performDelete_def split: option.splits)
  from moveToTrash_stores [OF assms(1-7) this]
  obtain n where n: "plain_name n" "node_at s' (pJoin Q (trash_dir Q) n) = Some (File c)" unfolding stored_def by blast
  then have dir: "node_at s' (trash_dir Q) = Some Dir" using assms(9) unfolding tree_at_def by (metis option.distinct(1))
  have "n \<in> set (dEntries Q s' (trash_dir Q)) \<or> hidden n" using qfs_queries(4) [OF assms(1) ct] n by simp
  moreover have "map_of (standardPaths writable) ''trash'' = Some (VStr (trash_dir Q))"
    using assms(13) by (simp add: standardPaths_def)
  moreover have "entries s' (trash_dir Q) \<noteq> 0" using assms(10) n unfolding counts_entries_def by (metis option.distinct(1))
  moreover have "dExists Q s' (trash_dir Q)" using qfs_queries(3) [OF assms(1) ct] dir by simp
  ultimately show ?thesis
    using trash_count [of "tray_fs Q entries rm" s' t] assms(11,12) n
    by (auto simp: onTrashChanged_def tray_fs_def Let_def)
qed

definition demo_home :: mem where
  "demo_home = [(''/a'', File ''x''), ([], Dir), (''/h'', Dir), (''/h/Trash'', Dir)]"

definition demo_trashed :: mem where
  "demo_trashed = (case delete_op 1 mem_fs ''/a'' False demo_home of Some (s, _) \<Rightarrow> s | None \<Rightarrow> [])"

definition demo_tray :: trash where
  "demo_tray = fst (fst (init_trash (tray_fs mem_fs (\<lambda>s p. length (mem_names s p)) (\<lambda>s p. (0, s))) ''/h'' demo_home))"

lemma demo_trash_names: "trash_names_ok mem_fs ''/a''"
proof -
  have "pFileName mem_fs ''/a'' = ''a''" and "pCompleteBase mem_fs ''/a'' = ''a''" by code_simp+
  then show ?thesis
    by (auto simp: trash_names_ok_def trash_candidate_def plain_name_def dot_ext_def mem_fs_def mem_join_def)
qed

lemma mem_counts_entries: "counts_entries mem_fs map_of (\<lambda>s p. length (mem_names s p))"
proof -
  have "mem_names s p = [] \<longleftrightarrow> (\<forall>n. plain_name n \<longrightarrow> map_of s (mem_join p n) = None)" for s p
    using mem_names_iff [of _ s p] by (metis list.set_intros(1) mem_names_empty neq_Nil_conv)
  then show ?thesis by (simp add: counts_entries_def mem_fs_def)
qed

lemma mem_join_split:
  assumes "plain_name n" and "d @ ''/'' @ n = p"
  shows "d = rev (tl (dropWhile (\<lambda>c. c \<noteq> CHR ''/'') (rev p)))"
proof -
  have "dropWhile (\<lambda>c. c \<noteq> CHR ''/'') (rev n @ CHR ''/'' # rev d) = CHR ''/'' # rev d"
    using assms(1) by (subst dropWhile_append2) (auto simp: plain_name_def)
  then show ?thesis by (simp flip: assms(2))
qed

lemma demo_trashed_tree: "tree_at mem_fs map_of demo_trashed"
proof -
  have disk: "demo_trashed = [(''/h/Trash/files/a'', File ''x''), (''/h/Trash/files'', Dir), ([], Dir), (''/h'', Dir), (''/h/Trash'', Dir)]"
    by code_simp
  show ?thesis unfolding tree_at_def disk
    by (auto simp: mem_fs_def mem_join_def split: if_splits dest!: mem_join_split [simplified])
qed

theorem trashed_file_shows_witness:
  "tr_itemCount (fst (onTrashChanged (tray_fs mem_fs (\<lambda>s p. length (mem_names s p)) (\<lambda>s p. (0, s))) demo_trashed demo_tray)) = 1"
proof -
  let ?W = "\<lambda>l. if l = GenericDataLocation then ''/h'' else ''/d''"
  have run: "delete_op 1 mem_fs ''/a'' False demo_home = Some (demo_trashed, DeleteFinished True [])" by code_simp
  have canon: "mem_canon ''/a''" and paths: "trash_paths_ok mem_fs mem_canon ''/a''"
    by (auto simp: mem_canon_def trash_paths_ok_def mem_data_home dest!: joins_mem_prefix)
  have gio: "fst (gioTrash mem_fs demo_home ''/a'') \<noteq> GioExited 0" by (simp add: mem_fs_def)
  have node: "map_of demo_home ''/a'' = Some (File ''x'')" by (simp add: demo_home_def)
  have tray: "tr_trashPath demo_tray = trash_dir mem_fs" "\<not> tr_reloading demo_tray"
    by (simp_all add: demo_tray_def init_trash_def tr_rescan_def Let_def mem_data_home)
  have home: "?W GenericDataLocation = dataHome mem_fs" by (simp add: mem_data_home)
  have "length (mem_names demo_trashed (trash_dir mem_fs)) = 1" by code_simp
  with trashed_file_shows [where writable = ?W and rm = "\<lambda>s p. (0, s)", OF mem_fs_laws mem_gio gio canon paths
      demo_trash_names node run demo_trashed_tree mem_counts_entries tray home]
  show ?thesis by (simp add: Let_def)
qed

end
