(* ===== verification/LiveWatch.thy ===== *)
theory LiveWatch
  imports Prelude
begin

text \<open>
  Views that follow the disk through a QFileSystemWatcher. Four classes work this way: the icons
  of the desktop, the wallpaper picker and the trash icon of the shell, and the wallpaper watcher
  of the compositor. Each reads the disk, watches some paths, and reads again when one of them is
  reported, arming its watches anew.

  What Qt documents of the watcher: a change of a watched path is reported by a signal some time
  later, the last one of a series of changes in any case; and a path that is removed is not
  watched any more. A report is a path in \<open>li_notices\<close>; reports may overtake each other. Reading
  the disk and arming the watches is one moment.
\<close>

record ('d, 's) live =
  li_disk :: 'd
  li_client :: 's
  li_notices :: "path list"

record ('d, 's, 'e) watcher_client =
  wc_handle :: "path \<Rightarrow> 'd \<Rightarrow> 's \<Rightarrow> 's"      \<comment> \<open>the slot connected to the watcher\<close>
  wc_act :: "'e \<Rightarrow> 'd \<Rightarrow> 's \<Rightarrow> 's"           \<comment> \<open>what QML and the user call\<close>
  wc_watches :: "'s \<Rightarrow> path set"
  wc_forget :: "path set \<Rightarrow> 's \<Rightarrow> 's"      \<comment> \<open>watched paths that are gone\<close>

definition live_start :: "'d \<Rightarrow> 's \<Rightarrow> ('d, 's) live" where
  "live_start d s = \<lparr>li_disk = d, li_client = s, li_notices = []\<rparr>"

text \<open>A report is delivered.\<close>

inductive deliver :: "('d, 's, 'e) watcher_client \<Rightarrow> ('d, 's) live \<Rightarrow> ('d, 's) live \<Rightarrow> bool" for C where
  deliver: "li_notices l = ps @ p # qs \<Longrightarrow>
    deliver C l (l\<lparr>li_client := wc_handle C p (li_disk l) (li_client l), li_notices := ps @ qs\<rparr>)"

text \<open>\<open>R d T G d'\<close>: the disk changes from \<open>d\<close> to \<open>d'\<close>, which the system reports for the paths of \<open>T\<close> and
  which removes or replaces the paths of \<open>G\<close>.\<close>

inductive live_move ::
  "('d, 's, 'e) watcher_client \<Rightarrow> ('d \<Rightarrow> path set \<Rightarrow> path set \<Rightarrow> 'd \<Rightarrow> bool) \<Rightarrow> ('d, 's) live \<Rightarrow> ('d, 's) live \<Rightarrow> bool"
  for C R where
  change: "R (li_disk l) T G d' \<Longrightarrow> set ns = T \<inter> wc_watches C (li_client l) \<Longrightarrow>
    live_move C R l
      (l\<lparr>li_disk := d', li_client := wc_forget C G (li_client l), li_notices := li_notices l @ ns\<rparr>)"
| act: "live_move C R l (l\<lparr>li_client := wc_act C e (li_disk l) (li_client l)\<rparr>)"
| notice: "deliver C l l' \<Longrightarrow> live_move C R l l'"

inductive_cases deliverE: "deliver C l l'"
inductive_cases live_moveE: "live_move C R l l'"

lemma deliver_iff: "(\<exists>l'. deliver C l l') \<longleftrightarrow> li_notices l \<noteq> []"
proof
  show "\<exists>l'. deliver C l l' \<Longrightarrow> li_notices l \<noteq> []" by (auto elim: deliverE)
  assume "li_notices l \<noteq> []"
  then obtain p qs where "li_notices l = [] @ p # qs" by (auto simp: neq_Nil_conv)
  from deliver.deliver [OF this] show "\<exists>l'. deliver C l l'" by blast
qed

lemma deliver_one:
  "deliver C l l' \<Longrightarrow> li_disk l' = li_disk l \<and> Suc (length (li_notices l')) = length (li_notices l)"
  by (auto elim: deliverE)

lemma deliver_run:
  "(deliver C ^^ n) l l' \<Longrightarrow> li_disk l' = li_disk l \<and> n + length (li_notices l') = length (li_notices l)"
proof (induction n arbitrary: l')
  case (Suc n)
  then obtain k where k: "(deliver C ^^ n) l k" "deliver C k l'" by auto
  from Suc.IH [OF k(1)] deliver_one [OF k(2)] show ?case by simp
qed simp

text \<open>A property of the client that no slot and no forgotten watch changes.\<close>

lemma deliver_run_keeps:
  assumes "(deliver C ^^ n) l l'" and "\<And>p d s. g (wc_handle C p d s) = g s"
  shows "g (li_client l') = g (li_client l)"
  using assms(1)
proof (induction n arbitrary: l')
  case (Suc n)
  then obtain k where k: "(deliver C ^^ n) l k" "deliver C k l'" by auto
  from k(2) have "g (li_client l') = g (li_client k)" by cases (simp add: assms(2))
  with Suc.IH [OF k(1)] show ?case by simp
qed simp

text \<open>The contract: \<open>good d s\<close> says that the view shows the disk \<open>d\<close> and that all it depends on is
  watched. Every slot makes it so, and a change that no watched path reports keeps it.\<close>

locale watched_view =
  fixes C :: "('d, 's, 'e) watcher_client"
    and R :: "'d \<Rightarrow> path set \<Rightarrow> path set \<Rightarrow> 'd \<Rightarrow> bool"
    and inv :: "'d \<Rightarrow> 's \<Rightarrow> bool"
    and good :: "'d \<Rightarrow> 's \<Rightarrow> bool"
  assumes handle_inv: "inv d s \<Longrightarrow> inv d (wc_handle C p d s)"
    and act_inv: "inv d s \<Longrightarrow> inv d (wc_act C e d s)"
    and change_inv: "inv d s \<Longrightarrow> R d T G d' \<Longrightarrow> inv d' (wc_forget C G s)"
    and handle_good: "inv d s \<Longrightarrow> good d (wc_handle C p d s)"
    and act_good: "inv d s \<Longrightarrow> good d s \<Longrightarrow> good d (wc_act C e d s)"
    and unreported: "inv d s \<Longrightarrow> good d s \<Longrightarrow> R d T G d' \<Longrightarrow> T \<inter> wc_watches C s = {} \<Longrightarrow>
      good d' (wc_forget C G s)"
begin

definition follows :: "('d, 's) live \<Rightarrow> bool" where
  "follows l \<longleftrightarrow> inv (li_disk l) (li_client l) \<and> (li_notices l = [] \<longrightarrow> good (li_disk l) (li_client l))"

text \<open>While a report is on its way the view may be out of date; without one it is good.\<close>

lemma deliver_follows: "follows l \<Longrightarrow> deliver C l l' \<Longrightarrow> follows l'"
  by (auto simp: follows_def handle_inv handle_good elim!: deliverE)

lemma move_follows:
  assumes "follows l" and "live_move C R l l'"
  shows "follows l'"
  using assms(2)
proof cases
  case (change T G d' ns)
  have "good d' (wc_forget C G (li_client l))" if "li_notices l @ ns = []"
    using that assms(1) change(3) unreported [OF _ _ change(2), of "li_client l"] by (simp add: follows_def)
  with change assms(1) change_inv [OF _ change(2)] show ?thesis by (simp add: follows_def)
next
  case (act e)
  with assms(1) show ?thesis by (simp add: follows_def act_inv act_good)
next
  case notice
  with assms(1) show ?thesis by (blast intro: deliver_follows)
qed

lemma reach_follows:
  assumes "(live_move C R)\<^sup>*\<^sup>* l l'" and "follows l"
  shows "follows l'"
  using assms by (induction rule: rtranclp_induct) (auto intro: move_follows)

lemma deliveries_follow:
  assumes "(deliver C ^^ n) l l'" and "follows l"
  shows "follows l'"
  using assms
proof (induction n arbitrary: l')
  case (Suc n)
  then obtain k where "(deliver C ^^ n) l k" "deliver C k l'" by auto
  with Suc show ?case by (blast intro: deliver_follows)
qed simp

lemma follows_start: "inv d s \<Longrightarrow> good d s \<Longrightarrow> follows (live_start d s)"
  by (simp add: follows_def live_start_def)

text \<open>What a run comes to: it ends after as many deliveries as there are reports, and then the view
  is good.\<close>

lemma catches_up:
  assumes "inv d s" "good d s" and "(live_move C R)\<^sup>*\<^sup>* (live_start d s) l" and "(deliver C ^^ n) l l'"
  shows "n \<le> length (li_notices l) \<and> li_disk l' = li_disk l \<and>
    ((\<nexists>k. deliver C l' k) \<longleftrightarrow> n = length (li_notices l)) \<and>
    (n = length (li_notices l) \<longrightarrow> inv (li_disk l) (li_client l') \<and> good (li_disk l) (li_client l'))"
proof -
  have "follows l'"
    using deliveries_follow [OF assms(4)] reach_follows [OF assms(3)] follows_start [OF assms(1,2)] by blast
  with deliver_run [OF assms(4)] deliver_iff [of C l'] show ?thesis by (auto simp: follows_def)
qed

end

end
