(* ===== verification/ShellLive.thy ===== *)
theory ShellLive
  imports LiveWatch DesktopIcons Wallpapers Tray
begin

text \<open>
  The views of the shell and the compositor while the disk changes under them: the icons of the
  desktop (DesktopIconModel), the wallpaper picker (WallpaperModel), the installed wallpaper
  (WallpaperWatcher) and the trash icon (TrashIconState), each as a client of \<^theory_text>\<open>LiveWatch\<close>.
\<close>

lemma set_fold_insert:
  "set (fold (\<lambda>x ws. if P x then List.insert (f x) ws else ws) xs ws) = set ws \<union> f ` {x \<in> set xs. P x}"
  by (induction xs arbitrary: ws) auto


subsection \<open>The desktop\<close>

fun desktop_act :: "dt_event \<Rightarrow> dt_env \<Rightarrow> desktop \<Rightarrow> desktop" where
  "desktop_act e V m = fst (dt_step (V, e) m)"

definition desktop_client :: "(dt_env, desktop, dt_event) watcher_client" where
  "desktop_client =
     \<lparr>wc_handle = (\<lambda>p V m. fst (if p \<in> set (dt_dirWatches m) then dt_onDirectoryChanged V m else dt_onFileChanged V m)),
      wc_act = desktop_act,
      wc_watches = (\<lambda>m. set (dt_dirWatches m) \<union> set (dt_fileWatches m)),
      wc_forget = (\<lambda>G m. m\<lparr>dt_dirWatches := filter (\<lambda>p. p \<notin> G) (dt_dirWatches m),
        dt_fileWatches := filter (\<lambda>p. p \<notin> G) (dt_fileWatches m)\<rparr>)\<rparr>"

definition shown_infos :: "dt_env \<Rightarrow> bool \<Rightarrow> qfileinfo list" where
  "shown_infos V hidden = filter (\<lambda>fi. hidden \<or> \<not> qi_isHidden fi) (dv_infos V)"

text \<open>The system reports a change of the directory for the directory: an entry that comes, goes or is
  renamed, and what becomes of an entry that is not a regular file. What becomes of a regular file, its
  contents included, it reports for the file. The change leaves the desktop directory where it is.
  (A change inside a folder, which alters the folder's own time, is reported for neither.)\<close>

definition same_entry :: "path set \<Rightarrow> qfileinfo \<Rightarrow> qfileinfo \<Rightarrow> bool" where
  "same_entry T fi fi' \<longleftrightarrow>
     fi' = fi \<or>
     qi_isFile fi \<and> qi_isFile fi' \<and> qi_absoluteFilePath fi' = qi_absoluteFilePath fi \<and> qi_isHidden fi' = qi_isHidden fi \<and>
     qi_absoluteFilePath fi \<in> T"

definition desktop_change :: "path \<Rightarrow> dt_env \<Rightarrow> path set \<Rightarrow> path set \<Rightarrow> dt_env \<Rightarrow> bool" where
  "desktop_change dp V T G V' \<longleftrightarrow>
     dv_dirExists V' \<and> dp \<notin> G \<and> G \<subseteq> T \<and>
     dv_isSpace V' = dv_isSpace V \<and> dv_equalCI V' = dv_equalCI V \<and> dv_localFile V' = dv_localFile V \<and>
     dv_splitCommand V' = dv_splitCommand V \<and>
     (dp \<notin> T \<longrightarrow> list_all2 (same_entry T) (dv_infos V) (dv_infos V') \<and>
        (\<forall>fi\<in>set (dv_infos V). dv_lines V' (qi_absoluteFilePath fi) = dv_lines V (qi_absoluteFilePath fi) \<or>
           qi_isFile fi \<and> qi_absoluteFilePath fi \<in> T))"

definition desktop_good :: "path \<Rightarrow> dt_env \<Rightarrow> desktop \<Rightarrow> bool" where
  "desktop_good dp V m \<longleftrightarrow>
     dt_entries m = map (entryFromInfo V) (shown_infos V (dt_showHidden m)) \<and>
     dp \<in> set (dt_dirWatches m) \<and>
     (\<forall>fi\<in>set (shown_infos V (dt_showHidden m)). qi_isFile fi \<longrightarrow> qi_absoluteFilePath fi \<in> set (dt_fileWatches m))"

definition desktop_idle :: "path \<Rightarrow> desktop \<Rightarrow> bool" where
  "desktop_idle dp m \<longleftrightarrow> dt_path m = dp \<and> \<not> dt_reloading m"

lemma scan_idle: "desktop_idle dp m \<Longrightarrow> desktop_idle dp (fst (scanDirectory V m))"
  by (simp add: desktop_idle_def scanDirectory_def Let_def)

lemma scan_good: "dv_dirExists V \<Longrightarrow> dt_path m = dp \<Longrightarrow> desktop_good dp V (fst (scanDirectory V m))"
  by (auto simp: desktop_good_def scanDirectory_def shown_infos_def set_fold_insert Let_def)

lemma entry_same:
  assumes "same_entry T fi fi'" and "\<not> (qi_isFile fi \<and> qi_absoluteFilePath fi \<in> T)"
    and "dv_lines V' (qi_absoluteFilePath fi) = dv_lines V (qi_absoluteFilePath fi)"
    and "dv_isSpace V' = dv_isSpace V" "dv_equalCI V' = dv_equalCI V" "dv_localFile V' = dv_localFile V"
      "dv_splitCommand V' = dv_splitCommand V"
  shows "entryFromInfo V' fi' = entryFromInfo V fi"
proof -
  have "fi' = fi" using assms(1,2) by (auto simp: same_entry_def)
  moreover have "parse_shortcut V' e = parse_shortcut V e" if "de_filePath e = qi_absoluteFilePath fi" for e
    unfolding parse_shortcut_def by (simp only: that assms(3-7))
  ultimately show ?thesis by (simp add: entryFromInfo_def assms(5) Let_def)
qed

lemma shown_infos_same:
  assumes "list_all2 (same_entry T) fis fis'"
    and "\<And>fi. fi \<in> set fis \<Longrightarrow> h \<or> \<not> qi_isHidden fi \<Longrightarrow> qi_isFile fi \<Longrightarrow> qi_absoluteFilePath fi \<notin> T"
  shows "filter (\<lambda>fi. h \<or> \<not> qi_isHidden fi) fis' = filter (\<lambda>fi. h \<or> \<not> qi_isHidden fi) fis"
  using assms by (induction rule: list_all2_induct) (auto simp: same_entry_def)

lemma desktop_unreported:
  assumes "desktop_good dp V m" and "desktop_change dp V T G V'"
    and none: "T \<inter> wc_watches desktop_client m = {}"
  shows "desktop_good dp V' (wc_forget desktop_client G m)"
proof -
  let ?h = "dt_showHidden m"
  have off: "T \<inter> (set (dt_dirWatches m) \<union> set (dt_fileWatches m)) = {}" using none by (simp add: desktop_client_def)
  have G: "G \<subseteq> T" and dp: "dp \<notin> T" using assms off by (auto simp: desktop_good_def desktop_change_def)
  have safe: "qi_absoluteFilePath fi \<notin> T" if "fi \<in> set (shown_infos V ?h)" "qi_isFile fi" for fi
    using that assms(1) off by (auto simp: desktop_good_def)
  have infos: "shown_infos V' ?h = shown_infos V ?h"
    unfolding shown_infos_def
    by (rule shown_infos_same) (use assms(2) dp safe in \<open>auto simp: desktop_change_def shown_infos_def\<close>)
  have "entryFromInfo V' fi = entryFromInfo V fi" if "fi \<in> set (shown_infos V ?h)" for fi
  proof (rule entry_same [where T = T])
    show "dv_lines V' (qi_absoluteFilePath fi) = dv_lines V (qi_absoluteFilePath fi)"
      using that assms(2) dp safe [OF that] by (auto simp: desktop_change_def shown_infos_def)
  qed (use assms(2) safe [OF that] in \<open>auto simp: desktop_change_def same_entry_def\<close>)
  then have "map (entryFromInfo V') (shown_infos V' ?h) = map (entryFromInfo V) (shown_infos V ?h)"
    by (simp add: infos)
  moreover have "set (filter (\<lambda>p. p \<notin> G) ws) = set ws" if "set ws \<inter> T = {}" for ws using that G by auto
  from this [of "dt_dirWatches m"] this [of "dt_fileWatches m"] off
  have "set (filter (\<lambda>p. p \<notin> G) (dt_dirWatches m)) = set (dt_dirWatches m)"
    "set (filter (\<lambda>p. p \<notin> G) (dt_fileWatches m)) = set (dt_fileWatches m)" by blast+
  ultimately show ?thesis
    using assms(1) by (simp add: desktop_good_def desktop_client_def infos del: set_filter)
qed

lemma desktop_handle: "desktop_idle dp m \<Longrightarrow> wc_handle desktop_client p V m = fst (scanDirectory V m)"
  by (simp add: desktop_client_def desktop_idle_def dt_onDirectoryChanged_def dt_onFileChanged_def)

lemma desktop_act_cases:
  assumes "desktop_idle dp m"
  shows "desktop_act e V m = m \<or> desktop_act e V m = fst (scanDirectory V m) \<or>
    (\<exists>h. desktop_act e V m = fst (scanDirectory V (m\<lparr>dt_showHidden := h\<rparr>)))"
  using assms by (cases e) (auto simp: desktop_idle_def dt_onDirectoryChanged_def dt_onFileChanged_def dt_refresh_def
      dt_setShowHidden_def case_prod_beta)

interpretation desktop_live:
  watched_view desktop_client "desktop_change dp" "\<lambda>V m. dv_dirExists V \<and> desktop_idle dp m" "desktop_good dp" for dp
proof (unfold_locales)
  fix m :: desktop and V :: dt_env and p
  assume inv: "dv_dirExists V \<and> desktop_idle dp m"
  then have ok: "dv_dirExists V" and idle: "desktop_idle dp m" and path: "dt_path m = dp" by (simp_all add: desktop_idle_def)
  show "dv_dirExists V \<and> desktop_idle dp (wc_handle desktop_client p V m)"
    and "desktop_good dp V (wc_handle desktop_client p V m)"
    using inv path by (simp_all add: desktop_handle [OF idle] scan_idle scan_good)
  have hid: "desktop_idle dp (m\<lparr>dt_showHidden := h\<rparr>)" "dt_path (m\<lparr>dt_showHidden := h\<rparr>) = dp" for h
    using idle by (simp_all add: desktop_idle_def)
  show "dv_dirExists V \<and> desktop_idle dp (wc_act desktop_client e V m)" for e
    using desktop_act_cases [OF idle, of e V] scan_idle [OF hid(1)] scan_idle [OF idle] inv by (auto simp: desktop_client_def)
  show "desktop_good dp V (wc_act desktop_client e V m)" if "desktop_good dp V m" for e
    using desktop_act_cases [OF idle, of e V] that scan_good [OF ok hid(2)] scan_good [OF ok path]
    by (auto simp: desktop_client_def)
  show "dv_dirExists V' \<and> desktop_idle dp (wc_forget desktop_client G m)" if "desktop_change dp V T G V'" for T G V'
    using that idle by (simp add: desktop_change_def desktop_client_def desktop_idle_def)
qed (simp add: desktop_unreported)

text \<open>
  C28. The desktop follows the disk. Files come, go, are replaced and are written, the user changes
  the settings, and reports arrive late and in any order. From every state that can be reached,
  delivering the reports that are on their way ends after as many steps as there are reports; and
  when none is left, the desktop shows exactly the entries the directory has on the disk now that
  the setting lets through, each as it is now, shortcuts read anew; it still watches the directory
  and every regular file it shows. The condition is that the desktop directory itself stays.
\<close>

theorem desktop_follows_disk:
  assumes "dv_dirExists V0"
    and "(live_move desktop_client (desktop_change dp))\<^sup>*\<^sup>* (live_start V0 (fst (init_desktop dp V0))) l"
    and "(deliver desktop_client ^^ n) l l'"
  shows "n \<le> length (li_notices l) \<and> li_disk l' = li_disk l \<and>
    dt_showHidden (li_client l') = dt_showHidden (li_client l) \<and>
    ((\<nexists>k. deliver desktop_client l' k) \<longleftrightarrow> n = length (li_notices l)) \<and>
    (n = length (li_notices l) \<longrightarrow>
       dt_entries (li_client l') = map (entryFromInfo (li_disk l)) (shown_infos (li_disk l) (dt_showHidden (li_client l))) \<and>
       dp \<in> set (dt_dirWatches (li_client l')) \<and>
       (\<forall>fi\<in>set (shown_infos (li_disk l) (dt_showHidden (li_client l))).
          qi_isFile fi \<longrightarrow> qi_absoluteFilePath fi \<in> set (dt_fileWatches (li_client l'))))"
proof -
  let ?m = "\<lparr>dt_path = dp, dt_entries = [], dt_showHidden = False, dt_reloading = False, dt_dirWatches = [], dt_fileWatches = []\<rparr>"
  have start: "dv_dirExists V0 \<and> desktop_idle dp (fst (init_desktop dp V0))" "desktop_good dp V0 (fst (init_desktop dp V0))"
    using scan_idle [of dp ?m V0] scan_good [OF assms(1), of ?m dp] assms(1) by (simp_all add: init_desktop_def desktop_idle_def)
  have "dt_showHidden (wc_handle desktop_client p V m) = dt_showHidden m" for p V m
    by (simp add: desktop_client_def dt_onDirectoryChanged_def dt_onFileChanged_def scanDirectory_def Let_def)
  from deliver_run_keeps [OF assms(3), of dt_showHidden, OF this]
    desktop_live.catches_up [OF start assms(2,3)]
  show ?thesis by (simp add: desktop_good_def)
qed

text \<open>A second file is put on the desktop.\<close>

definition demo_dt_more :: dt_env where
  "demo_dt_more = demo_dt_env\<lparr>dv_infos := dv_infos demo_dt_env @ [plain_info\<lparr>qi_fileName := ''b'', qi_absoluteFilePath := ''/d/b''\<rparr>]\<rparr>"

theorem desktop_follows_disk_witness:
  "\<exists>l'. (live_move desktop_client (desktop_change ''/d''))\<^sup>*\<^sup>* (live_start demo_dt_env (fst (init_desktop ''/d'' demo_dt_env))) l' \<and>
     map de_name (dt_entries (li_client l')) = [''Docs'', ''b'']"
proof -
  let ?C = desktop_client and ?R = "desktop_change ''/d''"
  let ?l0 = "live_start demo_dt_env (fst (init_desktop ''/d'' demo_dt_env))"
  let ?l1 = "?l0\<lparr>li_disk := demo_dt_more, li_client := wc_forget ?C {} (li_client ?l0), li_notices := li_notices ?l0 @ [''/d'']\<rparr>"
  let ?l2 = "?l1\<lparr>li_client := wc_handle ?C ''/d'' (li_disk ?l1) (li_client ?l1), li_notices := []\<rparr>"
  have ex: "dv_dirExists demo_dt_env" by (simp add: demo_dt_env_def)
  have "live_move ?C ?R ?l0 ?l1"
    by (rule live_move.change [where T = "{''/d''}"])
      (auto simp: desktop_change_def live_start_def demo_dt_more_def demo_dt_env_def desktop_client_def init_desktop_def
        scanDirectory_def Let_def)
  moreover have one: "deliver ?C ?l1 ?l2"
    by (rule deliver.deliver [where ps = "[]" and qs = "[]", simplified]) (simp add: live_start_def)
  ultimately have run: "(live_move ?C ?R)\<^sup>*\<^sup>* ?l0 ?l1" and end_run: "(live_move ?C ?R)\<^sup>*\<^sup>* ?l0 ?l2"
    by (auto intro: live_move.notice rtranclp.rtrancl_into_rtrancl)
  from one have "(deliver ?C ^^ 1) ?l1 ?l2" by (simp only: relpowp_1)
  from desktop_follows_disk [OF ex run this]
  have "dt_entries (li_client ?l2) = map (entryFromInfo demo_dt_more) (shown_infos demo_dt_more (dt_showHidden (li_client ?l1)))"
    by (simp add: live_start_def)
  moreover have "\<not> dt_showHidden (li_client ?l1)"
    by (simp add: live_start_def desktop_client_def init_desktop_def scanDirectory_def Let_def)
  moreover have "map de_name (map (entryFromInfo demo_dt_more) (shown_infos demo_dt_more False)) = [''Docs'', ''b'']"
    by code_simp
  ultimately show ?thesis using end_run by metis
qed

text \<open>If the desktop directory is removed, the scan that the report leads to finds nothing and returns
  before it watches anything: the directory may be made again, and no change of it is reported.\<close>

lemma desktop_directory_lost:
  assumes "\<not> dv_dirExists V" and "set (dt_dirWatches m) \<union> set (dt_fileWatches m) \<subseteq> G" and "desktop_idle dp m"
  shows "wc_watches desktop_client (wc_handle desktop_client p V (wc_forget desktop_client G m)) = {} \<and>
    dt_entries (wc_handle desktop_client p V (wc_forget desktop_client G m)) = []"
proof -
  let ?m = "m\<lparr>dt_dirWatches := [], dt_fileWatches := []\<rparr>"
  have "filter (\<lambda>p. p \<notin> G) ws = []" if "set ws \<subseteq> G" for ws using that by (auto simp: filter_empty_conv)
  then have "wc_forget desktop_client G m = ?m" using assms(2) by (simp add: desktop_client_def)
  moreover have "desktop_idle dp ?m" using assms(3) by (simp add: desktop_idle_def)
  then have "wc_handle desktop_client p V ?m = fst (scanDirectory V ?m)" by (rule desktop_handle)
  ultimately show ?thesis using assms(1) by (simp add: scanDirectory_def desktop_client_def)
qed

text \<open>Until somebody calls refresh or setShowHidden, nothing happens any more.\<close>

lemma unwatched_stays:
  assumes "(live_move (desktop_client\<lparr>wc_act := (\<lambda>e V m. m)\<rparr>) R)\<^sup>*\<^sup>* l l'"
    and "wc_watches desktop_client (li_client l) = {}" and "li_notices l = []"
  shows "li_client l' = li_client l \<and> li_notices l' = []"
  using assms
proof (induction rule: rtranclp_induct)
  case (step k k')
  then have k: "li_client k = li_client l" "li_notices k = []" by simp_all
  from step.hyps(2) k step.prems(1) show ?case by cases (auto simp: desktop_client_def elim: deliverE)
qed simp


subsection \<open>The wallpaper picker\<close>

fun picker_act :: "url_ops \<Rightarrow> wp_event \<Rightarrow> wall_env \<Rightarrow> wallpapers \<Rightarrow> wallpapers" where
  "picker_act U (WpDirectoryChanged E') E m = fst (wp_step U (WpDirectoryChanged E) m)"
| "picker_act U (WpSet u) E m = fst (wp_step U (WpSet u) m)"
| "picker_act U (WpLoad saved) E m = fst (wp_step U (WpLoad saved) m)"

definition picker_client :: "url_ops \<Rightarrow> (wall_env, wallpapers, wp_event) watcher_client" where
  "picker_client U =
     \<lparr>wc_handle = (\<lambda>p E m. fst (wp_onDirectoryChanged E m)), wc_act = picker_act U,
      wc_watches = (\<lambda>m. set (wp_watches m)),
      wc_forget = (\<lambda>G m. m\<lparr>wp_watches := filter (\<lambda>p. p \<notin> G) (wp_watches m)\<rparr>)\<rparr>"

definition wall_dirs :: "wall_env \<Rightarrow> path set" where
  "wall_dirs E = {system_dir, user_dir (wv_home E)}"

definition picker_change :: "wall_env \<Rightarrow> path set \<Rightarrow> path set \<Rightarrow> wall_env \<Rightarrow> bool" where
  "picker_change E T G E' \<longleftrightarrow>
     wv_home E' = wv_home E \<and> G \<subseteq> T \<and> G \<inter> wall_dirs E = {} \<and> (\<forall>d\<in>wall_dirs E - T. wv_files E' d = wv_files E d)"

definition picker_inv :: "path \<Rightarrow> wall_env \<Rightarrow> wallpapers \<Rightarrow> bool" where
  "picker_inv home E m \<longleftrightarrow> wv_home E = home \<and> \<not> wp_reloading m \<and> wall_dirs E \<subseteq> set (wp_watches m)"

definition listed :: "wall_env \<Rightarrow> wall_entry list" where
  "listed E = addDir E (user_dir (wv_home E)) True (addDir E system_dir False [])"

lemma scanAll_listed: "wp_entries (fst (scanAll E m)) = listed E"
  by (simp add: scanAll_def listed_def)

lemma picker_act_keeps:
  "\<not> wp_reloading m \<Longrightarrow> wp_watches (picker_act U e E m) = wp_watches m \<and> \<not> wp_reloading (picker_act U e E m) \<and>
    (wp_entries (picker_act U e E m) = wp_entries m \<or> wp_entries (picker_act U e E m) = listed E)"
  by (cases e) (simp_all add: wp_onDirectoryChanged_def scanAll_listed setCurrentWallpaper_def loadCurrent_def,
      simp add: scanAll_def)

lemma listed_same:
  assumes "picker_change E T G E'" and "T \<inter> wall_dirs E = {}"
  shows "listed E' = listed E"
proof -
  have "wv_files E' d = wv_files E d" if "d \<in> wall_dirs E" for d using assms that by (auto simp: picker_change_def)
  moreover have "wv_home E' = wv_home E" using assms(1) by (simp add: picker_change_def)
  ultimately show ?thesis by (simp add: listed_def addDir_def wall_dirs_def)
qed

interpretation picker_live:
  watched_view "picker_client U" picker_change "picker_inv home" "\<lambda>E m. wp_entries m = listed E" for U home
proof (unfold_locales)
  fix E E' :: wall_env and m :: wallpapers and T G
  assume inv: "picker_inv home E m" and R: "picker_change E T G E'"
  have dirs: "wall_dirs E' = wall_dirs E" using R by (simp add: picker_change_def wall_dirs_def)
  show "picker_inv home E' (wc_forget (picker_client U) G m)"
    using inv R unfolding picker_inv_def dirs by (auto simp: picker_change_def picker_client_def)
  assume "wp_entries m = listed E" and "T \<inter> wc_watches (picker_client U) m = {}"
  moreover from this(2) inv have "T \<inter> wall_dirs E = {}" by (auto simp: picker_inv_def picker_client_def)
  ultimately show "wp_entries (wc_forget (picker_client U) G m) = listed E'"
    using listed_same [OF R] by (simp add: picker_client_def)
next
  fix E :: wall_env and m :: wallpapers and p
  assume "picker_inv home E m"
  then show "picker_inv home E (wc_handle (picker_client U) p E m)" and "wp_entries (wc_handle (picker_client U) p E m) = listed E"
    by (simp_all add: picker_client_def picker_inv_def wp_onDirectoryChanged_def scanAll_listed) (simp_all add: scanAll_def)
next
  fix E :: wall_env and m :: wallpapers and e
  assume "picker_inv home E m"
  with picker_act_keeps [of m U e E] show "picker_inv home E (wc_act (picker_client U) e E m)"
    and "wp_entries m = listed E \<Longrightarrow> wp_entries (wc_act (picker_client U) e E m) = listed E"
    by (auto simp: picker_client_def picker_inv_def)
qed

text \<open>If both directories are there when the picker starts, it lists what they hold, however many reports
  are late; delivering them leaves the choice alone.\<close>

theorem picker_follows_disk:
  assumes "wv_files E system_dir \<noteq> None" and "wv_files E (user_dir (wv_home E)) \<noteq> None"
    and "(live_move (picker_client U) picker_change)\<^sup>*\<^sup>* (live_start E (fst (init_wallpapers U E E saved))) l"
    and "(deliver (picker_client U) ^^ n) l l'"
  shows "n \<le> length (li_notices l) \<and> wp_current (li_client l') = wp_current (li_client l) \<and>
    ((\<nexists>k. deliver (picker_client U) l' k) \<longleftrightarrow> n = length (li_notices l)) \<and>
    (n = length (li_notices l) \<longrightarrow>
       map (\<lambda>e. (we_path e, we_isUser e)) (wp_entries (li_client l')) =
         map (\<lambda>p. (p, False)) (images (li_disk l) system_dir) @ map (\<lambda>p. (p, True)) (images (li_disk l) (user_dir (wv_home E))))"
proof -
  let ?m = "fst (init_wallpapers U E E saved)"
  have "wp_watches ?m = [system_dir, user_dir (wv_home E)]"
    using assms(1,2) by (simp add: init_wallpapers_def Let_def scanAll_def loadCurrent_def setCurrentWallpaper_def)
  moreover have "wp_entries ?m = listed E" and "\<not> wp_reloading ?m"
    using init_entries [of U E E saved] by (simp_all add: scanAll_listed)
  ultimately have start: "picker_inv (wv_home E) E ?m" "wp_entries ?m = listed E"
    by (simp_all add: picker_inv_def wall_dirs_def)
  have "wp_current (wc_handle (picker_client U) p d s) = wp_current s" for p d s
    by (simp add: picker_client_def wp_onDirectoryChanged_def scanAll_def)
  from deliver_run_keeps [OF assms(4), of wp_current, OF this] picker_live.catches_up [OF start assms(3,4)]
  show ?thesis
    using scanAll_paths [of "li_disk l"] by (auto simp: picker_inv_def scanAll_listed)
qed


subsection \<open>The installed wallpaper\<close>

text \<open>The disk is the set of paths that exist. Nobody but its watcher calls into the class.\<close>

definition wall_client :: "url_ops \<Rightarrow> (path \<Rightarrow> bool, wall_watcher, unit) watcher_client" where
  "wall_client U =
     \<lparr>wc_handle = (\<lambda>p ex w. onPathChanged U ex w), wc_act = (\<lambda>e ex w. w),
      wc_watches = (\<lambda>w. set (ww_directories w) \<union> set (ww_files w)),
      wc_forget = (\<lambda>G w. w\<lparr>ww_directories := filter (\<lambda>p. p \<notin> G) (ww_directories w),
        ww_files := filter (\<lambda>p. p \<notin> G) (ww_files w)\<rparr>)\<rparr>"

abbreviation wall_dir :: path where
  "wall_dir \<equiv> ''/var/lib/niraos/desktop''"

abbreviation wall_png :: path where
  "wall_png \<equiv> ''/var/lib/niraos/desktop/wallpaper.png''"

abbreviation wall_default :: path where
  "wall_default \<equiv> ''/usr/share/niraos/wallpapers/default.png''"

text \<open>The directory stays; that the wallpaper comes or goes is reported for the directory.\<close>

definition wall_change :: "(path \<Rightarrow> bool) \<Rightarrow> path set \<Rightarrow> path set \<Rightarrow> (path \<Rightarrow> bool) \<Rightarrow> bool" where
  "wall_change ex T G ex' \<longleftrightarrow>
     ex' wall_dir \<and> wall_dir \<notin> G \<and> G \<subseteq> T \<and> (wall_dir \<notin> T \<longrightarrow> ex' wall_png = ex wall_png)"

definition wall_inv :: "(path \<Rightarrow> bool) \<Rightarrow> wall_watcher \<Rightarrow> bool" where
  "wall_inv ex w \<longleftrightarrow>
     ex wall_dir \<and> ww_directoryPath w = wall_dir \<and> ww_wallpaperPath w = wall_png \<and> ww_fallbackPath w = wall_default"

interpretation wall_live: watched_view "wall_client U" wall_change wall_inv "ww_ok U" for U
proof (unfold_locales)
  fix ex ex' :: "path \<Rightarrow> bool" and w T G
  assume inv: "wall_inv ex w" and R: "wall_change ex T G ex'"
  then show "wall_inv ex' (wc_forget (wall_client U) G w)" by (simp add: wall_inv_def wall_change_def wall_client_def)
  assume ok: "ww_ok U ex w" and none: "T \<inter> wc_watches (wall_client U) w = {}"
  have dir: "wall_dir \<in> set (ww_directories w)" and png: "ex wall_png \<longrightarrow> wall_png \<in> set (ww_files w)"
    using ok by (auto simp: ww_ok_def)
  have "wall_dir \<notin> T" and "ex wall_png \<longrightarrow> wall_png \<notin> T" using dir png none by (auto simp: wall_client_def)
  with R have "ex' wall_png = ex wall_png" "wall_dir \<notin> G" "ex wall_png \<longrightarrow> wall_png \<notin> G" by (auto simp: wall_change_def)
  with ok show "ww_ok U ex' (wc_forget (wall_client U) G w)" by (auto simp: ww_ok_def wall_client_def)
next
  fix ex :: "path \<Rightarrow> bool" and w and p :: path
  assume "wall_inv ex w"
  then show "wall_inv ex (wc_handle (wall_client U) p ex w)" and "ww_ok U ex (wc_handle (wall_client U) p ex w)"
    using armed_ok [of w ex U]
    by (auto simp: wall_inv_def wall_client_def onPathChanged_def refreshCache_def armWatches_def Let_def)
qed (simp_all add: wall_client_def)

text \<open>
  C30. The desktop shows the installed wallpaper. If the directory of the action manager exists from
  the start of the compositor on, then, whatever comes and goes in it and however late the
  reports are, delivering the reports on their way ends; and when none is left, the source shown is
  the installed wallpaper if there is one and the default otherwise, and the directory and the
  wallpaper are watched.
\<close>

theorem installed_wallpaper_shown:
  assumes "at_start wall_dir"
    and "(live_move (wall_client U) wall_change)\<^sup>*\<^sup>* (live_start at_start (init_wall_watcher U at_start)) l"
    and "(deliver (wall_client U) ^^ n) l l'"
  shows "n \<le> length (li_notices l) \<and> ((\<nexists>k. deliver (wall_client U) l' k) \<longleftrightarrow> n = length (li_notices l)) \<and>
    (n = length (li_notices l) \<longrightarrow>
       ww_cachedSource (li_client l') =
         ur_local U (if li_disk l ''/var/lib/niraos/desktop/wallpaper.png'' then ''/var/lib/niraos/desktop/wallpaper.png''
           else ''/usr/share/niraos/wallpapers/default.png'') \<and>
       ''/var/lib/niraos/desktop'' \<in> set (ww_directories (li_client l')) \<and>
       (li_disk l ''/var/lib/niraos/desktop/wallpaper.png'' \<longrightarrow>
          ''/var/lib/niraos/desktop/wallpaper.png'' \<in> set (ww_files (li_client l'))))"
proof -
  let ?w = "init_wall_watcher U at_start"
  have "wall_inv at_start ?w" and "ww_ok U at_start ?w"
    using assms(1) by (simp_all add: wall_inv_def init_wall_watcher_def refreshCache_def armWatches_def Let_def ww_ok_def)
  from wall_live.catches_up [OF this assms(2,3)] show ?thesis by (auto simp: ww_ok_def)
qed

theorem installed_wallpaper_shown_witness:
  "\<exists>l. (live_move (wall_client demo_url) wall_change)\<^sup>*\<^sup>*
      (live_start (\<lambda>p. p = wall_dir) (init_wall_watcher demo_url (\<lambda>p. p = wall_dir))) l \<and>
    ww_cachedSource (li_client l) = ''file:///var/lib/niraos/desktop/wallpaper.png''"
proof -
  let ?C = "wall_client demo_url" and ?ex = "\<lambda>p. p = wall_dir \<or> p = wall_png"
  let ?l0 = "live_start (\<lambda>p. p = wall_dir) (init_wall_watcher demo_url (\<lambda>p. p = wall_dir))"
  let ?l1 = "?l0\<lparr>li_disk := ?ex, li_client := wc_forget ?C {} (li_client ?l0), li_notices := li_notices ?l0 @ [wall_dir]\<rparr>"
  let ?l2 = "?l1\<lparr>li_client := wc_handle ?C wall_dir (li_disk ?l1) (li_client ?l1), li_notices := []\<rparr>"
  have "live_move ?C wall_change ?l0 ?l1"
    by (rule live_move.change [where T = "{wall_dir}"])
      (auto simp: wall_change_def live_start_def wall_client_def init_wall_watcher_def refreshCache_def armWatches_def Let_def)
  moreover have one: "deliver ?C ?l1 ?l2"
    by (rule deliver.deliver [where ps = "[]" and qs = "[]", simplified]) (simp add: live_start_def)
  ultimately have run: "(live_move ?C wall_change)\<^sup>*\<^sup>* ?l0 ?l1" and end_run: "(live_move ?C wall_change)\<^sup>*\<^sup>* ?l0 ?l2"
    by (auto intro: live_move.notice rtranclp.rtrancl_into_rtrancl)
  from one have "(deliver ?C ^^ 1) ?l1 ?l2" by (simp only: relpowp_1)
  from installed_wallpaper_shown [OF _ run this]
  have "ww_cachedSource (li_client ?l2) = ur_local demo_url wall_png" by (simp add: live_start_def)
  then have "ww_cachedSource (li_client ?l2) = ''file:///var/lib/niraos/desktop/wallpaper.png''" by (simp add: demo_url_def)
  with end_run show ?thesis by blast
qed

text \<open>One wallpaper installed over another: the watcher does its work and announces a change, but the URL
  is the one it was, so that an image bound to it has no reason to load again.\<close>

lemma replaced_wallpaper_same_source:
  assumes "ww_ok U ex w" and "ex wall_png" and "ex' wall_png"
  shows "ww_cachedSource (onPathChanged U ex' w) = ww_cachedSource w"
  using assms by (simp add: ww_ok_def onPathChanged_def refreshCache_def armWatches_def Let_def)


subsection \<open>The trash icon\<close>

definition trash_client :: "'fs trash_fs \<Rightarrow> ('fs, trash, unit) watcher_client" where
  "trash_client F =
     \<lparr>wc_handle = (\<lambda>p s t. fst (onTrashChanged F s t)), wc_act = (\<lambda>e s t. t),
      wc_watches = (\<lambda>t. set (tr_watches t)),
      wc_forget = (\<lambda>G t. t\<lparr>tr_watches := filter (\<lambda>p. p \<notin> G) (tr_watches t)\<rparr>)\<rparr>"

definition trash_change :: "'fs trash_fs \<Rightarrow> path \<Rightarrow> 'fs \<Rightarrow> path set \<Rightarrow> path set \<Rightarrow> 'fs \<Rightarrow> bool" where
  "trash_change F tp s T G s' \<longleftrightarrow>
     tf_exists F s' tp \<and> tp \<notin> G \<and> (tp \<notin> T \<longrightarrow> tf_entries F s' tp = tf_entries F s tp)"

definition trash_inv :: "'fs trash_fs \<Rightarrow> path \<Rightarrow> 'fs \<Rightarrow> trash \<Rightarrow> bool" where
  "trash_inv F tp s t \<longleftrightarrow>
     tf_exists F s tp \<and> tr_trashPath t = tp \<and> \<not> tr_reloading t \<and> tp \<in> set (tr_watches t)"

interpretation trash_live:
  watched_view "trash_client F" "trash_change F tp" "trash_inv F tp" "\<lambda>s t. tr_itemCount t = int (tf_entries F s tp)" for F tp
  by unfold_locales
    (auto simp: trash_inv_def trash_client_def trash_change_def onTrashChanged_def tr_rescan_def Let_def)

text \<open>As long as nobody empties the trash, and so takes the watched directory away, the icon follows it.\<close>

theorem trash_icon_follows_disk:
  assumes "init_trash F home s = ((t, os), s0)" and "tf_exists F s0 (home @ ''/Trash/files'')"
    and "(live_move (trash_client F) (trash_change F (home @ ''/Trash/files'')))\<^sup>*\<^sup>* (live_start s0 t) l"
    and "(deliver (trash_client F) ^^ n) l l'"
  shows "n \<le> length (li_notices l) \<and> ((\<nexists>k. deliver (trash_client F) l' k) \<longleftrightarrow> n = length (li_notices l)) \<and>
    (n = length (li_notices l) \<longrightarrow>
       tr_itemCount (li_client l') = int (tf_entries F (li_disk l) (home @ ''/Trash/files'')) \<and>
       (isEmpty (li_client l') \<longleftrightarrow> tf_entries F (li_disk l) (home @ ''/Trash/files'') = 0))"
proof -
  let ?tp = "home @ ''/Trash/files''"
  have "trash_inv F ?tp s0 t" and "tr_itemCount t = int (tf_entries F s0 ?tp)"
    using assms(1,2) by (auto simp: init_trash_def tr_rescan_def trash_inv_def Let_def split: if_splits)
  from trash_live.catches_up [OF this assms(3,4)] show ?thesis by (auto simp: isEmpty_def)
qed

end
