(* ===== verification/DesktopActions.thy ===== *)
theory DesktopActions
  imports FileMove TrashFlow DesktopIcons
begin

text \<open>
  What the actions on a desktop icon do to the disk: renaming it and moving it to the trash
  (desktop/shell/src/DesktopIconModel.cpp), under the laws of \<^theory_text>\<open>Qfs\<close>, and how its move to the trash
  compares with that of the file manager (apps/files/src/FileOperations.cpp), of which it is a copy.
\<close>


subsection \<open>Renaming\<close>

lemma accepted_name:
  assumes "newName \<noteq> []" and "\<not> str_contains newName ''/''"
  shows "plain_name newName"
  using assms by (simp add: plain_name_def str_contains_def index_of_single_None)

text \<open>Renaming an icon of a file either succeeds, and the file stands under the new name beside the old
  one, where nothing stood, everything else being as it was; or it fails and nothing has changed. The names
  that a directory always has are refused because they exist.\<close>

theorem desktop_rename_safe:
  assumes "qfs_laws Q canon node_at hidden" and "in_rows row m" and "p = de_filePath (dt_entries m ! nat row)"
    and "canon p" and "canon (pDir Q p)" and "node_at s p = Some (File c)"
    and "newName \<in> {''.'', ''..''} \<Longrightarrow> fExists Q s (pJoin Q (pDir Q p) newName) \<and> pJoin Q (pDir Q p) newName \<noteq> p"
    and "renameEntry Q row newName m s = (ok, s')"
  shows "if ok then plain_name newName \<and> newName \<notin> {''.'', ''..''} \<and> node_at s (pJoin Q (pDir Q p) newName) = None \<and>
      node_at s' = (node_at s)(p := None, pJoin Q (pDir Q p) newName \<mapsto> File c)
    else node_at s' = node_at s"
proof (cases "newName = [] \<or> str_contains newName ''/'' \<or> str_contains newName [CHR 0x5C] \<or>
    fExists Q s (pJoin Q (pDir Q p) newName) \<and> pJoin Q (pDir Q p) newName \<noteq> p")
  case True
  with assms(2,3,8) show ?thesis by (auto simp: renameEntry_def Let_def split: if_splits)
next
  case False
  let ?d = "pJoin Q (pDir Q p) newName"
  from False assms(2,3,8) have run: "fRename Q s p ?d = (ok, s')"
    by (auto simp: renameEntry_def Let_def split: if_splits)
  have plain: "plain_name newName" using False by (blast intro: accepted_name)
  then have "canon ?d" using assms(1,5) by (blast intro: qfs_canon)
  note ren = qfs_rename [OF assms(1,4) this]
  have "newName \<notin> {''.'', ''..''}" using False assms(7) by blast
  with run ren(1,3) [of s s'] ren(2) [of s s' c] assms(6) plain show ?thesis by (cases ok) simp_all
qed


subsection \<open>Moving to the trash\<close>

lemma desktop_trash_target: "dt_trash_target Q p s = trash_target Q p s"
  unfolding dt_trash_target_def trash_target_def trash_candidate_def dot_ext_def ..

text \<open>The two copies of the move to the trash do the same to the disk as long as \<open>gio\<close> or the renaming
  succeeds.\<close>

lemma trash_copies_agree:
  assumes "gioTrash Q s p = (g, s1)" and "snd (dMkpath Q s1 (trash_dir Q)) = s2"
    and "g = GioExited 0 \<or> fst (fRename Q s2 p (trash_target Q p s2))"
  shows "moveToTrash fuel Q p s = Some (dt_moveToTrash Q run p s)"
  using assms
  by (cases "fRename Q s2 p (trash_target Q p s2)")
    (auto simp: moveToTrash_def dt_moveToTrash_def desktop_trash_target Let_def)

text \<open>They differ in the last resort: for a file that was copied into the trash the desktop removes the
  original, where the file manager reports success and leaves it.\<close>

lemma trash_copies_differ:
  assumes laws: "qfs_laws Q canon node_at hidden" and cp: "canon p" and cx: "canon (trash_target Q p s2)"
    and "gioTrash Q s p = (g, s1)" and "g \<noteq> GioExited 0" and "snd (dMkpath Q s1 (trash_dir Q)) = s2"
    and "fRename Q s2 p (trash_target Q p s2) = (False, s3)" and "node_at s3 p = Some (File c)"
    and "fCopy Q s3 p (trash_target Q p s2) = (True, s4)" and "fRemove Q s4 p = (True, s5)" and "0 < fuel"
  shows "dt_moveToTrash Q run p s = (True, s5) \<and> node_at s5 p = None \<and>
    moveToTrash fuel Q p s = Some (True, s4) \<and> node_at s4 p = Some (File c)"
proof -
  have no_dir: "\<not> fIsDir Q s3 p" using assms(8) qfs_queries(2) [OF laws cp] by simp
  from qfs_copy(1) [OF laws cp cx assms(9)] assms(8)
  have s4: "node_at s4 p = Some (File c)" by auto
  then have "\<not> dExists Q s4 p" using qfs_queries(3) [OF laws cp] by simp
  then have "performRecursiveDelete fuel Q p s4 = Some (True, s4)" using assms(11) by (cases fuel) simp_all
  moreover have "node_at s5 p = None" using qfs_remove(1) [OF laws cp assms(10)] by simp
  ultimately show ?thesis
    using assms(4-7,9,10) no_dir s4 by (simp add: moveToTrash_def dt_moveToTrash_def desktop_trash_target)
qed

text \<open>A file whose icon is moved to the trash with success, without \<open>gio\<close>, lies there with its contents; a
  failure leaves it as \<open>gio\<close> left it.\<close>

theorem desktop_trash_keeps:
  assumes laws: "qfs_laws Q canon node_at hidden" and gio: "gio_ok Q canon node_at trash"
    and cp: "canon p" and paths: "trash_paths_ok Q canon p" and names: "trash_names_ok Q p"
    and node: "node_at s p = Some (File c)"
    and row: "in_rows row m" "p = de_filePath (dt_entries m ! nat row)"
    and run: "trashEntry Q exec row m s = (ok, s')"
  shows "if ok then fst (gioTrash Q s p) \<noteq> GioExited 0 \<longrightarrow> stored Q node_at s' c \<and> node_at s' p = None
    else node_at s' p = node_at (snd (gioTrash Q s p)) p"
proof -
  from run row have run: "dt_moveToTrash Q exec p s = (ok, s')" by (simp add: trashEntry_def)
  obtain g s1 where g: "gioTrash Q s p = (g, s1)" by fastforce
  show ?thesis
  proof (cases "g = GioExited 0")
    case True
    with run g have "s' = s1" and ok by (auto simp: dt_moveToTrash_def)
    with g True show ?thesis by simp
  next
    case no_gio: False
    obtain b s2 where mk: "dMkpath Q s1 (trash_dir Q) = (b, s2)" by fastforce
    let ?x = "trash_target Q p s2"
    have apart: "\<not> below Q p (trash_dir Q)" and ct: "canon (trash_dir Q)" using paths by (simp_all add: trash_paths_ok_def)
    have cx: "canon ?x" using paths by (rule trash_target_canon)
    have s2: "node_at s2 p = node_at s1 p" using qfs_mkpath(2) [OF laws ct mk, of p] apart by metis
    have s1: "node_at s1 p = Some (File c) \<or> node_at s1 p = None" using g gio cp node by (metis gio_ok_def)
    have stored: "stored Q node_at t c" if "node_at t ?x = Some (File c)" for t
      using that trash_target_entry [OF names, of s2] by (auto simp: stored_def)
    obtain r s3 where rn: "fRename Q s2 p ?x = (r, s3)" by fastforce
    show ?thesis
    proof (cases r)
      case True
      with run g mk rn no_gio have res: "s' = s3" ok by (auto simp: dt_moveToTrash_def desktop_trash_target)
      have rn1: "fRename Q s2 p ?x = (True, s3)" using rn True by simp
      from qfs_rename(1) [OF laws cp cx rn1] s1 s2
      have f: "node_at s2 p = Some (File c)" and "node_at s2 ?x = None" by auto
      moreover have "node_at s3 = (node_at s2)(p := None, ?x \<mapsto> File c)" using qfs_rename(2) [OF laws cp cx rn1 f] .
      moreover have "p \<noteq> ?x" using f \<open>node_at s2 ?x = None\<close> by auto
      ultimately show ?thesis using res stored [of s3] by simp
    next
      case False
      with rn qfs_rename(3) [OF laws cp cx] have s3: "node_at s3 = node_at s2" by simp
      then have no_dir: "\<not> fIsDir Q s3 p" using s1 s2 qfs_queries(2) [OF laws cp] by auto
      obtain k s4 where c4: "fCopy Q s3 p ?x = (k, s4)" by fastforce
      show ?thesis
      proof (cases k)
        case False
        with run g mk rn no_gio \<open>\<not> r\<close> no_dir c4 have "s' = s4" and "\<not> ok"
          by (auto simp: dt_moveToTrash_def desktop_trash_target)
        with qfs_copy(2) [OF laws cp cx] c4 False s3 s2 g show ?thesis by simp
      next
        case True
        with run g mk rn no_gio \<open>\<not> r\<close> no_dir c4 have rm: "fRemove Q s4 p = (ok, s')"
          by (simp add: dt_moveToTrash_def desktop_trash_target)
        have "fCopy Q s3 p ?x = (True, s4)" using c4 True by simp
        from qfs_copy(1) [OF laws cp cx this] obtain c' where c': "node_at s3 p = Some (File c')"
          "node_at s3 ?x = None" "node_at s4 = (node_at s3)(?x \<mapsto> File c')" by blast
        then have "c' = c" and "p \<noteq> ?x" using s1 s2 s3 by auto
        with c' qfs_remove(1,2) [OF laws cp] rm s3 s2 g stored [of s'] show ?thesis by (cases ok) auto
      qed
    qed
  qed
qed

end
