(* ===== verification/Spec2Isabelle.thy ===== *)
theory Spec2Isabelle
  imports Greeter WindowManager Taskbar FileMove FsWatcher SearchIndexer StorageManager Images ThumbThreads
    Notifications Workspace Tray Launcher DesktopIcons Users Wallpapers Notepad Highlighter Exporter Clients Startup
    ModelTypes FileReports WindowBus AiThreads FilesLive SettingsThreads QmlProperties FilesTogether Programs TrashFlow
    ShellLive DesktopActions
begin

text \<open>
  A model of the C++ desktop of NiraOS and proofs about it: the greeter, the compositor's helpers,
  the shell, the file manager, the settings client and the notepad.

  \<^bold>\<open>The program and its parts.\<close> The greeter talks to greetd over a socket and starts a session. The
  compositor keeps the registry of open windows and offers it on D-Bus; the shell's task bar
  follows its signals. The shell shows the launcher, the desktop icons, the notifications, the
  workspaces, the wallpapers and the tray. The file manager shows a directory, watches it, and
  copies, moves, renames and deletes; the notepad edits text files. Nearly every C++ class is a
  list model read by QML views, or an object whose slots are run by the event loop of one
  thread. A slot is modelled as a function from the state (a record with the fields of the
  class) to the new state and the list of signals it emits; a class as a step function over a
  datatype of its events. Threads and processes that share state are step relations over their
  joint state, one rule for each thing a thread does between two points where another can
  interfere (WindowBus, AiThreads, SettingsThreads, FilesLive, FilePool) or steps of one function
  (Exporter, SearchIndexer, FileModel); a worker that shares nothing is the body it runs.

  \<^bold>\<open>The theories.\<close>
  \<^item> Prelude: strings, lists, keyed lists, the variants that cross to QML. RowModel: the contract
    between a list model and its views (locales \<open>row_model\<close>, \<open>item_model\<close>, \<open>typed_item_model\<close>),
    interpreted for every model; ModelTypes holds their role numbers and types. QmlProperties: the
    contract between an object with properties and the bindings that read it (locale
    \<open>qml_object\<close>), interpreted for fifteen classes. Bags: lists as bags. StdSort: what \<open>std::sort\<close> promises. DesktopFile: the reader of .desktop files.
    Qfs: the file system as an argument, its laws, an instance in memory, and the contract of
    a search for a free name (locale \<open>fresh_name\<close>).
  \<^item> Greeter (desktop/greeter/src/GreeterIPC): framing of messages on the socket, the dialogue.
    Users (UserModel): the accounts of /etc/passwd.
  \<^item> WindowManager (desktop/compositor/src/WindowManagerDBus) and Taskbar
    (desktop/shell/src/TaskbarModel): the registry and its mirror; WindowBus puts the two on a bus
    with a queue in each direction, the start of the shell included. Exporter (ContextExporter).
  \<^item> FileInfo, FileOps, FileCopy, FileDelete, FileMove (apps/files/src/FileOperations): the file
    operations; FileReports: their results and errors as one interface; FileThreads: an operation
    as the sequence of its calls of the file system; FilePool, PoolDepth and PoolRuns: the thread pool,
    where these run side by side, with what each call may do as a law (locales \<open>disk_guarantee\<close>,
    \<open>confined_disk\<close>); FileViews and FilesTogether: what a call sees (locales \<open>disk_view\<close>,
    \<open>local_disk\<close>), and calls that do not see each other. FileModel: the directory
    view. FsWatcher (FileSystemWatcher and main): watching. FilesLive: view, load, watcher and
    timer together while the disk changes. SearchIndexer, StorageManager. Images: thumbnails and
    theme icons; ThumbThreads: thumbnails that several threads ask for.
  \<^item> Notifications (NotificationClient, with the numbers that core/notification-service/src/main.rs
    gives), Workspace, Tray (VolumeControl, PowerStatus, TrashIconState), Launcher
    (AppModel, FilteredAppModel, ProcessLauncher), DesktopIcons (DesktopIconModel) of
    desktop/shell/src; Wallpapers (WallpaperModel and the compositor's WallpaperWatcher).
    DesktopActions: what the actions on an icon do to the disk. LiveWatch and ShellLive: the four
    classes with a QFileSystemWatcher while the disk changes (locale \<open>watched_view\<close>).
  \<^item> Notepad and Highlighter (apps/notepad/src/main.cpp). Clients: the requests and
    replies of desktop/shell/src/AiClient and desktop/settings/src/SettingsClient; AiThreads and
    SettingsThreads: their threads. Startup (the environment, DesktopMetrics, the objects for QML)
    and Programs (the six main functions, statement by statement). TrashFlow: the file manager
    and the tray on one disk.

  \<^bold>\<open>What is shown.\<close> The properties are the theorems under a block that starts with C and a number.
  In short: the greeter reads the same messages however they are split, and asks for a session
  only after an authentication that succeeded (C1-C6); the task bar shows the windows of the
  registry whenever the bus is quiet, and the bus becomes quiet (C7, C8).
  Copies replace nothing and are complete, deletes stay inside what is deleted, moves, renames and
  saves lose nothing (C9-C14, C31), every operation reports its errors and
  leaves the disk alone when it refuses (C15), sizes are shown in the right unit
  (C16), duplicates get names that are free (C17), what the program itself puts into the trash lies there and the shell shows it (C38). An
  operation run call by call is the function it was modelled by (\<open>job_alone\<close>), and operations that
  run at the same time touch nothing that none of them is about (C18), come to rest
  and are reported once each (C19); on different parts of the disk each does what it
  does alone (C20). Views, watches and caches follow what they show,
  a burst of changes is announced once (C39),
  the directory view, the desktop and the wallpaper also while the disk changes (C21-C24,
  C28, C30, C33); the shell's models keep their invariants and agree with an abstract map,
  list or parse, the notifications also with the numbers that the service gives (C25-C29, C32); the clients of the two services show
  what was answered, their threads keep to their own generation or call, and the shell can
  always be closed (C34-C37). What QML binds to is never stale (C40). The theories hold
  more theorems of this kind than carry a number, and lemmas beside them show where the code does
  otherwise; their comments say what happens.

  \<^bold>\<open>Parameters.\<close> Qt's Unicode tables, number formatting, QUrl, JSON, regular expressions, the
  file system, D-Bus, gRPC and the clock are arguments of the definitions, as records of
  functions. What a theorem needs of them is a hypothesis (\<open>qfs_laws\<close>, \<open>sort_ok\<close>, \<open>compare_ok\<close>,
  \<open>note_laws\<close>, \<open>local_ok\<close>, \<open>gio_ok\<close>, \<open>formats\<close>, \<open>reads_file_urls\<close>), and each such theorem has a witness on an instance in memory. The laws of the file
  system are about canonical paths and leave links out; that the code follows links is noted
  where it matters.

  \<^bold>\<open>Loops and fuel.\<close> Loops over lists are structural. The recursive copy takes fuel, as it need not
  end when it copies into itself; it ends for a destination apart from its source (C11). The
  recursive delete has the depth of the tree as bound. The search for a free name is bounded
  as in the code, by 10000. The comment loop of the highlighter takes two rounds more than
  the line has characters, which is enough as each round ends further to the right (C32).
  The frame loop of the greeter is a function whose buffer shrinks. The step relations need no
  fuel: that they come to rest is proved with a bound on the number of steps (\<open>bus_load\<close>,
  \<open>live_load\<close>, three turns of a thumbnail request, six steps of the
  worker that the destructor waits for) or by a well-founded order
  (\<open>pool_less\<close>). A job of the pool takes the same fuel as the function of its operation; if
  it is above the length of every path of a directory, which the system bounds, no job runs out of
  it (PoolDepth).

  \<^bold>\<open>What is not modelled.\<close> The Rust services, but for the numbers of notifications, the vendored llama.cpp, QML, assets and build files;
  log output; FileSystemModel.h, which declares a class nothing implements; the
  timing of timers (a timer is an event that may happen while it runs);
  doubles are rationals; the number of characters of a list is never near the bound of an int.
\<close>

end
